(* ===== verification/Go_Prelude.thy ===== *)
theory Go_Prelude
  imports Main "HOL-Library.Word" "HOL-Library.Monad_Syntax" "HOL-Library.Multiset"
begin

text \<open>
  Shared vocabulary of the development: how the Go values of the modelled packages are
  represented, and the generic facts on lists, options and integers that the component
  theories use.

  \<^item> A Go slice or array is a HOL list. Reading or writing it goes through
    \<open>slice_at\<close> and \<open>slice_put\<close>, which are \<open>None\<close> when the index is out of
    range, where Go panics. In the packages whose only failure is a run-time panic the
    result type is \<open>'a option\<close>, and \<open>None\<close> is the panic (or, for a loop defined
    with \<^theory_text>\<open>partial_function\<close>, a panic or a loop that never returns).
  \<^item> A Go \<open>int\<close> is a HOL \<open>int\<close>. The compiler of this tree gives \<open>int\<close> 32 bits;
    \<open>int32\<close> is the wrap-around, written where an operation of the source can reach it.
  \<^item> Unsigned machine integers are words of their width.
\<close>

named_theorems slice_simps \<open>rewriting of slice reads and writes\<close>

type_synonym byte = "8 word"
type_synonym uint16 = "16 word"
type_synonym uint32 = "32 word"
type_synonym uint64 = "64 word"

section \<open>Integers\<close>

definition int32 :: "int \<Rightarrow> int" where
  "int32 x = (x + 2 ^ 31) mod 2 ^ 32 - 2 ^ 31"

lemma int32_id [simp]: "- (2 ^ 31) \<le> x \<Longrightarrow> x < 2 ^ 31 \<Longrightarrow> int32 x = x"
  by (simp add: int32_def)

lemma int32_range: "- (2 ^ 31) \<le> int32 x \<and> int32 x < 2 ^ 31"
  by (simp add: int32_def)

lemma int32_wrap: "2 ^ 31 \<le> x \<Longrightarrow> x < 2 ^ 32 \<Longrightarrow> int32 x = x - 2 ^ 32"
proof -
  assume "2 ^ 31 \<le> x" "x < 2 ^ 32"
  then have "(x + 2 ^ 31 - 2 ^ 32) mod 2 ^ 32 = x + 2 ^ 31 - 2 ^ 32"
    by (intro mod_pos_pos_trivial) simp_all
  moreover have "(x + 2 ^ 31 - 2 ^ 32) mod 2 ^ 32 = (x + 2 ^ 31) mod 2 ^ 32"
    by (metis minus_mod_self2)
  ultimately show ?thesis
    by (simp add: int32_def)
qed

text \<open>Go's integer division truncates towards zero.\<close>

definition quot :: "int \<Rightarrow> int \<Rightarrow> int" where
  "quot a b = sgn a * sgn b * (\<bar>a\<bar> div \<bar>b\<bar>)"

lemma quot_nonneg [simp]: "0 \<le> a \<Longrightarrow> 0 < b \<Longrightarrow> quot a b = a div b"
  by (cases "a = 0") (simp_all add: quot_def)

section \<open>Run-time panics as \<open>None\<close>\<close>

lemma bind_SomeI: "x = Some y \<Longrightarrow> f y = z \<Longrightarrow> x \<bind> f = z"
  by simp

lemma bind_SomeE:
  assumes "x \<bind> f = Some z"
  obtains y where "x = Some y" and "f y = Some z"
  using assms by (cases x) auto

section \<open>Slices\<close>

definition slice_at :: "'a list \<Rightarrow> int \<Rightarrow> 'a option" where
  "slice_at xs i = (if 0 \<le> i \<and> i < int (length xs) then Some (xs ! nat i) else None)"

definition slice_put :: "'a list \<Rightarrow> int \<Rightarrow> 'a \<Rightarrow> 'a list option" where
  "slice_put xs i v =
     (if 0 \<le> i \<and> i < int (length xs) then Some (xs[nat i := v]) else None)"

text \<open>
  \<open>el\<close> reads inside the bounds and \<open>swapi\<close> exchanges two elements inside the bounds;
  both are indexed by \<open>int\<close> as the source is.
\<close>

definition el :: "'a list \<Rightarrow> int \<Rightarrow> 'a" where
  "el xs i = xs ! nat i"

definition swapi :: "'a list \<Rightarrow> int \<Rightarrow> int \<Rightarrow> 'a list" where
  "swapi xs i j = xs[nat i := xs ! nat j, nat j := xs ! nat i]"

definition in_range :: "'a list \<Rightarrow> int \<Rightarrow> bool" where
  "in_range xs i \<longleftrightarrow> 0 \<le> i \<and> i < int (length xs)"

lemma slice_at_Some [slice_simps]: "in_range xs i \<Longrightarrow> slice_at xs i = Some (el xs i)"
  by (simp add: slice_at_def in_range_def el_def)

lemma slice_at_None [slice_simps]: "\<not> in_range xs i \<Longrightarrow> slice_at xs i = None"
  by (auto simp: slice_at_def in_range_def)

lemma slice_put_Some [slice_simps]: "in_range xs i \<Longrightarrow> slice_put xs i v = Some (xs[nat i := v])"
  by (simp add: slice_put_def in_range_def)

lemma slice_put_None [slice_simps]: "\<not> in_range xs i \<Longrightarrow> slice_put xs i v = None"
  by (auto simp: slice_put_def in_range_def)

lemma length_swapi [simp]: "length (swapi xs i j) = length xs"
  by (simp add: swapi_def)

lemma in_range_swapi [simp]: "in_range (swapi xs i j) k = in_range xs k"
  by (simp add: in_range_def)

lemma mset_swapi [simp]: "in_range xs i \<Longrightarrow> in_range xs j \<Longrightarrow> mset (swapi xs i j) = mset xs"
  by (simp add: swapi_def in_range_def nat_less_iff mset_swap)

lemma el_swapi:
  "in_range xs i \<Longrightarrow> in_range xs j \<Longrightarrow> 0 \<le> k \<Longrightarrow>
   el (swapi xs i j) k = (if k = i then el xs j else if k = j then el xs i else el xs k)"
  by (auto simp: el_def swapi_def in_range_def nth_list_update eq_nat_nat_iff nat_less_iff)

section \<open>Rearrangements by exchange\<close>

text \<open>
  \<open>swaps a b xs ys\<close>: the list \<open>ys\<close> comes from \<open>xs\<close> by exchanging elements whose
  indices lie in \<open>[a, b)\<close>. Every in-place algorithm of the development that moves
  elements with \<open>Swap\<close> only is described by it: it gives the permutation, the frame
  (nothing outside the range changes) and that the range keeps its set of values.
\<close>

inductive swaps :: "int \<Rightarrow> int \<Rightarrow> 'a list \<Rightarrow> 'a list \<Rightarrow> bool" for a b where
  swaps_refl [intro!, simp]: "swaps a b xs xs"
| swaps_step: "swaps a b xs ys \<Longrightarrow> a \<le> i \<Longrightarrow> i < b \<Longrightarrow> a \<le> j \<Longrightarrow> j < b \<Longrightarrow>
     in_range ys i \<Longrightarrow> in_range ys j \<Longrightarrow> swaps a b xs (swapi ys i j)"

lemma swaps_one:
  "a \<le> i \<Longrightarrow> i < b \<Longrightarrow> a \<le> j \<Longrightarrow> j < b \<Longrightarrow> in_range xs i \<Longrightarrow> in_range xs j \<Longrightarrow>
   swaps a b xs (swapi xs i j)"
  by (rule swaps_step [OF swaps_refl])

lemma swaps_trans [trans]: "swaps a b ys zs \<Longrightarrow> swaps a b xs ys \<Longrightarrow> swaps a b xs zs"
  by (induction rule: swaps.induct) (auto intro: swaps_step)

lemma swaps_mono: "swaps a b xs ys \<Longrightarrow> a' \<le> a \<Longrightarrow> b \<le> b' \<Longrightarrow> swaps a' b' xs ys"
  by (induction rule: swaps.induct) (auto intro: swaps_step)

lemma swaps_mset: "swaps a b xs ys \<Longrightarrow> mset ys = mset xs"
  by (induction rule: swaps.induct) auto

lemma swaps_length: "swaps a b xs ys \<Longrightarrow> length ys = length xs"
  by (induction rule: swaps.induct) auto

lemma swaps_in_range: "swaps a b xs ys \<Longrightarrow> in_range ys k = in_range xs k"
  by (simp add: in_range_def swaps_length)

lemma swaps_outside: "swaps a b xs ys \<Longrightarrow> 0 \<le> k \<Longrightarrow> k < a \<or> b \<le> k \<Longrightarrow> el ys k = el xs k"
  by (induction rule: swaps.induct) (auto simp: el_swapi)

lemma swaps_inside:
  "swaps a b xs ys \<Longrightarrow> 0 \<le> a \<Longrightarrow> \<forall>k. a \<le> k \<and> k < b \<longrightarrow> P (el xs k) \<Longrightarrow>
   a \<le> k \<Longrightarrow> k < b \<Longrightarrow> P (el ys k)"
  by (induction arbitrary: k rule: swaps.induct) (auto simp: el_swapi)

end
