(* ===== verification/Sort.thy ===== *)
theory Sort
  imports Go_Prelude
begin

text \<open>
  Package \<open>sort\<close> (src/go/src/pkg/sort/sort.go): the \<open>Interface\<close> a collection
  implements, insertion sort, the Bentley-McIlroy quicksort with its ninther pivot, and the
  three slice types the package ships.

  The interface is a record of functions over the collection's state, as the Go method
  table is. The contract a client relies on is the locale \<open>sort_contract\<close>; the
  correctness of \<open>quickSort\<close> is proved there once and interpreted on
  \<open>IntSlice\<close>, \<open>Float64Slice\<close> and \<open>StringSlice\<close>.
\<close>

section \<open>The model\<close>

record 'd Interface =
  Len :: "'d \<Rightarrow> int"
  Less :: "'d \<Rightarrow> int \<Rightarrow> int \<Rightarrow> bool option"
  Swap :: "'d \<Rightarrow> int \<Rightarrow> int \<Rightarrow> 'd option"

definition sort_min :: "int \<Rightarrow> int \<Rightarrow> int" where
  "sort_min a b = (if a < b then a else b)"

text \<open>The inner loop of \<open>insertionSort\<close> carries \<open>data[j]\<close> down to its place.\<close>

function insertDown :: "('d, 'z) Interface_scheme \<Rightarrow> 'd \<Rightarrow> int \<Rightarrow> int \<Rightarrow> 'd option" where
  "insertDown I data a j =
     (if j > a then do {
        l \<leftarrow> Less I data j (j - 1);
        if l then do { data' \<leftarrow> Swap I data j (j - 1); insertDown I data' a (j - 1) }
        else Some data }
      else Some data)"
  by pat_completeness auto
termination
  by (relation "measure (\<lambda>(I, data, a, j). nat (j - a))") auto

function insertLoop :: "('d, 'z) Interface_scheme \<Rightarrow> 'd \<Rightarrow> int \<Rightarrow> int \<Rightarrow> int \<Rightarrow> 'd option" where
  "insertLoop I data a b i =
     (if i < b then do { data' \<leftarrow> insertDown I data a i; insertLoop I data' a b (i + 1) }
      else Some data)"
  by pat_completeness auto
termination
  by (relation "measure (\<lambda>(I, data, a, b, i). nat (b - i))") auto

definition insertionSort :: "('d, 'z) Interface_scheme \<Rightarrow> 'd \<Rightarrow> int \<Rightarrow> int \<Rightarrow> 'd option" where
  "insertionSort I data a b = insertLoop I data a b (a + 1)"

definition swapIfLess :: "('d, 'z) Interface_scheme \<Rightarrow> 'd \<Rightarrow> int \<Rightarrow> int \<Rightarrow> 'd option" where
  "swapIfLess I data i j =
     do { l \<leftarrow> Less I data i j; if l then Swap I data i j else Some data }"

definition medianOfThree ::
  "('d, 'z) Interface_scheme \<Rightarrow> 'd \<Rightarrow> int \<Rightarrow> int \<Rightarrow> int \<Rightarrow> 'd option" where
  "medianOfThree I data a b c =
     (let m0 = b; m1 = a; m2 = c in do {
        data \<leftarrow> swapIfLess I data m1 m0;
        data \<leftarrow> swapIfLess I data m2 m1;
        swapIfLess I data m1 m0 })"

function swapRangeLoop ::
  "('d, 'z) Interface_scheme \<Rightarrow> 'd \<Rightarrow> int \<Rightarrow> int \<Rightarrow> int \<Rightarrow> int \<Rightarrow> 'd option" where
  "swapRangeLoop I data a b n i =
     (if i < n then do { data' \<leftarrow> Swap I data (a + i) (b + i); swapRangeLoop I data' a b n (i + 1) }
      else Some data)"
  by pat_completeness auto
termination
  by (relation "measure (\<lambda>(I, data, a, b, n, i). nat (n - i))") auto

definition swapRange ::
  "('d, 'z) Interface_scheme \<Rightarrow> 'd \<Rightarrow> int \<Rightarrow> int \<Rightarrow> int \<Rightarrow> 'd option" where
  "swapRange I data a b n = swapRangeLoop I data a b n 0"

text \<open>
  \<open>doPivot\<close>: the choice of the pivot, then the partitioning loop over the four fences
  \<open>a\<close>, \<open>b\<close>, \<open>c\<close>, \<open>d\<close>, then the two block moves that bring the elements
  equal to the pivot into the middle.
\<close>

definition choosePivot :: "('d, 'z) Interface_scheme \<Rightarrow> 'd \<Rightarrow> int \<Rightarrow> int \<Rightarrow> 'd option" where
  "choosePivot I data lo hi =
     (let m = lo + quot (hi - lo) 2 in do {
        data \<leftarrow>
          (if hi - lo > 40 then
             (let s = quot (hi - lo) 8 in do {
                data \<leftarrow> medianOfThree I data lo (lo + s) (lo + 2 * s);
                data \<leftarrow> medianOfThree I data m (m - s) (m + s);
                medianOfThree I data (hi - 1) (hi - 1 - s) (hi - 1 - 2 * s) })
           else Some data);
        medianOfThree I data lo m (hi - 1) })"

definition partitionStep ::
  "('d, 'z) Interface_scheme \<Rightarrow> int \<Rightarrow> 'd \<times> int \<times> int \<times> int \<times> int \<Rightarrow>
   ('d \<times> int \<times> int \<times> int \<times> int) option" where
  "partitionStep I pivot = (\<lambda>(data, a, b, c, d). do {
     bp \<leftarrow> Less I data b pivot;
     if bp then Some (data, a, b + 1, c, d)
     else do {
       pb \<leftarrow> Less I data pivot b;
       if \<not> pb then do {
         data' \<leftarrow> Swap I data a b;
         Some (data', a + 1, b + 1, c, d) }
       else do {
         pc \<leftarrow> Less I data pivot (c - 1);
         if pc then Some (data, a, b, c - 1, d)
         else do {
           cp \<leftarrow> Less I data (c - 1) pivot;
           if \<not> cp then do {
             data' \<leftarrow> Swap I data (c - 1) (d - 1);
             Some (data', a, b, c - 1, d - 1) }
           else do {
             data' \<leftarrow> Swap I data b (c - 1);
             Some (data', a, b + 1, c - 1, d) } } } } })"

lemma partitionStep_fences:
  assumes "partitionStep I pivot (data, a, b, c, d) = Some (data', a', b', c', d')" and "b < c"
  shows "a \<le> a' \<and> a' - a \<le> b' - b \<and> b \<le> b' \<and> b' \<le> c' \<and> c' \<le> c \<and> d - d' \<le> c - c' \<and> d' \<le> d
    \<and> c' - b' < c - b"
proof -
  have "Less I data pivot b = Some True \<Longrightarrow> Less I data pivot (c - 1) = Some False \<Longrightarrow> b + 1 \<le> c - 1"
    using assms(2) by (cases "c - 1 = b") auto
  with assms show ?thesis
    by (auto simp: partitionStep_def elim!: bind_SomeE split: if_splits)
qed

function partitionLoop ::
  "('d, 'z) Interface_scheme \<Rightarrow> int \<Rightarrow> 'd \<times> int \<times> int \<times> int \<times> int \<Rightarrow>
   ('d \<times> int \<times> int \<times> int \<times> int) option" where
  "partitionLoop I pivot (data, a, b, c, d) =
     (if b < c then partitionStep I pivot (data, a, b, c, d) \<bind> partitionLoop I pivot
      else Some (data, a, b, c, d))"
  by pat_completeness auto
termination
  by (relation "measure (\<lambda>(I, pivot, (data, a, b, c, d)). nat (c - b))")
    (auto dest: partitionStep_fences)

definition doPivot ::
  "('d, 'z) Interface_scheme \<Rightarrow> 'd \<Rightarrow> int \<Rightarrow> int \<Rightarrow> ('d \<times> int \<times> int) option" where
  "doPivot I data lo hi = do {
     data \<leftarrow> choosePivot I data lo hi;
     (data, a, b, c, d) \<leftarrow> partitionLoop I lo (data, lo + 1, lo + 1, hi, hi);
     data \<leftarrow> (let n = sort_min (b - a) (a - lo) in swapRange I data lo (b - n) n);
     data \<leftarrow> (let n = sort_min (hi - d) (d - c) in swapRange I data c (hi - n) n);
     Some (data, lo + b - a, hi - (d - c)) }"

declare insertDown.simps [simp del] insertLoop.simps [simp del]
  swapRangeLoop.simps [simp del] partitionLoop.simps [simp del]

text \<open>
  The fences never cross, whatever the comparison answers, so both parts \<open>quickSort\<close>
  recurses on are strictly shorter: the recursion ends for every interface.
\<close>

lemma partitionLoop_fences:
  "partitionLoop I pivot (data, a, b, c, d) = Some (data', a', b', c', d') \<Longrightarrow>
   a \<le> b \<Longrightarrow> b \<le> c \<Longrightarrow> c \<le> d \<Longrightarrow>
   a \<le> a' \<and> a' \<le> b' \<and> b \<le> b' \<and> b' = c' \<and> c' \<le> d' \<and> d' \<le> d"
proof (induction I pivot "(data, a, b, c, d)" arbitrary: data a b c d rule: partitionLoop.induct)
  case (1 I pivot data a b c d)
  show ?case
  proof (cases "b < c")
    case False
    with "1.prems" show ?thesis by (simp add: partitionLoop.simps)
  next
    case True
    with "1.prems"(1) obtain data1 a1 b1 c1 d1
      where st: "partitionStep I pivot (data, a, b, c, d) = Some (data1, a1, b1, c1, d1)"
        and rest: "partitionLoop I pivot (data1, a1, b1, c1, d1) = Some (data', a', b', c', d')"
      by (auto simp: partitionLoop.simps elim!: bind_SomeE)
    note f = partitionStep_fences [OF st True]
    with "1.hyps"[OF True st rest] "1.prems"(2-) show ?thesis by auto
  qed
qed

lemma doPivot_parts:
  assumes "doPivot I data lo hi = Some (data', mlo, mhi)" and "lo < hi"
  shows "lo \<le> mlo \<and> mlo < mhi \<and> mhi \<le> hi \<and> mlo < hi \<and> lo < mhi"
  using assms
  by (auto simp: doPivot_def Let_def elim!: bind_SomeE dest!: partitionLoop_fences split: prod.splits)

function quickSort :: "('d, 'z) Interface_scheme \<Rightarrow> 'd \<Rightarrow> int \<Rightarrow> int \<Rightarrow> 'd option" where
  "quickSort I data a b =
     (if b - a > 7 then do {
        (data', mlo, mhi) \<leftarrow> doPivot I data a b;
        if mlo - a < b - mhi then do {
          data'' \<leftarrow> quickSort I data' a mlo;
          quickSort I data'' mhi b }
        else do {
          data'' \<leftarrow> quickSort I data' mhi b;
          quickSort I data'' a mlo } }
      else if b - a > 1 then insertionSort I data a b
      else Some data)"
  by pat_completeness auto
termination
proof (relation "measure (\<lambda>(I, data, a, b). nat (b - a))")
qed (auto dest: doPivot_parts)

declare quickSort.simps [simp del]

definition Sort :: "('d, 'z) Interface_scheme \<Rightarrow> 'd \<Rightarrow> 'd option" where
  "Sort I data = quickSort I data 0 (Len I data)"

function isSortedLoop :: "('d, 'z) Interface_scheme \<Rightarrow> 'd \<Rightarrow> int \<Rightarrow> bool option" where
  "isSortedLoop I data i =
     (if i > 0 then do {
        l \<leftarrow> Less I data i (i - 1);
        if l then Some False else isSortedLoop I data (i - 1) }
      else Some True)"
  by pat_completeness auto
termination
  by (relation "measure (\<lambda>(I, data, i). nat i)") auto

declare isSortedLoop.simps [simp del]

definition IsSorted :: "('d, 'z) Interface_scheme \<Rightarrow> 'd \<Rightarrow> bool option" where
  "IsSorted I data = isSortedLoop I data (Len I data - 1)"

section \<open>The contract of a collection\<close>

text \<open>
  What the package relies on: the comparison is a strict weak order on the elements, and
  the three methods behave as their documentation in \<open>sort.Interface\<close> says.
\<close>

locale weak_order =
  fixes lt :: "'a \<Rightarrow> 'a \<Rightarrow> bool"
  assumes irrefl: "\<not> lt x x"
    and trans: "lt x y \<Longrightarrow> lt y z \<Longrightarrow> lt x z"
    and negtrans: "lt x z \<Longrightarrow> lt x y \<or> lt y z"
begin

definition le :: "'a \<Rightarrow> 'a \<Rightarrow> bool" where
  "le x y \<longleftrightarrow> \<not> lt y x"

definition eqv :: "'a \<Rightarrow> 'a \<Rightarrow> bool" where
  "eqv x y \<longleftrightarrow> \<not> lt x y \<and> \<not> lt y x"

lemma le_trans: "le x y \<Longrightarrow> le y z \<Longrightarrow> le x z"
  unfolding le_def using negtrans by blast

lemma lt_le: "lt x y \<Longrightarrow> le x y"
  unfolding le_def using irrefl trans by blast

lemma eqv_le: "eqv x y \<Longrightarrow> le x y \<and> le y x"
  by (simp add: eqv_def le_def)

lemma le_refl: "le x x"
  by (simp add: le_def irrefl)

lemma not_lt_le: "\<not> lt x y \<Longrightarrow> le y x"
  by (simp add: le_def)

definition sorted_on :: "int \<Rightarrow> int \<Rightarrow> 'a list \<Rightarrow> bool" where
  "sorted_on a b xs \<longleftrightarrow> (\<forall>i j. a \<le> i \<and> i < j \<and> j < b \<longrightarrow> le (el xs i) (el xs j))"

lemma sorted_on_short: "b \<le> a + 1 \<Longrightarrow> sorted_on a b xs"
  by (auto simp: sorted_on_def)

end

locale sort_contract = weak_order lt
  for lt :: "'a \<Rightarrow> 'a \<Rightarrow> bool" +
  fixes I :: "('d, 'z) Interface_scheme"
    and elems :: "'d \<Rightarrow> 'a list"
  assumes Len_elems: "Len I d = int (length (elems d))"
    and Less_elems: "in_range (elems d) i \<Longrightarrow> in_range (elems d) j \<Longrightarrow>
          Less I d i j = Some (lt (el (elems d) i) (el (elems d) j))"
    and Swap_elems: "in_range (elems d) i \<Longrightarrow> in_range (elems d) j \<Longrightarrow>
          \<exists>d'. Swap I d i j = Some d' \<and> elems d' = swapi (elems d) i j"
begin

lemma in_rangeI: "0 \<le> a \<Longrightarrow> a \<le> k \<Longrightarrow> k < b \<Longrightarrow> b \<le> int (length xs) \<Longrightarrow> in_range xs k"
  by (simp add: in_range_def)

lemma insertDown_spec:
  assumes "0 \<le> a" "a \<le> j" "j \<le> i" "i < int (length (elems d))"
    and "\<And>p q. a \<le> p \<Longrightarrow> p < q \<Longrightarrow> q \<le> i \<Longrightarrow> p \<noteq> j \<Longrightarrow> q \<noteq> j \<Longrightarrow> le (el (elems d) p) (el (elems d) q)"
    and "\<And>q. j < q \<Longrightarrow> q \<le> i \<Longrightarrow> le (el (elems d) j) (el (elems d) q)"
  shows "\<exists>d'. insertDown I d a j = Some d' \<and> swaps a (i + 1) (elems d) (elems d')
     \<and> sorted_on a (i + 1) (elems d')"
  using assms
proof (induction "nat (j - a)" arbitrary: d j rule: less_induct)
  case less
  let ?E = "el (elems d)"
  note unf = insertDown.simps [of I d a j]
  show ?case
  proof (cases "j > a")
    case False
    with less.prems(2) have "j = a" by simp
    with less.prems(5,6) have "sorted_on a (i + 1) (elems d)"
      by (auto simp: sorted_on_def)
    with False show ?thesis by (auto simp: unf)
  next
    case True
    with less.prems have r: "in_range (elems d) j" "in_range (elems d) (j - 1)"
      by (auto simp: in_range_def)
    show ?thesis
    proof (cases "lt (?E j) (?E (j - 1))")
      case False
      then have adj: "le (?E (j - 1)) (?E j)" by (rule not_lt_le)
      have below: "le (?E p) (?E j)" if p: "a \<le> p" "p < j" for p
      proof (cases "p = j - 1")
        case False
        with p less.prems(3) have "le (?E p) (?E (j - 1))"
          by (intro less.prems(5)) auto
        then show ?thesis using adj by (rule le_trans)
      qed (use adj in simp)
      have "sorted_on a (i + 1) (elems d)"
        unfolding sorted_on_def
      proof (intro allI impI)
        fix p q
        assume "a \<le> p \<and> p < q \<and> q < i + 1"
        then show "le (?E p) (?E q)"
          using below [of p] less.prems(5) [of p q] less.prems(6) [of q]
          by (cases "p = j"; cases "q = j") auto
      qed
      with False True r show ?thesis by (auto simp: unf Less_elems)
    next
      case lt: True
      obtain d1 where d1: "Swap I d j (j - 1) = Some d1" "elems d1 = swapi (elems d) j (j - 1)"
        using Swap_elems r by blast
      let ?F = "el (elems d1)"
      have F: "?F k = (if k = j then ?E (j - 1) else if k = j - 1 then ?E j else ?E k)"
        if "0 \<le> k" for k
        using that r by (simp add: d1 el_swapi)
      have "\<exists>d'. insertDown I d1 a (j - 1) = Some d' \<and> swaps a (i + 1) (elems d1) (elems d')
          \<and> sorted_on a (i + 1) (elems d')"
      proof (rule less.hyps)
        show "nat (j - 1 - a) < nat (j - a)" using True by simp
        show "le (?F p) (?F q)"
          if "a \<le> p" "p < q" "q \<le> i" "p \<noteq> j - 1" "q \<noteq> j - 1" for p q
          using that less.prems(1) less.prems(5) [of p q] less.prems(5) [of p "j - 1"]
            less.prems(5) [of "j - 1" q] True
          by (auto simp: F)
        show "le (?F (j - 1)) (?F q)" if "j - 1 < q" "q \<le> i" for q
          using that less.prems(1) less.prems(6) [of q] True lt_le [OF lt]
          by (auto simp: F)
      qed (use less.prems True in \<open>auto simp: d1\<close>)
      then obtain d' where d': "insertDown I d1 a (j - 1) = Some d'"
          "swaps a (i + 1) (elems d1) (elems d')" "sorted_on a (i + 1) (elems d')"
        by blast
      have "swaps a (i + 1) (elems d) (elems d1)"
        unfolding d1 using less.prems True r by (intro swaps_one) auto
      with d' lt True r d1(1) show ?thesis
        by (auto simp: unf Less_elems intro: swaps_trans)
    qed
  qed
qed

lemma insertLoop_spec:
  assumes "0 \<le> a" "a < i" "i \<le> b" "b \<le> int (length (elems d))" "sorted_on a i (elems d)"
  shows "\<exists>d'. insertLoop I d a b i = Some d' \<and> swaps a b (elems d) (elems d')
     \<and> sorted_on a b (elems d')"
  using assms
proof (induction "nat (b - i)" arbitrary: d i rule: less_induct)
  case less
  note unf = insertLoop.simps [of I d a b i]
  show ?case
  proof (cases "i < b")
    case False
    with less.prems show ?thesis by (subst unf) auto
  next
    case True
    have "\<exists>d'. insertDown I d a i = Some d' \<and> swaps a (i + 1) (elems d) (elems d')
        \<and> sorted_on a (i + 1) (elems d')"
      using less.prems True by (intro insertDown_spec) (auto simp: sorted_on_def)
    then obtain d1 where d1: "insertDown I d a i = Some d1" "swaps a (i + 1) (elems d) (elems d1)"
        "sorted_on a (i + 1) (elems d1)"
      by blast
    with less.prems True have "\<exists>d'. insertLoop I d1 a b (i + 1) = Some d'
        \<and> swaps a b (elems d1) (elems d') \<and> sorted_on a b (elems d')"
      by (intro less.hyps) (auto simp: swaps_length)
    moreover have "swaps a b (elems d) (elems d1)"
      using d1(2) True by (auto intro: swaps_mono)
    ultimately show ?thesis
      using True d1(1) by (auto simp: unf intro: swaps_trans)
  qed
qed

lemma insertionSort_spec:
  assumes "0 \<le> a" "a \<le> b" "b \<le> int (length (elems d))"
  shows "\<exists>d'. insertionSort I d a b = Some d' \<and> swaps a b (elems d) (elems d')
     \<and> sorted_on a b (elems d')"
proof (cases "a < b")
  case True
  with assms show ?thesis
    unfolding insertionSort_def by (intro insertLoop_spec) (auto intro: sorted_on_short)
next
  case False
  with assms show ?thesis
    unfolding insertionSort_def
    by (subst insertLoop.simps) (auto intro: sorted_on_short)
qed

lemma swapIfLess_spec:
  assumes "0 \<le> lo" "hi \<le> int (length (elems d))" "lo \<le> i" "i < hi" "lo \<le> j" "j < hi"
  shows "\<exists>d'. swapIfLess I d i j = Some d' \<and> swaps lo hi (elems d) (elems d')"
proof -
  from assms have r: "in_range (elems d) i" "in_range (elems d) j"
    by (auto simp: in_range_def)
  then obtain d' where "Swap I d i j = Some d'" "elems d' = swapi (elems d) i j"
    using Swap_elems by blast
  with r assms swaps_one [of lo i hi j "elems d"] show ?thesis
    by (cases "lt (el (elems d) i) (el (elems d) j)") (auto simp: swapIfLess_def Less_elems)
qed

lemma medianOfThree_spec:
  assumes "0 \<le> lo" "hi \<le> int (length (elems d))"
    and "lo \<le> a" "a < hi" "lo \<le> b" "b < hi" "lo \<le> c" "c < hi"
  shows "\<exists>d'. medianOfThree I d a b c = Some d' \<and> swaps lo hi (elems d) (elems d')"
proof -
  obtain d1 where d1: "swapIfLess I d a b = Some d1" "swaps lo hi (elems d) (elems d1)"
    using swapIfLess_spec assms by meson
  with assms have "\<exists>d'. swapIfLess I d1 c a = Some d' \<and> swaps lo hi (elems d1) (elems d')"
    by (intro swapIfLess_spec) (auto simp: swaps_length)
  then obtain d2 where d2: "swapIfLess I d1 c a = Some d2" "swaps lo hi (elems d1) (elems d2)"
    by blast
  with d1 assms have "\<exists>d'. swapIfLess I d2 a b = Some d' \<and> swaps lo hi (elems d2) (elems d')"
    by (intro swapIfLess_spec) (auto simp: swaps_length)
  then obtain d3 where d3: "swapIfLess I d2 a b = Some d3" "swaps lo hi (elems d2) (elems d3)"
    by blast
  have "swaps lo hi (elems d) (elems d3)"
    by (rule swaps_trans [OF d3(2) swaps_trans [OF d2(2) d1(2)]])
  with d1(1) d2(1) d3(1) show ?thesis
    by (simp add: medianOfThree_def)
qed

lemma swapRangeLoop_spec:
  assumes "0 \<le> lo" "hi \<le> int (length (elems d))" "lo \<le> x" "x + n \<le> y" "y + n \<le> hi"
    and "0 \<le> i" "i \<le> n"
  shows "\<exists>d'. swapRangeLoop I d x y n i = Some d' \<and> swaps lo hi (elems d) (elems d') \<and>
    (\<forall>k\<ge>0. el (elems d') k =
       (if x + i \<le> k \<and> k < x + n then el (elems d) (y + (k - x))
        else if y + i \<le> k \<and> k < y + n then el (elems d) (x + (k - y))
        else el (elems d) k))"
  using assms
proof (induction "nat (n - i)" arbitrary: d i rule: less_induct)
  case less
  note unf = swapRangeLoop.simps [of I d x y n i]
  show ?case
  proof (cases "i < n")
    case False
    with less.prems show ?thesis by (subst unf) auto
  next
    case True
    with less.prems have r: "in_range (elems d) (x + i)" "in_range (elems d) (y + i)"
      by (auto simp: in_range_def)
    then obtain d1 where d1: "Swap I d (x + i) (y + i) = Some d1"
        "elems d1 = swapi (elems d) (x + i) (y + i)"
      using Swap_elems by blast
    from less.prems True have "\<exists>d'. swapRangeLoop I d1 x y n (i + 1) = Some d' \<and>
      swaps lo hi (elems d1) (elems d') \<and>
      (\<forall>k\<ge>0. el (elems d') k =
         (if x + (i + 1) \<le> k \<and> k < x + n then el (elems d1) (y + (k - x))
          else if y + (i + 1) \<le> k \<and> k < y + n then el (elems d1) (x + (k - y))
          else el (elems d1) k))"
      by (intro less.hyps) (auto simp: d1)
    then obtain d' where d': "swapRangeLoop I d1 x y n (i + 1) = Some d'"
        "swaps lo hi (elems d1) (elems d')"
        "\<And>k. 0 \<le> k \<Longrightarrow> el (elems d') k =
         (if x + (i + 1) \<le> k \<and> k < x + n then el (elems d1) (y + (k - x))
          else if y + (i + 1) \<le> k \<and> k < y + n then el (elems d1) (x + (k - y))
          else el (elems d1) k)"
      by blast
    have "swaps lo hi (elems d) (elems d1)"
      unfolding d1 using less.prems True r by (intro swaps_one) auto
    moreover have "el (elems d') k =
       (if x + i \<le> k \<and> k < x + n then el (elems d) (y + (k - x))
        else if y + i \<le> k \<and> k < y + n then el (elems d) (x + (k - y))
        else el (elems d) k)" if "0 \<le> k" for k
      using that less.prems True r
      by (cases "k = x + i"; cases "k = y + i") (auto simp: d'(3) d1(2) el_swapi)
    ultimately show ?thesis
      using True d1(1) d'(1,2) by (subst unf) (auto intro: swaps_trans)
  qed
qed

text \<open>
  Exchanging the shorter of two adjacent blocks with the far end of the other one moves
  the second block in front of the first, up to the order inside the blocks.
\<close>

lemma swapRange_blocks:
  assumes "0 \<le> lo" "hi \<le> int (length (elems data))" "lo \<le> x" "x \<le> m" "m \<le> y" "y \<le> hi"
    and n: "n = sort_min (y - m) (m - x)"
    and P: "\<And>k. x \<le> k \<Longrightarrow> k < m \<Longrightarrow> P (el (elems data) k)"
    and Q: "\<And>k. m \<le> k \<Longrightarrow> k < y \<Longrightarrow> Q (el (elems data) k)"
  shows "\<exists>data'. swapRange I data x (y - n) n = Some data' \<and> swaps lo hi (elems data) (elems data')
    \<and> (\<forall>k. x \<le> k \<and> k < x + (y - m) \<longrightarrow> Q (el (elems data') k))
    \<and> (\<forall>k. x + (y - m) \<le> k \<and> k < y \<longrightarrow> P (el (elems data') k))
    \<and> (\<forall>k. 0 \<le> k \<and> (k < x \<or> y \<le> k) \<longrightarrow> el (elems data') k = el (elems data) k)"
proof -
  from assms(4,5) n have n': "0 \<le> n" "n \<le> y - m" "n \<le> m - x" "n = y - m \<or> n = m - x"
    by (auto simp: sort_min_def)
  obtain d' where d': "swapRange I data x (y - n) n = Some d'" "swaps lo hi (elems data) (elems d')"
      "\<And>k. 0 \<le> k \<Longrightarrow> el (elems d') k =
         (if x + 0 \<le> k \<and> k < x + n then el (elems data) (y - n + (k - x))
          else if y - n + 0 \<le> k \<and> k < y - n + n then el (elems data) (x + (k - (y - n)))
          else el (elems data) k)"
    using swapRangeLoop_spec [of lo hi data x n "y - n" 0] assms(1-6) n'
    by (auto simp: swapRange_def)
  show ?thesis
  proof (intro exI conjI allI impI)
    show "Q (el (elems d') k)" if "x \<le> k \<and> k < x + (y - m)" for k
      using that assms(1-6) n' Q by (auto simp: d'(3))
    show "P (el (elems d') k)" if "x + (y - m) \<le> k \<and> k < y" for k
      using that assms(1-6) n' P by (auto simp: d'(3))
    show "el (elems d') k = el (elems data) k" if "0 \<le> k \<and> (k < x \<or> y \<le> k)" for k
      using that assms(1-6) n' by (auto simp: d'(3))
  qed (use d' in auto)
qed

text \<open>The comment in \<open>doPivot\<close>: what lies between the fences.\<close>

definition fenced :: "int \<Rightarrow> int \<Rightarrow> 'a \<Rightarrow> 'a list \<Rightarrow> int \<Rightarrow> int \<Rightarrow> int \<Rightarrow> int \<Rightarrow> bool" where
  "fenced lo hi v xs a b c d \<longleftrightarrow>
     lo < a \<and> a \<le> b \<and> b \<le> c \<and> c \<le> d \<and> d \<le> hi \<and> el xs lo = v \<and>
     (\<forall>k. lo \<le> k \<and> k < a \<longrightarrow> eqv (el xs k) v) \<and>
     (\<forall>k. a \<le> k \<and> k < b \<longrightarrow> lt (el xs k) v) \<and>
     (\<forall>k. c \<le> k \<and> k < d \<longrightarrow> lt v (el xs k)) \<and>
     (\<forall>k. d \<le> k \<and> k < hi \<longrightarrow> eqv (el xs k) v)"

lemma partitionStep_spec:
  assumes f: "fenced lo hi v (elems data) a b c d" and lo: "0 \<le> lo"
    and hi: "hi \<le> int (length (elems data))" and bc: "b < c"
  shows "\<exists>data' a' b' c' d'. partitionStep I lo (data, a, b, c, d) = Some (data', a', b', c', d')
     \<and> fenced lo hi v (elems data') a' b' c' d' \<and> swaps lo hi (elems data) (elems data')"
proof -
  let ?E = "el (elems data)"
  from f bc lo hi have r: "in_range (elems data) lo" "in_range (elems data) b"
      "in_range (elems data) a" "in_range (elems data) (c - 1)" "in_range (elems data) (d - 1)"
    by (auto simp: fenced_def in_range_def)
  from f have v: "?E lo = v" by (simp add: fenced_def)
  note S = Swap_elems [of data]
  consider (lt) "lt (?E b) v" | (eq) "eqv (?E b) v"
    | (gt) "lt v (?E b)" "\<not> lt (?E b) v" "lt v (?E (c - 1))"
    | (eq2) "lt v (?E b)" "\<not> lt (?E b) v" "eqv (?E (c - 1)) v"
    | (sw) "lt v (?E b)" "\<not> lt (?E b) v" "lt (?E (c - 1)) v" "\<not> lt v (?E (c - 1))"
    by (auto simp: eqv_def)
  then show ?thesis
  proof cases
    case lt
    have "lt (?E k) v" if "a \<le> k" "k < b + 1" for k
      using f lt that by (cases "k = b") (auto simp: fenced_def)
    then have "fenced lo hi v (elems data) a (b + 1) c d"
      using f bc by (simp add: fenced_def)
    with lt show ?thesis using r v by (simp add: partitionStep_def Less_elems)
  next
    case eq
    obtain d1 where d1: "Swap I data a b = Some d1" "elems d1 = swapi (elems data) a b"
      using S r by blast
    have "fenced lo hi v (elems d1) (a + 1) (b + 1) c d"
      using f bc eq lo r by (auto simp: fenced_def d1 el_swapi zless_add1_eq)
    moreover have "swaps lo hi (elems data) (elems d1)"
      unfolding d1 using f bc r by (intro swaps_one) (auto simp: fenced_def)
    ultimately show ?thesis using r v d1(1) eq by (simp add: partitionStep_def Less_elems eqv_def)
  next
    case gt
    have "lt v (?E k)" if "c - 1 \<le> k" "k < d" for k
      using f gt that by (cases "k = c - 1") (auto simp: fenced_def)
    then have "fenced lo hi v (elems data) a b (c - 1) d"
      using f bc by (simp add: fenced_def)
    with gt show ?thesis using r v by (simp add: partitionStep_def Less_elems)
  next
    case eq2
    obtain d1 where d1: "Swap I data (c - 1) (d - 1) = Some d1"
        "elems d1 = swapi (elems data) (c - 1) (d - 1)"
      using S r by blast
    have "fenced lo hi v (elems d1) a b (c - 1) (d - 1)"
      using f bc eq2 lo r by (auto simp: fenced_def d1 el_swapi)
    moreover have "swaps lo hi (elems data) (elems d1)"
      unfolding d1 using f bc r by (intro swaps_one) (auto simp: fenced_def)
    ultimately show ?thesis using r v d1(1) eq2 by (simp add: partitionStep_def Less_elems eqv_def)
  next
    case sw
    obtain d1 where d1: "Swap I data b (c - 1) = Some d1"
        "elems d1 = swapi (elems data) b (c - 1)"
      using S r by blast
    have "b \<noteq> c - 1" using sw by auto
    then have "fenced lo hi v (elems d1) a (b + 1) (c - 1) d"
      using f bc sw lo r by (auto simp: fenced_def d1 el_swapi zless_add1_eq)
    moreover have "swaps lo hi (elems data) (elems d1)"
      unfolding d1 using f bc r by (intro swaps_one) (auto simp: fenced_def)
    ultimately show ?thesis using r v d1(1) sw by (simp add: partitionStep_def Less_elems)
  qed
qed

lemma partitionLoop_spec:
  assumes "fenced lo hi v (elems data) a b c d" "0 \<le> lo" "hi \<le> int (length (elems data))"
  shows "\<exists>data' a' b' d'. partitionLoop I lo (data, a, b, c, d) = Some (data', a', b', b', d')
     \<and> fenced lo hi v (elems data') a' b' b' d' \<and> swaps lo hi (elems data) (elems data')"
  using assms
proof (induction "nat (c - b)" arbitrary: data a b c d rule: less_induct)
  case less
  show ?case
  proof (cases "b < c")
    case False
    with less.prems(1) have "c = b" by (auto simp: fenced_def)
    with less.prems(1) show ?thesis by (auto simp: partitionLoop.simps)
  next
    case True
    obtain data1 a1 b1 c1 d1
      where st: "partitionStep I lo (data, a, b, c, d) = Some (data1, a1, b1, c1, d1)"
        and f: "fenced lo hi v (elems data1) a1 b1 c1 d1"
        and sw: "swaps lo hi (elems data) (elems data1)"
      using partitionStep_spec [OF less.prems True] by blast
    from partitionStep_fences [OF st True] have "nat (c1 - b1) < nat (c - b)" by auto
    from less.hyps [OF this f less.prems(2)] less.prems(3) sw
    obtain data' a' b' d' where "partitionLoop I lo (data1, a1, b1, c1, d1) = Some (data', a', b', b', d')"
        "fenced lo hi v (elems data') a' b' b' d'" "swaps lo hi (elems data1) (elems data')"
      by (auto simp: swaps_length)
    with st sw True show ?thesis by (auto simp: partitionLoop.simps intro: swaps_trans)
  qed
qed

text \<open>\<open>doPivot\<close> leaves the smaller elements, those equal to the pivot and the larger ones.\<close>

definition parted :: "int \<Rightarrow> int \<Rightarrow> 'a \<Rightarrow> 'a list \<Rightarrow> int \<Rightarrow> int \<Rightarrow> bool" where
  "parted lo hi v xs mlo mhi \<longleftrightarrow>
     (\<forall>k. lo \<le> k \<and> k < mlo \<longrightarrow> lt (el xs k) v) \<and>
     (\<forall>k. mlo \<le> k \<and> k < mhi \<longrightarrow> eqv (el xs k) v) \<and>
     (\<forall>k. mhi \<le> k \<and> k < hi \<longrightarrow> lt v (el xs k))"

lemma blockMoves_spec:
  assumes f: "fenced lo hi v (elems data) a b b d" and lo: "0 \<le> lo"
    and hi: "hi \<le> int (length (elems data))"
  shows "\<exists>data1 data'. swapRange I data lo (b - sort_min (b - a) (a - lo)) (sort_min (b - a) (a - lo)) = Some data1
     \<and> swapRange I data1 b (hi - sort_min (hi - d) (d - b)) (sort_min (hi - d) (d - b)) = Some data'
     \<and> swaps lo hi (elems data) (elems data')
     \<and> parted lo hi v (elems data') (lo + b - a) (hi - (d - b))"
proof -
  let ?n = "sort_min (b - a) (a - lo)" and ?m = "sort_min (hi - d) (d - b)"
  from f have ord: "lo < a" "a \<le> b" "b \<le> d" "d \<le> hi" by (auto simp: fenced_def)
  have "\<exists>data'. swapRange I data lo (b - ?n) ?n = Some data' \<and> swaps lo hi (elems data) (elems data')
    \<and> (\<forall>k. lo \<le> k \<and> k < lo + (b - a) \<longrightarrow> lt (el (elems data') k) v)
    \<and> (\<forall>k. lo + (b - a) \<le> k \<and> k < b \<longrightarrow> eqv (el (elems data') k) v)
    \<and> (\<forall>k. 0 \<le> k \<and> (k < lo \<or> b \<le> k) \<longrightarrow> el (elems data') k = el (elems data) k)"
    by (rule swapRange_blocks) (use f lo hi ord in \<open>auto simp: fenced_def\<close>)
  then obtain data1 where d1: "swapRange I data lo (b - ?n) ?n = Some data1"
      "swaps lo hi (elems data) (elems data1)"
      "\<And>k. lo \<le> k \<Longrightarrow> k < lo + (b - a) \<Longrightarrow> lt (el (elems data1) k) v"
      "\<And>k. lo + (b - a) \<le> k \<Longrightarrow> k < b \<Longrightarrow> eqv (el (elems data1) k) v"
      "\<And>k. b \<le> k \<Longrightarrow> el (elems data1) k = el (elems data) k"
    using lo ord by auto
  have "\<exists>data'. swapRange I data1 b (hi - ?m) ?m = Some data' \<and> swaps lo hi (elems data1) (elems data')
    \<and> (\<forall>k. b \<le> k \<and> k < b + (hi - d) \<longrightarrow> eqv (el (elems data') k) v)
    \<and> (\<forall>k. b + (hi - d) \<le> k \<and> k < hi \<longrightarrow> lt v (el (elems data') k))
    \<and> (\<forall>k. 0 \<le> k \<and> (k < b \<or> hi \<le> k) \<longrightarrow> el (elems data') k = el (elems data1) k)"
    by (rule swapRange_blocks)
      (use f lo hi ord swaps_length [OF d1(2)] in \<open>auto simp: fenced_def d1(5)\<close>)
  then obtain data' where d': "swapRange I data1 b (hi - ?m) ?m = Some data'"
      "swaps lo hi (elems data1) (elems data')"
      "\<And>k. b \<le> k \<Longrightarrow> k < b + (hi - d) \<Longrightarrow> eqv (el (elems data') k) v"
      "\<And>k. b + (hi - d) \<le> k \<Longrightarrow> k < hi \<Longrightarrow> lt v (el (elems data') k)"
      "\<And>k. 0 \<le> k \<Longrightarrow> k < b \<Longrightarrow> el (elems data') k = el (elems data1) k"
    by auto
  have "parted lo hi v (elems data') (lo + b - a) (hi - (d - b))"
    unfolding parted_def
  proof (intro conjI allI impI)
    show "lt (el (elems data') k) v" if "lo \<le> k \<and> k < lo + b - a" for k
      using that lo ord d1(3) by (auto simp: d'(5))
    show "eqv (el (elems data') k) v" if "lo + b - a \<le> k \<and> k < hi - (d - b)" for k
      using that lo ord d1(4) [of k] d'(3) [of k] by (cases "k < b") (auto simp: d'(5))
    show "lt v (el (elems data') k)" if "hi - (d - b) \<le> k \<and> k < hi" for k
      using that d'(4) by auto
  qed
  with d1 d' show ?thesis by (blast intro: swaps_trans)
qed

lemma ninther_spec:
  assumes "0 \<le> lo" "hi \<le> int (length (elems d))" "0 \<le> s" "lo + 2 * s < hi"
    and "lo \<le> m - s" "m + s < hi" "lo \<le> hi - 1 - 2 * s"
  shows "\<exists>d'. do {
          d \<leftarrow> medianOfThree I d lo (lo + s) (lo + 2 * s);
          d \<leftarrow> medianOfThree I d m (m - s) (m + s);
          medianOfThree I d (hi - 1) (hi - 1 - s) (hi - 1 - 2 * s) } = Some d'
    \<and> swaps lo hi (elems d) (elems d')"
proof -
  note M = medianOfThree_spec [OF assms(1)]
  obtain d1 where d1: "medianOfThree I d lo (lo + s) (lo + 2 * s) = Some d1"
      "swaps lo hi (elems d) (elems d1)"
    using M [of hi d lo "lo + s" "lo + 2 * s"] assms by auto
  obtain d2 where d2: "medianOfThree I d1 m (m - s) (m + s) = Some d2"
      "swaps lo hi (elems d1) (elems d2)"
    using M [of hi d1 m "m - s" "m + s"] assms swaps_length [OF d1(2)] by auto
  obtain d3 where d3: "medianOfThree I d2 (hi - 1) (hi - 1 - s) (hi - 1 - 2 * s) = Some d3"
      "swaps lo hi (elems d2) (elems d3)"
    using M [of hi d2 "hi - 1" "hi - 1 - s" "hi - 1 - 2 * s"] assms
      swaps_length [OF d1(2)] swaps_length [OF d2(2)] by auto
  from d1 d2 d3 show ?thesis by (auto intro: swaps_trans)
qed

lemma choosePivot_spec:
  assumes "0 \<le> lo" "hi \<le> int (length (elems d))" "lo < hi"
  shows "\<exists>d'. choosePivot I d lo hi = Some d' \<and> swaps lo hi (elems d) (elems d')"
proof -
  define m s where "m = lo + quot (hi - lo) 2" and "s = quot (hi - lo) 8"
  define pre where "pre = (if hi - lo > 40 then do {
          d \<leftarrow> medianOfThree I d lo (lo + s) (lo + 2 * s);
          d \<leftarrow> medianOfThree I d m (m - s) (m + s);
          medianOfThree I d (hi - 1) (hi - 1 - s) (hi - 1 - 2 * s) }
        else Some d)"
  from assms have m: "lo \<le> m" "m < hi" by (auto simp: m_def)
  have "\<exists>d1. pre = Some d1 \<and> swaps lo hi (elems d) (elems d1)"
  proof (cases "hi - lo > 40")
    case True
    then have "0 \<le> s" "lo + 2 * s < hi" "lo \<le> m - s" "m + s < hi" "lo \<le> hi - 1 - 2 * s"
      by (auto simp: m_def s_def)
    with assms True show ?thesis unfolding pre_def
      by (simp only: if_True) (rule ninther_spec)
  qed (auto simp: pre_def)
  then obtain d1 where d1: "pre = Some d1" "swaps lo hi (elems d) (elems d1)"
    by blast
  obtain d2 where "medianOfThree I d1 lo m (hi - 1) = Some d2" "swaps lo hi (elems d1) (elems d2)"
    using medianOfThree_spec [of lo hi d1 lo m "hi - 1"] assms m swaps_length [OF d1(2)] by auto
  moreover have "choosePivot I d lo hi = pre \<bind> (\<lambda>d. medianOfThree I d lo m (hi - 1))"
    by (simp only: choosePivot_def Let_def pre_def m_def s_def)
  ultimately show ?thesis
    using d1 by (auto intro: swaps_trans)
qed

lemma doPivot_spec:
  assumes "0 \<le> lo" "hi \<le> int (length (elems d))" "lo < hi"
  shows "\<exists>d' mlo mhi v. doPivot I d lo hi = Some (d', mlo, mhi) \<and> swaps lo hi (elems d) (elems d')
     \<and> parted lo hi v (elems d') mlo mhi"
proof -
  obtain d1 where d1: "choosePivot I d lo hi = Some d1" "swaps lo hi (elems d) (elems d1)"
    using choosePivot_spec [OF assms] by blast
  have hi1: "hi \<le> int (length (elems d1))" using assms d1(2) by (simp add: swaps_length)
  have "fenced lo hi (el (elems d1) lo) (elems d1) (lo + 1) (lo + 1) hi hi"
    using assms by (auto simp: fenced_def eqv_def irrefl zless_add1_eq)
  from partitionLoop_spec [OF this assms(1) hi1]
  obtain d2 a b e where d2: "partitionLoop I lo (d1, lo + 1, lo + 1, hi, hi) = Some (d2, a, b, b, e)"
      "fenced lo hi (el (elems d1) lo) (elems d2) a b b e" "swaps lo hi (elems d1) (elems d2)"
    by blast
  have "hi \<le> int (length (elems d2))" using hi1 d2(3) by (simp add: swaps_length)
  from blockMoves_spec [OF d2(2) assms(1) this]
  obtain d3 d4 where
      "swapRange I d2 lo (b - sort_min (b - a) (a - lo)) (sort_min (b - a) (a - lo)) = Some d3"
      "swapRange I d3 b (hi - sort_min (hi - e) (e - b)) (sort_min (hi - e) (e - b)) = Some d4"
      "swaps lo hi (elems d2) (elems d4)"
      "parted lo hi (el (elems d1) lo) (elems d4) (lo + b - a) (hi - (e - b))"
    by blast
  with d1 d2 have "doPivot I d lo hi = Some (d4, lo + b - a, hi - (e - b))"
      "swaps lo hi (elems d) (elems d4)"
    by (auto simp: doPivot_def Let_def intro: swaps_trans)
  with \<open>parted _ _ _ _ _ _\<close> show ?thesis by blast
qed

text \<open>Sorting both outer parts of a parted range sorts the range.\<close>

lemma parted_swaps:
  assumes "parted lo hi v xs mlo mhi" "swaps x y xs ys" "0 \<le> lo"
    and "x = lo \<and> y = mlo \<or> x = mhi \<and> y = hi" "lo \<le> mlo" "mlo \<le> mhi" "mhi \<le> hi"
  shows "parted lo hi v ys mlo mhi"
  unfolding parted_def
proof (intro conjI allI impI)
  show "lt (el ys k) v" if k: "lo \<le> k \<and> k < mlo" for k
    using assms swaps_inside [OF assms(2), of "\<lambda>z. lt z v" k] swaps_outside [OF assms(2), of k] k
    by (auto simp: parted_def)
  show "eqv (el ys k) v" if k: "mlo \<le> k \<and> k < mhi" for k
    using assms swaps_outside [OF assms(2), of k] k by (auto simp: parted_def)
  show "lt v (el ys k)" if k: "mhi \<le> k \<and> k < hi" for k
    using assms swaps_inside [OF assms(2), of "lt v" k] swaps_outside [OF assms(2), of k] k
    by (auto simp: parted_def)
qed

lemma parted_sorted:
  assumes "parted lo hi v xs mlo mhi" "sorted_on lo mlo xs" "sorted_on mhi hi xs"
  shows "sorted_on lo hi xs"
  unfolding sorted_on_def
proof (intro allI impI)
  fix i j
  assume ij: "lo \<le> i \<and> i < j \<and> j < hi"
  have below: "le (el xs k) v" if "lo \<le> k" "k < mhi" "k < hi" for k
    using assms(1) that lt_le eqv_le by (cases "k < mlo") (auto simp: parted_def)
  have above: "le v (el xs k)" if "mlo \<le> k" "k < hi" for k
    using assms(1) that lt_le eqv_le by (cases "k < mhi") (auto simp: parted_def)
  show "le (el xs i) (el xs j)"
  proof (cases "j < mlo \<or> mhi \<le> i")
    case True
    then show ?thesis using ij assms(2,3) by (auto simp: sorted_on_def)
  next
    case False
    with ij below [of i] above [of j] show ?thesis using le_trans [of "el xs i" v "el xs j"] by simp
  qed
qed

lemma quickSort_spec:
  assumes "0 \<le> a" "b \<le> int (length (elems d))"
  shows "\<exists>d'. quickSort I d a b = Some d' \<and> swaps a b (elems d) (elems d') \<and> sorted_on a b (elems d')"
  using assms
proof (induction "nat (b - a)" arbitrary: d a b rule: less_induct)
  case less
  note unf = quickSort.simps [of I d a b]
  show ?case
  proof (cases "b - a > 7")
    case False
    then show ?thesis
      using less.prems insertionSort_spec [of a b d] by (subst unf) (auto intro: sorted_on_short)
  next
    case True
    then have ab: "a < b" by simp
    obtain d1 mlo mhi v where d1: "doPivot I d a b = Some (d1, mlo, mhi)"
        "swaps a b (elems d) (elems d1)" "parted a b v (elems d1) mlo mhi"
      using doPivot_spec [OF less.prems ab] by blast
    note o = doPivot_parts [OF d1(1) ab]
    have len1: "length (elems d1) = length (elems d)" using d1(2) by (rule swaps_length)
    have both: "\<exists>d3. do { e \<leftarrow> quickSort I d1 x y; quickSort I e x' y' } = Some d3
        \<and> swaps a b (elems d) (elems d3) \<and> sorted_on a b (elems d3)"
      if xy: "x = a \<and> y = mlo \<and> x' = mhi \<and> y' = b \<or> x = mhi \<and> y = b \<and> x' = a \<and> y' = mlo"
      for x y x' y'
    proof -
      have b: "0 \<le> x" "y \<le> b" "a \<le> x" "0 \<le> x'" "y' \<le> b" "a \<le> x'" "nat (y - x) < nat (b - a)"
          "nat (y' - x') < nat (b - a)" "y \<le> x' \<or> y' \<le> x"
        using xy o less.prems(1) by auto
      from less.hyps [of y x d1] b len1 less.prems(2)
      obtain d2 where d2: "quickSort I d1 x y = Some d2" "swaps x y (elems d1) (elems d2)"
          "sorted_on x y (elems d2)"
        by auto
      from less.hyps [of y' x' d2] b len1 less.prems(2) swaps_length [OF d2(2)]
      obtain d3 where d3: "quickSort I d2 x' y' = Some d3" "swaps x' y' (elems d2) (elems d3)"
          "sorted_on x' y' (elems d3)"
        by auto
      have "parted a b v (elems d2) mlo mhi"
        by (rule parted_swaps [OF d1(3) d2(2) less.prems(1)]) (use xy o in auto)
      from parted_swaps [OF this d3(2) less.prems(1)] xy o
      have "parted a b v (elems d3) mlo mhi" by auto
      moreover have "sorted_on x y (elems d3)"
        using d2(3) b swaps_outside [OF d3(2)] by (auto simp: sorted_on_def)
      ultimately have "sorted_on a b (elems d3)"
        using d3(3) xy by (auto intro: parted_sorted)
      moreover have "swaps a b (elems d) (elems d3)"
        by (rule swaps_trans [OF swaps_mono [OF d3(2)] swaps_trans [OF swaps_mono [OF d2(2)] d1(2)]])
          (use b in auto)
      ultimately show ?thesis using d2(1) d3(1) by simp
    qed
    show ?thesis
      using True d1(1) both [of a mlo mhi b] both [of mhi b a mlo]
      by (subst unf) (simp del: bind_eq_Some_conv)
  qed
qed

theorem Sort_spec:
  "\<exists>d'. Sort I d = Some d' \<and> mset (elems d') = mset (elems d)
     \<and> sorted_on 0 (int (length (elems d'))) (elems d')"
proof -
  obtain d' where "quickSort I d 0 (int (length (elems d))) = Some d'"
      "swaps 0 (int (length (elems d))) (elems d) (elems d')"
      "sorted_on 0 (int (length (elems d))) (elems d')"
    using quickSort_spec [of 0 "int (length (elems d))" d] by auto
  then show ?thesis
    by (auto simp: Sort_def Len_elems swaps_mset swaps_length)
qed

lemma isSortedLoop_spec:
  assumes "i < int (length (elems d))"
  shows "isSortedLoop I d i = Some (\<forall>k. 0 < k \<and> k \<le> i \<longrightarrow> le (el (elems d) (k - 1)) (el (elems d) k))"
  using assms
proof (induction "nat i" arbitrary: i rule: less_induct)
  case less
  note unf = isSortedLoop.simps [of I d i]
  show ?case
  proof (cases "i > 0")
    case False
    then show ?thesis by (subst unf) auto
  next
    case True
    with less.prems have r: "in_range (elems d) i" "in_range (elems d) (i - 1)"
      by (auto simp: in_range_def)
    have "isSortedLoop I d (i - 1)
        = Some (\<forall>k. 0 < k \<and> k \<le> i - 1 \<longrightarrow> le (el (elems d) (k - 1)) (el (elems d) k))"
      using less True by auto
    moreover have "(\<forall>k. 0 < k \<and> k \<le> i \<longrightarrow> le (el (elems d) (k - 1)) (el (elems d) k)) \<longleftrightarrow>
        \<not> lt (el (elems d) i) (el (elems d) (i - 1)) \<and>
        (\<forall>k. 0 < k \<and> k \<le> i - 1 \<longrightarrow> le (el (elems d) (k - 1)) (el (elems d) k))"
      using True by (auto simp: le_def order_le_less)
    ultimately show ?thesis
      using True r by (subst unf) (simp add: Less_elems)
  qed
qed

lemma sorted_on_adjacent:
  "sorted_on 0 n xs \<longleftrightarrow> (\<forall>k. 0 < k \<and> k < n \<longrightarrow> le (el xs (k - 1)) (el xs k))"
proof
  assume adj: "\<forall>k. 0 < k \<and> k < n \<longrightarrow> le (el xs (k - 1)) (el xs k)"
  have "0 \<le> i \<Longrightarrow> i + int m < n \<Longrightarrow> le (el xs i) (el xs (i + int m))" for i m
  proof (induction m)
    case 0
    then show ?case by (simp add: le_refl)
  next
    case (Suc m)
    then have "le (el xs i) (el xs (i + int m))" by simp
    moreover have "le (el xs (i + int m)) (el xs (i + int (Suc m)))"
      using adj [rule_format, of "i + int (Suc m)"] Suc.prems by simp
    ultimately show ?case by (rule le_trans)
  qed
  then show "sorted_on 0 n xs"
    unfolding sorted_on_def by (metis add_diff_cancel_left' diff_add_cancel le_add_diff_inverse2
        less_imp_le zle_iff_zadd add.commute)
qed (auto simp: sorted_on_def)

theorem IsSorted_spec:
  "IsSorted I d = Some (sorted_on 0 (int (length (elems d))) (elems d))"
  unfolding IsSorted_def Len_elems sorted_on_adjacent
  by (subst isSortedLoop_spec) (auto simp: zle_diff1_eq)

end

section \<open>The slice types of the package\<close>

definition slice_swap :: "'a list \<Rightarrow> int \<Rightarrow> int \<Rightarrow> 'a list option" where
  "slice_swap p i j = do {
     x \<leftarrow> slice_at p j; y \<leftarrow> slice_at p i;
     p' \<leftarrow> slice_put p i x; slice_put p' j y }"

definition IntSlice :: "int list Interface" where
  "IntSlice = \<lparr>Len = \<lambda>p. int (length p),
     Less = \<lambda>p i j. do { x \<leftarrow> slice_at p i; y \<leftarrow> slice_at p j; Some (x < y) },
     Swap = slice_swap\<rparr>"

text \<open>
  A \<open>float64\<close> is its IEEE 754 bit pattern. Below the sign bit the patterns of numbers and
  infinities are ordered like their absolute values and those of the NaNs lie above all of
  them, so the comparison operators of the language are comparisons of signed magnitudes.
\<close>

type_synonym float64 = "64 word"

definition float64_mag :: "float64 \<Rightarrow> nat" where
  "float64_mag w = unat w mod 2 ^ 63"

definition float64_key :: "float64 \<Rightarrow> int" where
  "float64_key w = (if unat w < 2 ^ 63 then int (float64_mag w) else - int (float64_mag w))"

definition float64_ordered :: "float64 \<Rightarrow> bool" where
  "float64_ordered w \<longleftrightarrow> float64_mag w \<le> 0x7FF0000000000000"

definition float64_eq :: "float64 \<Rightarrow> float64 \<Rightarrow> bool" where
  "float64_eq x y \<longleftrightarrow> float64_ordered x \<and> float64_ordered y \<and> float64_key x = float64_key y"

definition float64_less :: "float64 \<Rightarrow> float64 \<Rightarrow> bool" where
  "float64_less x y \<longleftrightarrow> float64_ordered x \<and> float64_ordered y \<and> float64_key x < float64_key y"

definition IsNaN :: "float64 \<Rightarrow> bool" where
  "IsNaN f \<longleftrightarrow> \<not> float64_eq f f"

definition float64_slice_less :: "float64 \<Rightarrow> float64 \<Rightarrow> bool" where
  "float64_slice_less x y \<longleftrightarrow> float64_less x y \<or> IsNaN x \<and> \<not> IsNaN y"

definition Float64Slice :: "float64 list Interface" where
  "Float64Slice = \<lparr>Len = \<lambda>p. int (length p),
     Less = \<lambda>p i j. do { x \<leftarrow> slice_at p i; y \<leftarrow> slice_at p j; Some (float64_slice_less x y) },
     Swap = slice_swap\<rparr>"

text \<open>The language compares strings byte by byte.\<close>

fun string_less :: "byte list \<Rightarrow> byte list \<Rightarrow> bool" where
  "string_less _ [] = False"
| "string_less [] (_ # _) = True"
| "string_less (x # xs) (y # ys) = (if x = y then string_less xs ys else x < y)"

definition StringSlice :: "byte list list Interface" where
  "StringSlice = \<lparr>Len = \<lambda>p. int (length p),
     Less = \<lambda>p i j. do { x \<leftarrow> slice_at p i; y \<leftarrow> slice_at p j; Some (string_less x y) },
     Swap = slice_swap\<rparr>"

definition Ints :: "int list \<Rightarrow> int list option" where
  "Ints a = Sort IntSlice a"

definition Float64s :: "float64 list \<Rightarrow> float64 list option" where
  "Float64s a = Sort Float64Slice a"

definition Strings :: "byte list list \<Rightarrow> byte list list option" where
  "Strings a = Sort StringSlice a"

definition IntsAreSorted :: "int list \<Rightarrow> bool option" where
  "IntsAreSorted a = IsSorted IntSlice a"

definition Float64sAreSorted :: "float64 list \<Rightarrow> bool option" where
  "Float64sAreSorted a = IsSorted Float64Slice a"

definition StringsAreSorted :: "byte list list \<Rightarrow> bool option" where
  "StringsAreSorted a = IsSorted StringSlice a"

lemma slice_swap_Some:
  "in_range p i \<Longrightarrow> in_range p j \<Longrightarrow> slice_swap p i j = Some (swapi p i j)"
  by (simp add: slice_swap_def slice_simps swapi_def in_range_def el_def)

interpretation int_slice: sort_contract "(<)" IntSlice "\<lambda>p. p"
  by unfold_locales (auto simp: IntSlice_def slice_simps slice_swap_Some)

lemma float64_slice_less_iff:
  "float64_slice_less x y \<longleftrightarrow>
     (if float64_ordered y then \<not> float64_ordered x \<or> float64_key x < float64_key y else False)"
  by (auto simp: float64_slice_less_def float64_less_def IsNaN_def float64_eq_def)

interpretation float64_slice: sort_contract float64_slice_less Float64Slice "\<lambda>p. p"
  by unfold_locales
    (auto simp: Float64Slice_def slice_simps slice_swap_Some float64_slice_less_iff split: if_splits)

lemma string_less_irrefl: "\<not> string_less x x"
  by (induction x) auto

lemma string_less_trans: "string_less x y \<Longrightarrow> string_less y z \<Longrightarrow> string_less x z"
proof (induction x y arbitrary: z rule: string_less.induct)
  case (3 x xs y ys)
  then show ?case by (cases z) (auto split: if_splits)
qed (auto elim: string_less.elims)

lemma string_less_total: "string_less x y \<or> x = y \<or> string_less y x"
proof (induction x y rule: string_less.induct)
  case (1 x)
  then show ?case by (cases x) auto
qed auto

interpretation string_slice: sort_contract string_less StringSlice "\<lambda>p. p"
proof unfold_locales
  show "string_less x z \<Longrightarrow> string_less x y \<or> string_less y z" for x y z
    using string_less_total [of x y] string_less_trans [of y x z] by auto
qed (auto simp: StringSlice_def slice_simps slice_swap_Some string_less_irrefl
    dest: string_less_trans)

lemma int_slice_sorted: "int_slice.sorted_on 0 (int (length xs)) xs \<longleftrightarrow> sorted xs"
proof
  assume s: "int_slice.sorted_on 0 (int (length xs)) xs"
  show "sorted xs"
  proof (rule sorted_wrt_iff_nth_less [THEN iffD2], intro allI impI)
    fix i j assume "i < j" "j < length xs"
    with s [unfolded int_slice.sorted_on_def, rule_format, of "int i" "int j"]
    show "xs ! i \<le> xs ! j" by (simp add: int_slice.le_def el_def)
  qed
next
  assume "sorted xs"
  then show "int_slice.sorted_on 0 (int (length xs)) xs"
    by (auto simp: int_slice.sorted_on_def int_slice.le_def el_def not_less
        intro!: sorted_nth_mono)
qed

section \<open>Properties\<close>

text \<open>
  C1. For every collection whose methods keep the contract of \<open>sort.Interface\<close> with a
  strict weak order, \<open>Sort\<close> returns (it never indexes out of range and always ends),
  the result is a permutation of the input, and no element is smaller than an earlier one.
\<close>

theorem Sort_correct:
  fixes I :: "('d, 'z) Interface_scheme"
  assumes "sort_contract lt I elems"
  shows "\<exists>d'. Sort I d = Some d' \<and> mset (elems d') = mset (elems d) \<and>
    (\<forall>j < length (elems d'). \<forall>i < j. \<not> lt (elems d' ! j) (elems d' ! i))"
proof -
  note c = sort_contract.axioms(1) [OF assms]
  obtain d' where d': "Sort I d = Some d'" "mset (elems d') = mset (elems d)"
      "weak_order.sorted_on lt 0 (int (length (elems d'))) (elems d')"
    using sort_contract.Sort_spec [OF assms] by blast
  have "\<not> lt (elems d' ! j) (elems d' ! i)" if "j < length (elems d')" "i < j" for i j
    using d'(3) [unfolded weak_order.sorted_on_def [OF c] weak_order.le_def [OF c], rule_format,
        of "int i" "int j"] that by (simp add: el_def)
  with d'(1,2) show ?thesis by blast
qed

theorem Sort_correct_witness:
  "\<exists>d'. Sort StringSlice [[98], [97, 99], []] = Some d' \<and> mset d' = mset [[98], [97, 99], []] \<and>
    (\<forall>j < length d'. \<forall>i < j. \<not> string_less (d' ! j) (d' ! i))"
  by (rule Sort_correct [OF string_slice.sort_contract_axioms])

text \<open>
  \<open>Ints\<close> sorts a slice of ints in increasing order: it computes the library's
  \<open>sort\<close>, on every slice and without a panic.
\<close>

lemma Ints_sort: "Ints a = Some (sort a)"
proof -
  obtain p where "Sort IntSlice a = Some p" "mset p = mset a" "sorted p"
    using int_slice.Sort_spec [of a] by (auto simp: int_slice_sorted)
  then show ?thesis
    by (simp add: Ints_def properties_for_sort)
qed

text \<open>
  C2. \<open>Float64s\<close> puts every NaN first and the other values in increasing order, although
  \<open><\<close> on \<open>float64\<close> is not an order in the presence of NaNs.
\<close>

theorem Float64s_NaN_first:
  "\<exists>p. Float64s a = Some p \<and> mset p = mset a \<and>
    (\<forall>j < length p. \<forall>i < j. (IsNaN (p ! j) \<longrightarrow> IsNaN (p ! i)) \<and> \<not> float64_less (p ! j) (p ! i))"
proof -
  obtain p where p: "Sort Float64Slice a = Some p" "mset p = mset a"
      "float64_slice.sorted_on 0 (int (length p)) p"
    using float64_slice.Sort_spec [of a] by auto
  have "\<not> float64_slice_less (p ! j) (p ! i)" if "j < length p" "i < j" for i j
    using p(3) [unfolded float64_slice.sorted_on_def float64_slice.le_def, rule_format,
        of "int i" "int j"] that by (simp add: el_def)
  with p(1,2) show ?thesis
    by (force simp: Float64s_def float64_slice_less_def)
qed

theorem Float64s_NaN_first_witness:
  "\<exists>p. Float64s [0x3FF0000000000000, 0x7FF8000000000000] = Some p \<and>
    mset p = mset [0x3FF0000000000000, 0x7FF8000000000000] \<and>
    (\<forall>j < length p. \<forall>i < j. (IsNaN (p ! j) \<longrightarrow> IsNaN (p ! i)) \<and> \<not> float64_less (p ! j) (p ! i))"
  by (rule Float64s_NaN_first)

text \<open>\<open>IntsAreSorted\<close> decides whether a slice of ints is sorted.\<close>

theorem IntsAreSorted_iff: "IntsAreSorted a = Some (sorted a)"
  unfolding IntsAreSorted_def int_slice.IsSorted_spec by (simp add: int_slice_sorted)

end
