(* ===== verification/Sort_Search.thy ===== *)
theory Sort_Search
  imports Sort
begin

text \<open>
  Binary search of package \<open>sort\<close> (src/go/src/pkg/sort/search.go). The predicate may
  panic, so it returns an option; \<open>Search\<close> keeps the two bounds \<open>i\<close> and \<open>j\<close> of the
  source's loop.
\<close>

function searchLoop :: "(int \<Rightarrow> bool option) \<Rightarrow> int \<Rightarrow> int \<Rightarrow> int option" where
  "searchLoop f i j =
     (if i < j then do {
        let h = i + quot (j - i) 2;
        t \<leftarrow> f h;
        if \<not> t then searchLoop f (h + 1) j else searchLoop f i h }
      else Some i)"
  by pat_completeness auto
termination
  by (relation "measure (\<lambda>(f, i, j). nat (j - i))") auto

declare searchLoop.simps [simp del]

definition Search :: "int \<Rightarrow> (int \<Rightarrow> bool option) \<Rightarrow> int option" where
  "Search n f = searchLoop f 0 n"

definition SearchInts :: "int list \<Rightarrow> int \<Rightarrow> int option" where
  "SearchInts a x = Search (int (length a)) (\<lambda>i. do { v \<leftarrow> slice_at a i; Some (v \<ge> x) })"

definition float64_ge :: "float64 \<Rightarrow> float64 \<Rightarrow> bool" where
  "float64_ge x y \<longleftrightarrow> float64_less y x \<or> float64_eq x y"

definition SearchFloat64s :: "float64 list \<Rightarrow> float64 \<Rightarrow> int option" where
  "SearchFloat64s a x =
     Search (int (length a)) (\<lambda>i. do { v \<leftarrow> slice_at a i; Some (float64_ge v x) })"

definition SearchStrings :: "byte list list \<Rightarrow> byte list \<Rightarrow> int option" where
  "SearchStrings a x =
     Search (int (length a)) (\<lambda>i. do { v \<leftarrow> slice_at a i; Some (\<not> string_less v x) })"

lemma searchLoop_spec:
  assumes "0 \<le> i" "i \<le> j" "j \<le> n"
    and f: "\<And>k. 0 \<le> k \<Longrightarrow> k < n \<Longrightarrow> f k = Some (P k)"
    and mono: "\<And>k l. 0 \<le> k \<Longrightarrow> k \<le> l \<Longrightarrow> l < n \<Longrightarrow> P k \<Longrightarrow> P l"
    and "\<And>k. 0 \<le> k \<Longrightarrow> k < i \<Longrightarrow> \<not> P k"
    and "\<And>k. j \<le> k \<Longrightarrow> k < n \<Longrightarrow> P k"
  shows "\<exists>r. searchLoop f i j = Some r \<and> i \<le> r \<and> r \<le> j \<and>
    (\<forall>k. 0 \<le> k \<and> k < n \<longrightarrow> P k = (r \<le> k))"
  using assms(1-3,6,7)
proof (induction "nat (j - i)" arbitrary: i j rule: less_induct)
  case less
  note unf = searchLoop.simps [of f i j]
  show ?case
  proof (cases "i < j")
    case False
    have "P k = (i \<le> k)" if "0 \<le> k" "k < n" for k
      using less.prems(2) less.prems(4) [of k] less.prems(5) [of k] False that by (cases "i \<le> k") auto
    with False less.prems(2) show ?thesis by (subst unf) auto
  next
    case True
    define h where "h = i + quot (j - i) 2"
    from True have h: "i \<le> h" "h < j" by (auto simp: h_def)
    have step: "searchLoop f i j = f h \<bind> (\<lambda>t. if \<not> t then searchLoop f (h + 1) j else searchLoop f i h)"
      using True by (subst unf) (simp only: h_def Let_def if_True)
    from h less.prems have fh: "f h = Some (P h)" by (auto intro: f)
    show ?thesis
    proof (cases "P h")
      case True
      have "\<exists>r. searchLoop f i h = Some r \<and> i \<le> r \<and> r \<le> h \<and>
          (\<forall>k. 0 \<le> k \<and> k < n \<longrightarrow> P k = (r \<le> k))"
      proof (rule less.hyps)
        show "P k" if "h \<le> k" "k < n" for k
          using mono [of h k] that True h less.prems(1) by simp
      qed (use less.prems(1-4) h in auto)
      then show ?thesis
        using \<open>i < j\<close> True h fh by (auto simp: step)
    next
      case False
      have "\<exists>r. searchLoop f (h + 1) j = Some r \<and> h + 1 \<le> r \<and> r \<le> j \<and>
          (\<forall>k. 0 \<le> k \<and> k < n \<longrightarrow> P k = (r \<le> k))"
      proof (rule less.hyps)
        show "\<not> P k" if "0 \<le> k" "k < h + 1" for k
          using mono [of k h] that False h less.prems(3) by auto
      qed (use less.prems(1-3,5) h in auto)
      then show ?thesis
        using \<open>i < j\<close> False h fh by (auto simp: step)
    qed
  qed
qed

text \<open>
  C3. \<open>Search\<close> returns the smallest index in \<open>[0, n)\<close> at which a monotone predicate
  holds, and \<open>n\<close> when it holds nowhere, after calling the predicate inside the range only.
\<close>

theorem Search_least:
  assumes "0 \<le> n"
    and "\<And>k. 0 \<le> k \<Longrightarrow> k < n \<Longrightarrow> f k = Some (P k)"
    and "\<And>k l. 0 \<le> k \<Longrightarrow> k \<le> l \<Longrightarrow> l < n \<Longrightarrow> P k \<Longrightarrow> P l"
  shows "\<exists>r. Search n f = Some r \<and> 0 \<le> r \<and> r \<le> n \<and> (\<forall>k. 0 \<le> k \<and> k < n \<longrightarrow> P k = (r \<le> k))"
  unfolding Search_def by (rule searchLoop_spec [OF _ _ _ assms(2,3)]) (use assms(1) in simp_all)

theorem Search_least_witness:
  "\<exists>r. Search 4 (\<lambda>k. if 0 \<le> k \<and> k < 4 then Some (2 * k \<ge> 5) else None) = Some r \<and> 0 \<le> r \<and> r \<le> 4 \<and>
     (\<forall>k. 0 \<le> k \<and> k < 4 \<longrightarrow> (2 * k \<ge> 5) = (r \<le> (k::int)))"
  by (rule Search_least) auto

text \<open>
  \<open>SearchInts\<close> on a sorted slice: everything before the result is smaller than
  \<open>x\<close> and everything from it on is not.
\<close>

lemma SearchInts_sorted:
  assumes "sorted a"
  shows "\<exists>r. SearchInts a x = Some (int r) \<and> r \<le> length a \<and>
    (\<forall>k < length a. (a ! k < x) = (k < r))"
proof -
  have "\<exists>r. SearchInts a x = Some r \<and> 0 \<le> r \<and> r \<le> int (length a) \<and>
      (\<forall>k. 0 \<le> k \<and> k < int (length a) \<longrightarrow> (x \<le> el a k) = (r \<le> k))"
    unfolding SearchInts_def Search_def
  proof (rule searchLoop_spec)
    show "x \<le> el a l" if "0 \<le> k" "k \<le> l" "l < int (length a)" "x \<le> el a k" for k l
      using sorted_nth_mono [OF assms, of "nat k" "nat l"] that by (simp add: el_def nat_less_iff nat_le_eq_zle)
  qed (auto simp: slice_at_def el_def)
  then obtain r where r: "SearchInts a x = Some r" "0 \<le> r" "r \<le> int (length a)"
      "\<And>k. 0 \<le> k \<Longrightarrow> k < int (length a) \<Longrightarrow> (x \<le> el a k) = (r \<le> k)"
    by blast
  have "(a ! k < x) = (k < nat r)" if "k < length a" for k
    using r(4) [of "int k"] that r(2) by (auto simp: el_def)
  with r(1-3) show ?thesis
    by (intro exI [of _ "nat r"]) auto
qed

end
