(* ===== verification/Container_Vector.thy ===== *)
theory Container_Vector
  imports Sort
begin

text \<open>
  Package \<open>container/vector\<close> (src/go/src/pkg/container/vector/vector.go and defs.go;
  \<open>intvector.go\<close> and \<open>stringvector.go\<close> are generated from \<open>vector.go\<close>).

  A vector is a Go slice: the visible elements and, behind them, the spare capacity of the
  backing array. Both are lists, so \<open>len\<close> is the length of the first and \<open>cap\<close> that
  of both together. \<open>z\<close> is the zero value of the element type. Slice expressions check
  their bounds against the capacity, element accesses against the length.
\<close>

section \<open>The model\<close>

record 'a vec =
  velems :: "'a list"
  spare :: "'a list"

definition vbacking :: "'a vec \<Rightarrow> 'a list" where
  "vbacking v = velems v @ spare v"

definition Vector_Len :: "'a vec \<Rightarrow> int" where
  "Vector_Len v = int (length (velems v))"

definition Vector_Cap :: "'a vec \<Rightarrow> int" where
  "Vector_Cap v = int (length (vbacking v))"

text \<open>The slice expression \<open>a[0:n]\<close>.\<close>

definition reslice :: "'a vec \<Rightarrow> int \<Rightarrow> 'a vec option" where
  "reslice v n =
     (if 0 \<le> n \<and> n \<le> Vector_Cap v
      then Some \<lparr>velems = take (nat n) (vbacking v), spare = drop (nat n) (vbacking v)\<rparr>
      else None)"

text \<open>The assignment \<open>a[i] = x\<close>.\<close>

definition Vector_Set :: "'a vec \<Rightarrow> int \<Rightarrow> 'a \<Rightarrow> 'a vec option" where
  "Vector_Set v i x = do { e \<leftarrow> slice_put (velems v) i x; Some (v\<lparr>velems := e\<rparr>) }"

definition Vector_At :: "'a vec \<Rightarrow> int \<Rightarrow> 'a option" where
  "Vector_At v i = slice_at (velems v) i"

text \<open>
  \<open>copy(a[lo:hi], xs)\<close> on the backing array of \<open>a\<close>: as many elements as both sides
  have. The source is read before anything is written, as \<open>copy\<close> specifies.
\<close>

definition copy_into :: "'a vec \<Rightarrow> int \<Rightarrow> int \<Rightarrow> 'a list \<Rightarrow> 'a vec option" where
  "copy_into v lo hi xs =
     (if 0 \<le> lo \<and> lo \<le> hi \<and> hi \<le> Vector_Cap v
      then let k = min (nat (hi - lo)) (length xs);
               b = take (nat lo) (vbacking v) @ take k xs @ drop (nat lo + k) (vbacking v);
               n = length (velems v)
           in Some \<lparr>velems = take n b, spare = drop n b\<rparr>
      else None)"

text \<open>The slice \<open>a[lo:hi]\<close> as a value to read from.\<close>

definition subslice :: "'a vec \<Rightarrow> int \<Rightarrow> int \<Rightarrow> 'a list option" where
  "subslice v lo hi =
     (if 0 \<le> lo \<and> lo \<le> hi \<and> hi \<le> Vector_Cap v
      then Some (take (nat (hi - lo)) (drop (nat lo) (vbacking v))) else None)"

definition initialSize :: int where
  "initialSize = 8"

definition realloc :: "'a \<Rightarrow> 'a vec \<Rightarrow> int \<Rightarrow> int \<Rightarrow> 'a vec option" where
  "realloc z v len capacity =
     (let capacity = (if capacity < initialSize then initialSize else capacity);
          capacity = (if capacity < len then len else capacity)
      in if 0 \<le> len
         then let c = take (nat len) (velems v)
              in Some \<lparr>velems = c @ replicate (nat len - length c) z,
                       spare = replicate (nat (capacity - len)) z\<rparr>
         else None)"

text \<open>The loop of \<open>Expand\<close> that makes the hole, from \<open>j\<close> down to \<open>i\<close>.\<close>

function holeLoop :: "'a vec \<Rightarrow> int \<Rightarrow> int \<Rightarrow> int \<Rightarrow> 'a vec option" where
  "holeLoop a i n j =
     (if j \<ge> i then do {
        x \<leftarrow> Vector_At a j;
        a' \<leftarrow> Vector_Set a (j + n) x;
        holeLoop a' i n (j - 1) }
      else Some a)"
  by pat_completeness auto
termination
  by (relation "measure (\<lambda>(a, i, n, j). nat (j - i + 1))") auto

declare holeLoop.simps [simp del]

definition Expand :: "'a \<Rightarrow> 'a vec \<Rightarrow> int \<Rightarrow> int \<Rightarrow> 'a vec option" where
  "Expand z p i n =
     (let len0 = Vector_Len p; len1 = int32 (len0 + n) in do {
        a \<leftarrow> (if len1 \<le> Vector_Cap p then reslice p len1
              else let capb = int32 (Vector_Cap p * 2);
                       capb = (if capb < len1 then len1 else capb)
                   in realloc z p len1 capb);
        holeLoop a i n (len0 - 1) })"

definition Extend :: "'a \<Rightarrow> 'a vec \<Rightarrow> int \<Rightarrow> 'a vec option" where
  "Extend z p n = Expand z p (Vector_Len p) n"

definition Resize :: "'a \<Rightarrow> 'a vec \<Rightarrow> int \<Rightarrow> int \<Rightarrow> 'a vec option" where
  "Resize z p len capacity =
     (if len > Vector_Cap p \<or> capacity > Vector_Cap p then do {
        a \<leftarrow> realloc z p len capacity; reslice a len }
      else if len < Vector_Len p then
        (if 0 \<le> len
         then reslice (p\<lparr>velems := take (nat len) (velems p)
                           @ replicate (length (velems p) - nat len) z\<rparr>) len
         else None)
      else reslice p len)"

definition Last :: "'a vec \<Rightarrow> 'a option" where
  "Last p = Vector_At p (Vector_Len p - 1)"

definition Copy :: "'a vec \<Rightarrow> 'a vec" where
  "Copy p = \<lparr>velems = velems p, spare = []\<rparr>"

definition Insert :: "'a \<Rightarrow> 'a vec \<Rightarrow> int \<Rightarrow> 'a \<Rightarrow> 'a vec option" where
  "Insert z p i x = do { p \<leftarrow> Expand z p i 1; Vector_Set p i x }"

definition Delete :: "'a \<Rightarrow> 'a vec \<Rightarrow> int \<Rightarrow> 'a vec option" where
  "Delete z p i =
     (let n = Vector_Len p in do {
        src \<leftarrow> subslice p (i + 1) n;
        a \<leftarrow> copy_into p i (n - 1) src;
        a \<leftarrow> Vector_Set a (n - 1) z;
        reslice a (n - 1) })"

text \<open>
  \<open>b\<close> are the elements of the vector \<open>x\<close>. The array of \<open>x\<close> is not that of \<open>p\<close>, or \<open>x\<close> is \<open>p\<close> itself:
  \<open>Expand\<close> writes only behind the first \<open>len(b)\<close> elements, so it does not change \<open>b\<close> then either.
\<close>

definition InsertVector :: "'a \<Rightarrow> 'a vec \<Rightarrow> int \<Rightarrow> 'a vec \<Rightarrow> 'a vec option" where
  "InsertVector z p i x =
     (let b = velems x in do {
        p \<leftarrow> Expand z p i (int (length b));
        copy_into p i (i + int (length b)) b })"

function clearLoop :: "'a \<Rightarrow> 'a vec \<Rightarrow> int \<Rightarrow> int \<Rightarrow> 'a vec option" where
  "clearLoop z a k n =
     (if k < n then do { a' \<leftarrow> Vector_Set a k z; clearLoop z a' (k + 1) n } else Some a)"
  by pat_completeness auto
termination
  by (relation "measure (\<lambda>(z, a, k, n). nat (n - k))") auto

declare clearLoop.simps [simp del]

definition Cut :: "'a \<Rightarrow> 'a vec \<Rightarrow> int \<Rightarrow> int \<Rightarrow> 'a vec option" where
  "Cut z p i j =
     (let n = Vector_Len p; m = n - (j - i) in do {
        src \<leftarrow> subslice p j n;
        a \<leftarrow> copy_into p i m src;
        a \<leftarrow> clearLoop z a m n;
        reslice a m })"

definition Slice :: "'a \<Rightarrow> 'a vec \<Rightarrow> int \<Rightarrow> int \<Rightarrow> 'a vec option" where
  "Slice z p i j = do {
     s \<leftarrow> realloc z \<lparr>velems = [], spare = []\<rparr> (j - i) 0;
     src \<leftarrow> subslice p i j;
     copy_into s 0 (Vector_Len s) src }"

definition Vector_Push :: "'a \<Rightarrow> 'a vec \<Rightarrow> 'a \<Rightarrow> 'a vec option" where
  "Vector_Push z p x = Insert z p (Vector_Len p) x"

definition Vector_Pop :: "'a \<Rightarrow> 'a vec \<Rightarrow> ('a vec \<times> 'a) option" where
  "Vector_Pop z p =
     (let i = Vector_Len p - 1 in do {
        x \<leftarrow> Vector_At p i;
        a \<leftarrow> Vector_Set p i z;
        a \<leftarrow> reslice a i;
        Some (a, x) })"

definition AppendVector :: "'a \<Rightarrow> 'a vec \<Rightarrow> 'a vec \<Rightarrow> 'a vec option" where
  "AppendVector z p x = InsertVector z p (Vector_Len p) x"

definition Vector_Swap :: "'a vec \<Rightarrow> int \<Rightarrow> int \<Rightarrow> 'a vec option" where
  "Vector_Swap a i j = do {
     x \<leftarrow> Vector_At a j; y \<leftarrow> Vector_At a i;
     a \<leftarrow> Vector_Set a i x; Vector_Set a j y }"

definition Vector_Do :: "('a \<Rightarrow> 's \<Rightarrow> 's) \<Rightarrow> 'a vec \<Rightarrow> 's \<Rightarrow> 's" where
  "Vector_Do f p s = fold f (velems p) s"

text \<open>
  \<open>Less\<close> of a \<open>Vector\<close>, whose elements are of type \<open>interface{}\<close>: \<open>asLess x\<close> is the method \<open>Less\<close> of the
  dynamic type of \<open>x\<close>, \<open>None\<close> when that type does not implement \<open>LessInterface\<close> and the assertion panics.
\<close>

definition Vector_Less :: "('a \<Rightarrow> ('a \<Rightarrow> bool option) option) \<Rightarrow> 'a vec \<Rightarrow> int \<Rightarrow> int \<Rightarrow> bool option" where
  "Vector_Less asLess p i j = do {
     x \<leftarrow> Vector_At p i; less \<leftarrow> asLess x; y \<leftarrow> Vector_At p j; less y }"

definition IntVector_Less :: "int vec \<Rightarrow> int \<Rightarrow> int \<Rightarrow> bool option" where
  "IntVector_Less p i j = do { x \<leftarrow> Vector_At p i; y \<leftarrow> Vector_At p j; Some (x < y) }"

definition StringVector_Less :: "byte list vec \<Rightarrow> int \<Rightarrow> int \<Rightarrow> bool option" where
  "StringVector_Less p i j = do { x \<leftarrow> Vector_At p i; y \<leftarrow> Vector_At p j; Some (string_less x y) }"

section \<open>Correctness\<close>

text \<open>
  The spare capacity holds zero values only. Every operation keeps this, and \<open>Resize\<close> and
  \<open>Extend\<close> rely on it: what they uncover is zero.
\<close>

definition clean :: "'a \<Rightarrow> 'a vec \<Rightarrow> bool" where
  "clean z v \<longleftrightarrow> set (spare v) \<subseteq> {z}"

lemma clean_append_replicate: "clean z v \<Longrightarrow> take k (spare v) = replicate (min k (length (spare v))) z"
  by (rule replicate_eqI) (auto simp: clean_def dest: in_set_takeD)

lemma reslice_shrink:
  "0 \<le> n \<Longrightarrow> n \<le> Vector_Len v \<Longrightarrow>
   reslice v n = Some \<lparr>velems = take (nat n) (velems v), spare = drop (nat n) (velems v) @ spare v\<rparr>"
  by (simp add: reslice_def Vector_Len_def Vector_Cap_def vbacking_def)

lemma reslice_grow:
  "Vector_Len v \<le> n \<Longrightarrow> n \<le> Vector_Cap v \<Longrightarrow>
   \<exists>v'. reslice v n = Some v' \<and> (clean z v \<longrightarrow> clean z v') \<and> length (velems v') = nat n
     \<and> velems v' = velems v @ take (nat n - length (velems v)) (spare v)"
  by (auto simp: reslice_def Vector_Len_def Vector_Cap_def vbacking_def clean_def
      dest: in_set_dropD)

lemma realloc_grow:
  "Vector_Len v \<le> n \<Longrightarrow>
   \<exists>v'. realloc z v n c = Some v' \<and> clean z v'
     \<and> velems v' = velems v @ replicate (nat n - length (velems v)) z"
  by (auto simp: realloc_def Vector_Len_def clean_def Let_def)

lemma grow_spec:
  assumes "0 \<le> n"
  shows "\<exists>a t. (if Vector_Len p + n \<le> Vector_Cap p then reslice p (Vector_Len p + n)
        else realloc z p (Vector_Len p + n) c) = Some a
      \<and> velems a = velems p @ t \<and> length t = nat n \<and> (clean z p \<longrightarrow> clean z a)"
proof (cases "Vector_Len p + n \<le> Vector_Cap p")
  case True
  with reslice_grow [of p "Vector_Len p + n" z] assms show ?thesis
    by (auto simp: nat_add_distrib Vector_Len_def)
next
  case False
  with realloc_grow [of p "Vector_Len p + n" z c] assms show ?thesis
    by (auto simp: nat_add_distrib Vector_Len_def)
qed

lemma holeLoop_spec:
  assumes "0 \<le> i" "i \<le> j + 1" "0 \<le> n" "j + n < Vector_Len a"
  shows "\<exists>e. holeLoop a i n j = Some (a\<lparr>velems := e\<rparr>) \<and> length e = length (velems a) \<and>
    (\<forall>k\<ge>0. el e k = (if i + n \<le> k \<and> k \<le> j + n then el (velems a) (k - n) else el (velems a) k))"
  using assms
proof (induction "nat (j - i + 1)" arbitrary: a j rule: less_induct)
  case less
  note unf = holeLoop.simps [of a i n j]
  show ?case
  proof (cases "j \<ge> i")
    case False
    with less.prems show ?thesis
      by (subst unf) (auto intro!: exI [of _ "velems a"])
  next
    case True
    let ?x = "el (velems a) j" and ?e = "(velems a)[nat (j + n) := el (velems a) j]"
    from True less.prems have r: "in_range (velems a) j" "in_range (velems a) (j + n)"
      by (auto simp: in_range_def Vector_Len_def)
    have e: "el ?e k = (if k = j + n then ?x else el (velems a) k)" if "0 \<le> k" for k
      using that r by (auto simp: el_def in_range_def nth_list_update eq_nat_nat_iff nat_less_iff)
    from less.hyps [of "j - 1" "a\<lparr>velems := ?e\<rparr>"] True less.prems
    obtain e' where e': "holeLoop (a\<lparr>velems := ?e\<rparr>) i n (j - 1) = Some (a\<lparr>velems := e'\<rparr>)"
        "length e' = length (velems a)"
        "\<And>k. 0 \<le> k \<Longrightarrow> el e' k = (if i + n \<le> k \<and> k \<le> j - 1 + n then el ?e (k - n) else el ?e k)"
      by (auto simp: Vector_Len_def)
    have "holeLoop a i n j = Some (a\<lparr>velems := e'\<rparr>)"
      using True r e'(1) by (subst unf) (simp add: Vector_At_def Vector_Set_def slice_simps)
    moreover have "el e' k = (if i + n \<le> k \<and> k \<le> j + n then el (velems a) (k - n) else el (velems a) k)"
      if "0 \<le> k" for k
      using that less.prems True by (cases "k = j + n") (auto simp: e'(3) e)
    ultimately show ?thesis
      using e'(2) by blast
  qed
qed

text \<open>\<open>Expand\<close> opens a hole of \<open>n\<close> elements before index \<open>i\<close>.\<close>

lemma Expand_spec:
  assumes i: "0 \<le> i" "i \<le> Vector_Len p" and n: "0 \<le> n" "Vector_Len p + n < 2 ^ 31"
  shows "\<exists>v hole. Expand z p i n = Some v \<and> length hole = nat n \<and>
    velems v = take (nat i) (velems p) @ hole @ drop (nat i) (velems p) \<and> (clean z p \<longrightarrow> clean z v)"
proof -
  let ?l = "Vector_Len p"
  have len1: "int32 (?l + n) = ?l + n" using n by (simp add: Vector_Len_def)
  define capb where "capb = (if int32 (Vector_Cap p * 2) < ?l + n then ?l + n else int32 (Vector_Cap p * 2))"
  obtain a t where a: "(if ?l + n \<le> Vector_Cap p then reslice p (?l + n)
        else realloc z p (?l + n) capb) = Some a"
      "velems a = velems p @ t" "length t = nat n" "clean z p \<longrightarrow> clean z a"
    using grow_spec [OF n(1), of p z capb] by (elim exE conjE)
  from holeLoop_spec [of i "?l - 1" n a] i n a(2,3)
  obtain e where e: "holeLoop a i n (?l - 1) = Some (a\<lparr>velems := e\<rparr>)" "length e = length (velems a)"
      "\<And>k. 0 \<le> k \<Longrightarrow> el e k = (if i + n \<le> k \<and> k \<le> ?l - 1 + n then el (velems a) (k - n) else el (velems a) k)"
    by (auto simp: Vector_Len_def)
  obtain I N where IN: "i = int I" "n = int N" and I: "I \<le> length (velems p)"
    using i n by (metis Vector_Len_def nonneg_int_cases of_nat_le_iff)
  define hole where "hole = take N (drop I e)"
  have hole: "length hole = N" and len: "length e = length (velems p) + N"
    using I IN a(2,3) e(2) by (auto simp: hole_def)
  have "e = take I (velems p) @ hole @ drop I (velems p)"
  proof (rule nth_equalityI)
    fix k assume k: "k < length e"
    have ek: "e ! k = (if I + N \<le> k then velems a ! (k - N) else velems a ! k)"
      using e(3) [of "int k"] k len IN by (auto simp: el_def Vector_Len_def nat_diff_distrib)
    consider "k < I" | "I \<le> k" "k < I + N" | "I + N \<le> k" by linarith
    then show "e ! k = (take I (velems p) @ hole @ drop I (velems p)) ! k"
    proof cases
      case 2
      then have "hole ! (k - I) = e ! k" using I len by (simp add: hole_def)
      with 2 I hole show ?thesis by (auto simp: nth_append)
    qed (use ek a(2) I k len hole in \<open>auto simp: nth_append\<close>)
  qed (use I len hole in simp)
  moreover have "Expand z p i n = Some (a\<lparr>velems := e\<rparr>)"
    unfolding Expand_def Let_def len1 capb_def [symmetric] by (rule bind_SomeI, rule a(1), rule e(1))
  ultimately show ?thesis
    using a(4) hole by (auto simp: clean_def IN)
qed

lemma Vector_Set_Some:
  "0 \<le> i \<Longrightarrow> i < Vector_Len v \<Longrightarrow> Vector_Set v i x = Some (v\<lparr>velems := (velems v)[nat i := x]\<rparr>)"
  by (simp add: Vector_Set_def slice_put_def Vector_Len_def)

lemma copy_into_Some:
  assumes "l + length xs \<le> h" "h \<le> length (velems v)"
  shows "copy_into v (int l) (int h) xs
    = Some (v\<lparr>velems := take l (velems v) @ xs @ drop (l + length xs) (velems v)\<rparr>)"
proof -
  have k: "min (nat (int h - int l)) (length xs) = length xs"
    using assms by simp
  show ?thesis
    using assms by (simp add: copy_into_def Vector_Cap_def vbacking_def Let_def k)
qed

lemma subslice_Some:
  "l \<le> h \<Longrightarrow> h \<le> length (velems v) \<Longrightarrow>
   subslice v (int l) (int h) = Some (take (h - l) (drop l (velems v)))"
  by (simp add: subslice_def Vector_Cap_def vbacking_def of_nat_diff [symmetric] del: of_nat_diff)

lemma clearLoop_spec:
  assumes "k \<le> n" "n \<le> length (velems a)"
  shows "clearLoop z a (int k) (int n) = Some (a\<lparr>velems := take k (velems a)
     @ replicate (n - k) z @ drop n (velems a)\<rparr>)"
  using assms
proof (induction "n - k" arbitrary: a k)
  case 0
  then show ?case by (subst clearLoop.simps) simp
next
  case (Suc m)
  let ?a = "a\<lparr>velems := (velems a)[k := z]\<rparr>"
  have "take (Suc k) ((velems a)[k := z]) = take k (velems a) @ [z]"
    using Suc by (simp add: take_Suc_conv_app_nth)
  moreover have "n - k = Suc (n - Suc k)" using Suc by simp
  ultimately show ?case
    using Suc.hyps(1) [of "Suc k" ?a] Suc.hyps(2) Suc.prems
    by (subst clearLoop.simps) (simp add: Vector_Set_Some Vector_Len_def add.commute)
qed

text \<open>
  The abstraction to lists: \<open>Insert\<close>, \<open>InsertVector\<close>, \<open>Cut\<close> and the operations
  built on them.
\<close>

lemma Insert_spec:
  assumes "i \<le> length (velems p)" "length (velems p) + 1 < 2 ^ 31"
  shows "\<exists>v. Insert z p (int i) x = Some v \<and> velems v = take i (velems p) @ x # drop i (velems p)
     \<and> (clean z p \<longrightarrow> clean z v)"
proof -
  obtain v hole where v: "Expand z p (int i) 1 = Some v" "length hole = nat 1"
      "velems v = take i (velems p) @ hole @ drop i (velems p)" "clean z p \<longrightarrow> clean z v"
    using Expand_spec [of "int i" p 1 z] assms by (auto simp: Vector_Len_def)
  from v(2) obtain h where "hole = [h]" by (cases hole) auto
  with v assms show ?thesis
    by (auto simp: Insert_def Vector_Set_Some Vector_Len_def list_update_append clean_def)
qed

lemma InsertVector_spec:
  assumes "i \<le> length (velems p)" "length (velems p) + length (velems x) < 2 ^ 31"
  shows "\<exists>v. InsertVector z p (int i) x = Some v \<and>
     velems v = take i (velems p) @ velems x @ drop i (velems p) \<and> (clean z p \<longrightarrow> clean z v)"
proof -
  obtain v hole where v: "Expand z p (int i) (int (length (velems x))) = Some v"
      "length hole = length (velems x)"
      "velems v = take i (velems p) @ hole @ drop i (velems p)" "clean z p \<longrightarrow> clean z v"
    using Expand_spec [of "int i" p "int (length (velems x))" z] assms by (auto simp: Vector_Len_def)
  moreover from v assms have "copy_into v (int i) (int (i + length (velems x))) (velems x)
      = Some (v\<lparr>velems := take i (velems p) @ velems x @ drop i (velems p)\<rparr>)"
    by (subst copy_into_Some) auto
  ultimately show ?thesis
    by (auto simp: InsertVector_def clean_def)
qed

lemma Cut_spec:
  assumes "i \<le> j" "j \<le> length (velems p)"
  shows "\<exists>v. Cut z p (int i) (int j) = Some v \<and> velems v = take i (velems p) @ drop j (velems p)
     \<and> (clean z p \<longrightarrow> clean z v)"
proof -
  let ?e = "velems p" and ?n = "length (velems p)"
  define m where "m = ?n - (j - i)"
  with assms have m: "int m = int ?n - (int j - int i)" "i + length (drop j ?e) = m" "m \<le> ?n"
    by auto
  define a where "a = p\<lparr>velems := take i ?e @ drop j ?e @ drop m ?e\<rparr>"
  have "copy_into p (int i) (int m) (drop j ?e) = Some a"
    using copy_into_Some [of i "drop j ?e" m p] m(3) unfolding m(2) a_def by simp
  moreover have "subslice p (int j) (int ?n) = Some (drop j ?e)"
    using assms by (simp add: subslice_Some)
  moreover have "take m (velems a) = take i ?e @ drop j ?e" and "length (velems a) = ?n"
    using m assms by (auto simp: a_def)
  moreover have "clearLoop z a (int m) (int ?n) = Some (a\<lparr>velems := take m (velems a) @ replicate (?n - m) z\<rparr>)"
    using m(3) \<open>length (velems a) = ?n\<close> by (simp add: clearLoop_spec)
  moreover have "length (take m (velems a)) = m"
    using m(3) \<open>length (velems a) = ?n\<close> by simp
  ultimately show ?thesis
    using m(3) unfolding Cut_def Let_def Vector_Len_def m(1) [symmetric]
    by (auto simp: reslice_shrink Vector_Len_def clean_def a_def)
qed

lemma Delete_eq_Cut:
  assumes "i < length (velems p)"
  shows "Delete z p (int i) = Cut z p (int i) (int i + 1)"
  using assms
  by (simp add: Delete_def Cut_def Let_def Vector_Len_def clearLoop.simps [of z _ _ "int (length (velems p))"]
      clearLoop.simps [of z _ "int (length (velems p)) - 1 + 1"])

lemma Slice_spec:
  assumes "i \<le> j" "j \<le> length (velems p)"
  shows "\<exists>v. Slice z p (int i) (int j) = Some v \<and> velems v = take (j - i) (drop i (velems p)) \<and> clean z v"
proof -
  obtain s where s: "realloc z \<lparr>velems = [], spare = []\<rparr> (int j - int i) 0 = Some s" "clean z s"
      "length (velems s) = j - i"
    using realloc_grow [of "\<lparr>velems = [], spare = []\<rparr>" "int j - int i" z 0] assms
    by (auto simp: Vector_Len_def nat_diff_distrib)
  moreover have "copy_into s (int 0) (int (length (velems s))) (take (j - i) (drop i (velems p)))
      = Some (s\<lparr>velems := take (j - i) (drop i (velems p))\<rparr>)"
    using assms s(3) by (subst copy_into_Some) auto
  ultimately show ?thesis
    using assms by (auto simp: Slice_def subslice_Some Vector_Len_def clean_def)
qed

lemma Vector_Push_spec:
  "length (velems p) + 1 < 2 ^ 31 \<Longrightarrow>
   \<exists>v. Vector_Push z p x = Some v \<and> velems v = velems p @ [x] \<and> (clean z p \<longrightarrow> clean z v)"
  using Insert_spec [of "length (velems p)" p z x] by (simp add: Vector_Push_def Vector_Len_def)

lemma Vector_Pop_spec:
  assumes "velems p = xs @ [x]"
  shows "\<exists>v. Vector_Pop z p = Some (v, x) \<and> velems v = xs \<and> (clean z p \<longrightarrow> clean z v)"
  using assms
  by (auto simp: Vector_Pop_def Vector_Len_def Vector_At_def Vector_Set_def slice_at_def slice_put_def
      reslice_shrink clean_def)

lemma Vector_Pop_empty: "velems p = [] \<Longrightarrow> Vector_Pop z p = None"
  by (simp add: Vector_Pop_def Vector_Len_def Vector_At_def slice_at_def)

lemma Vector_Swap_spec:
  "in_range (velems p) i \<Longrightarrow> in_range (velems p) j \<Longrightarrow>
   Vector_Swap p i j = Some (p\<lparr>velems := swapi (velems p) i j\<rparr>)"
  by (simp add: Vector_Swap_def Vector_At_def Vector_Set_def slice_simps swapi_def in_range_def el_def)

section \<open>The vectors as \<open>sort.Interface\<close>\<close>

definition IntVector :: "int vec Interface" where
  "IntVector = \<lparr>Len = Vector_Len, Less = IntVector_Less, Swap = Vector_Swap\<rparr>"

definition StringVector :: "byte list vec Interface" where
  "StringVector = \<lparr>Len = Vector_Len, Less = StringVector_Less, Swap = Vector_Swap\<rparr>"

interpretation int_vector: sort_contract "(<)" IntVector velems
  by unfold_locales
    (auto simp: IntVector_def Vector_Len_def IntVector_Less_def Vector_At_def slice_simps Vector_Swap_spec)

definition AnyVector :: "('a \<Rightarrow> ('a \<Rightarrow> bool option) option) \<Rightarrow> 'a vec Interface" where
  "AnyVector asLess = \<lparr>Len = Vector_Len, Less = Vector_Less asLess, Swap = Vector_Swap\<rparr>"

lemma AnyVector_contract:
  assumes "weak_order lt" "\<And>x. asLess x = Some (\<lambda>y. Some (lt x y))"
  shows "sort_contract lt (AnyVector asLess) velems"
proof -
  have "sort_contract_axioms lt (AnyVector asLess) velems"
    by unfold_locales
      (auto simp: AnyVector_def Vector_Len_def Vector_Less_def Vector_At_def slice_simps assms(2) Vector_Swap_spec)
  with assms(1) show ?thesis by (rule sort_contract.intro)
qed

interpretation string_vector: sort_contract string_less StringVector velems
  by unfold_locales
    (auto simp: StringVector_def Vector_Len_def StringVector_Less_def Vector_At_def slice_simps
      Vector_Swap_spec)

text \<open>
  \<open>Resize\<close> to \<open>n\<close> elements keeps the first \<open>n\<close> and adds zero values for the
  rest, also when the array is large enough and old elements lie behind the end.
\<close>

lemma Resize_zero_fills:
  assumes "clean z p"
  shows "\<exists>v. Resize z p (int n) c = Some v \<and> clean z v \<and>
    velems v = take n (velems p) @ replicate (n - length (velems p)) z"
proof -
  consider "int n > Vector_Cap p \<or> c > Vector_Cap p"
    | "\<not> (int n > Vector_Cap p \<or> c > Vector_Cap p)" "int n < Vector_Len p"
    | "\<not> (int n > Vector_Cap p \<or> c > Vector_Cap p)" "\<not> int n < Vector_Len p"
    by blast
  then show ?thesis
  proof cases
    case 1
    then show ?thesis
      by (auto simp: Resize_def realloc_def Let_def reslice_shrink Vector_Len_def clean_def min_def)
  next
    case 2
    then show ?thesis
      using assms by (auto simp: Resize_def reslice_shrink Vector_Len_def clean_def)
  next
    case 3
    then have n: "length (velems p) \<le> n" "n - length (velems p) \<le> length (spare p)"
      by (auto simp: Vector_Len_def Vector_Cap_def vbacking_def)
    obtain v where "reslice p (int n) = Some v" "clean z v"
        "velems v = velems p @ take (n - length (velems p)) (spare p)"
      using reslice_grow [of p "int n" z] 3 assms by (auto simp: Vector_Len_def)
    with 3 n clean_append_replicate [OF assms, of "n - length (velems p)"] show ?thesis
      by (auto simp: Resize_def)
  qed
qed

text \<open>
  \<open>Extend\<close> adds zero values.
\<close>

lemma Extend_spec:
  assumes "clean z p" "length (velems p) + n < 2 ^ 31"
  shows "\<exists>v. Extend z p (int n) = Some v \<and> clean z v \<and> velems v = velems p @ replicate n z"
proof -
  let ?l = "Vector_Len p"
  have len1: "int32 (?l + int n) = ?l + int n" using assms(2) by (simp add: Vector_Len_def)
  have hole: "holeLoop a ?l (int n) (?l - 1) = Some a" for a :: "'a vec" by (simp add: holeLoop.simps)
  show ?thesis
  proof (cases "?l + int n \<le> Vector_Cap p")
    case True
    then have "n \<le> length (spare p)" by (simp add: Vector_Len_def Vector_Cap_def vbacking_def)
    then have "take n (spare p) = replicate n z" using clean_append_replicate [OF assms(1), of n] by (simp add: min_absorb1)
    moreover obtain v where "reslice p (?l + int n) = Some v" "clean z v" "velems v = velems p @ take n (spare p)"
      using reslice_grow [of p "?l + int n" z] True assms(1) by (auto simp: Vector_Len_def nat_add_distrib)
    ultimately show ?thesis using True len1 hole by (simp add: Extend_def Expand_def)
  next
    case False
    then show ?thesis using realloc_grow [of p "?l + int n" z] len1 hole
      by (force simp: Extend_def Expand_def Let_def Vector_Len_def nat_add_distrib)
  qed
qed

subsection \<open>Indices out of range\<close>

lemma holeLoop_negative: "i < 0 \<Longrightarrow> - 1 \<le> j \<Longrightarrow> holeLoop a i n j = None" for a :: "'a vec"
proof (induction "nat (j + 1)" arbitrary: a j rule: less_induct)
  case less
  show ?case
  proof (cases "j = - 1")
    case True
    then show ?thesis using less.prems by (simp add: holeLoop.simps Vector_At_def slice_at_def)
  next
    case False
    then have "holeLoop b i n (j - 1) = None" for b :: "'a vec" using less.hyps [of "j - 1"] less.prems by simp
    then show ?thesis by (subst holeLoop.simps) (use less.prems False in \<open>simp split: Option.bind_split\<close>)
  qed
qed

lemma Expand_negative: "i < 0 \<Longrightarrow> Expand z p i n = None"
  by (simp add: Expand_def Let_def holeLoop_negative Vector_Len_def split: Option.bind_split)

lemma reslice_length: "reslice p n = Some v \<Longrightarrow> Vector_Len v = n"
  by (auto simp: reslice_def Vector_Len_def Vector_Cap_def split: if_splits)

lemma realloc_length: "realloc z p n c = Some v \<Longrightarrow> Vector_Len v = n"
  by (auto simp: realloc_def Let_def Vector_Len_def split: if_splits)

lemma Expand_length:
  assumes "Vector_Len p \<le> i" "0 \<le> n" "Expand z p i n = Some v"
  shows "Vector_Len v \<le> Vector_Len p + n"
proof -
  have "holeLoop a i n (Vector_Len p - 1) = Some a" for a :: "'a vec" using assms(1) by (simp add: holeLoop.simps)
  then have "Vector_Len v = int32 (Vector_Len p + n)"
    using assms(3) by (simp add: Expand_def Let_def reslice_length realloc_length split: if_splits)
  moreover have "int32 (Vector_Len p + n) \<le> Vector_Len p + n"
    using assms(2) zmod_le_nonneg_dividend [of "Vector_Len p + n + 2 ^ 31" "2 ^ 32"] by (simp add: int32_def Vector_Len_def)
  ultimately show ?thesis by simp
qed

lemma Insert_panics: "i < 0 \<or> Vector_Len p < i \<Longrightarrow> Insert z p i x = None"
  using Expand_length [of p i 1 z]
  by (auto simp: Insert_def Expand_negative Vector_Set_def slice_put_def Vector_Len_def split: Option.bind_split)

lemma Delete_panics: "\<not> in_range (velems p) i \<Longrightarrow> Delete z p i = None"
  by (cases "i < 0") (simp_all add: Delete_def Let_def subslice_def copy_into_def in_range_def Vector_Len_def)

lemma Cut_panics: "i < 0 \<or> Vector_Len p < j \<Longrightarrow> Cut z p i j = None"
  by (cases "i < 0") (simp_all add: Cut_def Let_def subslice_def copy_into_def)

lemma Slice_panics: "i < 0 \<or> j < i \<Longrightarrow> Slice z p i j = None"
  by (auto simp: Slice_def Let_def subslice_def realloc_def split: Option.bind_split)

lemma Vector_Swap_panics: "\<not> (in_range (velems p) i \<and> in_range (velems p) j) \<Longrightarrow> Vector_Swap p i j = None"
  by (auto simp: Vector_Swap_def Vector_At_def slice_simps split: Option.bind_split)

section \<open>Properties\<close>

text \<open>The operation returned, with the elements \<open>xs\<close> and zeros in the spare capacity.\<close>

definition yields :: "'a \<Rightarrow> 'a vec option \<Rightarrow> 'a list \<Rightarrow> bool" where
  "yields z r xs = (case r of None \<Rightarrow> False | Some v \<Rightarrow> clean z v \<and> velems v = xs)"

lemma yieldsI: "\<exists>v. r = Some v \<and> clean z v \<and> velems v = xs \<Longrightarrow> yields z r xs"
  by (auto simp: yields_def)

lemma element_ops:
  assumes "clean z p"
  shows "if in_range (velems p) k then yields z (Vector_Set p k x) ((velems p)[nat k := x]) else Vector_Set p k x = None"
    "if in_range (velems p) k \<and> in_range (velems p) l
     then yields z (Vector_Swap p k l) ((velems p)[nat k := velems p ! nat l, nat l := velems p ! nat k])
     else Vector_Swap p k l = None"
    "Last p = (if velems p = [] then None else Some (last (velems p)))"
proof -
  have "nat (int (length (velems p)) - 1) = length (velems p) - 1" by simp
  then show "Last p = (if velems p = [] then None else Some (last (velems p)))"
    by (simp add: Last_def Vector_At_def slice_at_def Vector_Len_def last_conv_nth)
qed (use assms Vector_Swap_panics [of p k l] in
    \<open>auto simp: Vector_Set_def slice_simps yields_def clean_def Vector_Swap_spec swapi_def el_def\<close>)

lemma Pop_yields:
  assumes "clean z p"
  shows "if velems p = [] then Vector_Pop z p = None
    else \<exists>v. Vector_Pop z p = Some (v, last (velems p)) \<and> yields z (Some v) (butlast (velems p))"
  using assms Vector_Pop_empty [of p z] Vector_Pop_spec [of p "butlast (velems p)" "last (velems p)" z]
  by (auto simp: yields_def)

lemma Insert_yields:
  assumes "clean z p" "length (velems p) + 1 < 2 ^ 31"
  shows "if 0 \<le> k \<and> k \<le> int (length (velems p)) then yields z (Insert z p k x) (take (nat k) (velems p) @ x # drop (nat k) (velems p))
    else Insert z p k x = None"
  using assms Insert_panics [of k p z x] Insert_spec [of "nat k" p z x]
  by (auto simp: Vector_Len_def nat_le_iff intro!: yieldsI)

lemma Delete_yields:
  assumes "clean z p"
  shows "if in_range (velems p) k then yields z (Delete z p k) (take (nat k) (velems p) @ drop (nat k + 1) (velems p))
    else Delete z p k = None"
proof (cases "in_range (velems p) k")
  case True
  then obtain i where i: "k = int i" "i < length (velems p)" by (metis in_range_def nonneg_int_cases of_nat_less_iff)
  then have "yields z (Delete z p k) (take i (velems p) @ drop (Suc i) (velems p))"
    using assms Cut_spec [of i "Suc i" p z] by (intro yieldsI) (auto simp: Delete_eq_Cut add.commute)
  then show ?thesis using True i by simp
qed (simp add: Delete_panics)

lemma growing_ops:
  assumes "clean z p" "0 \<le> k" "k \<le> int (length (velems p))" "length (velems p) + n < 2 ^ 31"
    "length (velems p) + length (velems q) < 2 ^ 31"
  shows "yields z (InsertVector z p k q) (take (nat k) (velems p) @ velems q @ drop (nat k) (velems p))"
    "\<exists>hole. length hole = n \<and> yields z (Expand z p k (int n)) (take (nat k) (velems p) @ hole @ drop (nat k) (velems p))"
  using assms InsertVector_spec [of "nat k" p q z] Expand_spec [of k p "int n" z]
  by (auto simp: Vector_Len_def nat_le_iff intro!: yieldsI)

lemma shrinking_ops:
  assumes "clean z p" "0 \<le> k" "k \<le> l" "l \<le> int (length (velems p))"
  shows "yields z (Cut z p k l) (take (nat k) (velems p) @ drop (nat l) (velems p))"
    "yields z (Slice z p k l) (take (nat l - nat k) (drop (nat k) (velems p)))"
  using assms Cut_spec [of "nat k" "nat l" p z] Slice_spec [of "nat k" "nat l" p z]
  by (auto simp: nat_le_iff intro!: yieldsI)

text \<open>
  C4. A vector is a list: on a vector whose spare capacity is zeroed, every operation computes the list operation
  of the same name, whether or not the array is reallocated, and leaves the spare capacity zeroed. \<open>At\<close>,
  \<open>Set\<close>, \<open>Swap\<close>, \<open>Last\<close>, \<open>Pop\<close>, \<open>Insert\<close> and \<open>Delete\<close> panic exactly for the
  indices that are out of range. \<open>InsertVector\<close> and \<open>Expand\<close> panic for a negative index, \<open>Cut\<close> for a
  negative lower bound or an upper bound behind the end, and \<open>Slice\<close> for a negative lower bound or one above the upper bound.
  The operations that add elements need a resulting length below \<open>2^31\<close>.
\<close>

theorem Vector_refines_list:
  fixes p q :: "'a vec"
  assumes "clean z p" and len: "length (velems p) + 1 < 2 ^ 31" "length (velems p) + n < 2 ^ 31"
    "length (velems p) + length (velems q) < 2 ^ 31"
  defines "xs \<equiv> velems p"
  defines "index \<equiv> \<lambda>k. 0 \<le> k \<and> k < int (length xs)" and "place \<equiv> \<lambda>k. 0 \<le> k \<and> k \<le> int (length xs)"
  shows "Vector_Len p = int (length xs)
    \<and> Vector_At p k = (if index k then Some (xs ! nat k) else None)
    \<and> (if index k then yields z (Vector_Set p k x) (xs[nat k := x]) else Vector_Set p k x = None)
    \<and> (if index k \<and> index l then yields z (Vector_Swap p k l) (xs[nat k := xs ! nat l, nat l := xs ! nat k])
       else Vector_Swap p k l = None)
    \<and> Last p = (if xs = [] then None else Some (last xs))
    \<and> yields z (Vector_Push z p x) (xs @ [x])
    \<and> (if xs = [] then Vector_Pop z p = None
       else \<exists>v. Vector_Pop z p = Some (v, last xs) \<and> yields z (Some v) (butlast xs))
    \<and> (if place k then yields z (Insert z p k x) (take (nat k) xs @ x # drop (nat k) xs) else Insert z p k x = None)
    \<and> (if index k then yields z (Delete z p k) (take (nat k) xs @ drop (nat k + 1) xs) else Delete z p k = None)
    \<and> (place k \<longrightarrow> yields z (InsertVector z p k q) (take (nat k) xs @ velems q @ drop (nat k) xs))
    \<and> (k < 0 \<longrightarrow> InsertVector z p k q = None \<and> Expand z p k i = None)
    \<and> yields z (AppendVector z p q) (xs @ velems q)
    \<and> (place k \<longrightarrow> (\<exists>hole. length hole = n \<and> yields z (Expand z p k (int n)) (take (nat k) xs @ hole @ drop (nat k) xs)))
    \<and> yields z (Extend z p (int n)) (xs @ replicate n z)
    \<and> (0 \<le> k \<and> k \<le> l \<and> place l \<longrightarrow> yields z (Cut z p k l) (take (nat k) xs @ drop (nat l) xs)
         \<and> yields z (Slice z p k l) (take (nat l - nat k) (drop (nat k) xs)))
    \<and> (k < 0 \<or> int (length xs) < l \<longrightarrow> Cut z p k l = None)
    \<and> (k < 0 \<or> l < k \<longrightarrow> Slice z p k l = None)
    \<and> yields z (Resize z p (int n) c) (take n xs @ replicate (n - length xs) z)
    \<and> yields z (Some (Copy p)) xs
    \<and> Vector_Do f p s = fold f xs s"
  unfolding xs_def index_def place_def in_range_def [symmetric]
proof (intro conjI impI)
  note ops = element_ops [OF assms(1)]
  show "Vector_Len p = int (length (velems p))" by (rule Vector_Len_def)
  show "Vector_At p k = (if in_range (velems p) k then Some (velems p ! nat k) else None)"
    by (simp add: Vector_At_def slice_simps el_def)
  show "yields z (Vector_Push z p x) (velems p @ [x])"
    using Vector_Push_spec [OF len(1), of z x] assms(1) by (auto simp: yields_def)
  show "yields z (AppendVector z p q) (velems p @ velems q)"
    using growing_ops(1) [OF assms(1), of "Vector_Len p" n q] len by (simp add: AppendVector_def Vector_Len_def)
  show "InsertVector z p k q = None" "Expand z p k i = None" if "k < 0"
    using that by (simp_all add: InsertVector_def Expand_negative)
  show "yields z (Extend z p (int n)) (velems p @ replicate n z)"
    by (rule yieldsI, rule Extend_spec [OF assms(1) len(2)])
  show "yields z (Resize z p (int n) c) (take n (velems p) @ replicate (n - length (velems p)) z)"
    by (rule yieldsI, rule Resize_zero_fills [OF assms(1)])
  show "Cut z p k l = None" if "k < 0 \<or> int (length (velems p)) < l"
    using that by (intro Cut_panics) (simp add: Vector_Len_def)
  show "yields z (Some (Copy p)) (velems p)" by (simp add: yields_def Copy_def clean_def)
  show "Vector_Do f p s = fold f (velems p) s" by (rule Vector_Do_def)
qed (rule element_ops [OF assms(1)] Pop_yields [OF assms(1)] Insert_yields [OF assms(1) len(1)] Delete_yields [OF assms(1)] |
    use growing_ops [OF assms(1) _ _ len(2,3), of k] shrinking_ops [OF assms(1), of k l] Slice_panics [of k l z p] in simp)+

theorem Vector_refines_list_witness:
  "yields 0 (Delete 0 \<lparr>velems = [4, 5, 6::int], spare = [0]\<rparr> 1) [4, 6] \<and>
   Insert 0 \<lparr>velems = [4, 5, 6::int], spare = [0]\<rparr> 4 9 = None"
proof -
  let ?p = "\<lparr>velems = [4, 5, 6::int], spare = [0]\<rparr>" and ?q = "\<lparr>velems = [], spare = []\<rparr> :: int vec"
  have p: "clean 0 ?p" "length (velems ?p) + 1 < 2 ^ 31" "length (velems ?p) + 0 < 2 ^ 31" "length (velems ?p) + length (velems ?q) < 2 ^ 31"
    by (simp_all add: clean_def)
  show ?thesis 
    using Vector_refines_list [OF p, of 1 9 2 0 0 "\<lambda>_ s. s" "0 :: nat"] Vector_refines_list [OF p, of 4 9 2 0 0 "\<lambda>_ s. s" "0 :: nat"]
    by simp
qed

end
