(* ===== verification/Container_Heap.thy ===== *)
theory Container_Heap
  imports Container_Vector
begin

text \<open>
  Package \<open>container/heap\<close> (src/go/src/pkg/container/heap/heap.go): a binary min-heap over
  any collection that implements \<open>heap.Interface\<close>, which extends \<open>sort.Interface\<close> by
  \<open>Push\<close> and \<open>Pop\<close> at the end of the collection.

  The child index \<open>2*i + 1\<close> is computed in the 32-bit \<open>int\<close> of the compiler
  (\<open>int32\<close>). \<open>down\<close> may therefore not return; it is a partial function, and
  \<open>None\<close> stands for a panic or a loop that does not end.
\<close>

section \<open>The model\<close>

record ('d, 'x) HeapInterface = "'d Interface" +
  PushBack :: "'d \<Rightarrow> 'x \<Rightarrow> 'd option"
  PopBack :: "'d \<Rightarrow> ('d \<times> 'x) option"

lemma up_decreases: "quot (j - 1) 2 \<noteq> j \<Longrightarrow> nat \<bar>quot (j - 1) 2\<bar> < nat \<bar>j\<bar>"
  by (cases "j \<ge> 1") (auto simp: quot_def sgn_if)

function up :: "('d, 'z) Interface_scheme \<Rightarrow> 'd \<Rightarrow> int \<Rightarrow> 'd option" where
  "up I h j =
     (let i = quot (j - 1) 2 in
      if i = j then Some h
      else do {
        l \<leftarrow> Less I h i j;
        if l then Some h
        else do { h' \<leftarrow> Swap I h i j; up I h' i } })"
  by pat_completeness auto

termination
  by (relation "measure (\<lambda>(I, h, j). nat \<bar>j\<bar>)") (auto dest: up_decreases)

declare up.simps [simp del]

partial_function (option) down :: "('d, 'z) Interface_scheme \<Rightarrow> 'd \<Rightarrow> int \<Rightarrow> int \<Rightarrow> 'd option" where
  "down I h i n =
     (let j1 = int32 (2 * i + 1) in
      if j1 \<ge> n then Some h
      else do {
        j \<leftarrow> (let j2 = int32 (j1 + 1) in
              if j2 < n then do { l \<leftarrow> Less I h j1 j2; Some (if \<not> l then j2 else j1) }
              else Some j1);
        l \<leftarrow> Less I h i j;
        if l then Some h
        else do { h' \<leftarrow> Swap I h i j; down I h' j n } })"

function initLoop :: "('d, 'z) Interface_scheme \<Rightarrow> 'd \<Rightarrow> int \<Rightarrow> int \<Rightarrow> 'd option" where
  "initLoop I h i n =
     (if i \<ge> 0 then do { h' \<leftarrow> down I h i n; initLoop I h' (i - 1) n } else Some h)"
  by pat_completeness auto
termination
  by (relation "measure (\<lambda>(I, h, i, n). nat (i + 1))") auto

declare initLoop.simps [simp del]

definition Init :: "('d, 'z) Interface_scheme \<Rightarrow> 'd \<Rightarrow> 'd option" where
  "Init I h = (let n = Len I h in initLoop I h (quot n 2 - 1) n)"

definition Push :: "('d, 'x, 'z) HeapInterface_scheme \<Rightarrow> 'd \<Rightarrow> 'x \<Rightarrow> 'd option" where
  "Push I h x = do { h \<leftarrow> PushBack I h x; up I h (Len I h - 1) }"

definition Pop :: "('d, 'x, 'z) HeapInterface_scheme \<Rightarrow> 'd \<Rightarrow> ('d \<times> 'x) option" where
  "Pop I h =
     (let n = Len I h - 1 in do {
        h \<leftarrow> Swap I h 0 n;
        h \<leftarrow> down I h 0 n;
        PopBack I h })"

definition Remove :: "('d, 'x, 'z) HeapInterface_scheme \<Rightarrow> 'd \<Rightarrow> int \<Rightarrow> ('d \<times> 'x) option" where
  "Remove I h i =
     (let n = Len I h - 1 in do {
        h \<leftarrow> (if n \<noteq> i then do { h \<leftarrow> Swap I h i n; h \<leftarrow> down I h i n; up I h i } else Some h);
        PopBack I h })"

section \<open>Correctness\<close>

definition child :: "int \<Rightarrow> int \<Rightarrow> bool" where
  "child p c \<longleftrightarrow> c = 2 * p + 1 \<or> c = 2 * p + 2"

text \<open>The heap invariants as the comment on \<open>heap.Interface\<close> states them.\<close>

definition heap_inv :: "('a \<Rightarrow> 'a \<Rightarrow> bool) \<Rightarrow> 'a list \<Rightarrow> bool" where
  "heap_inv lt xs \<longleftrightarrow>
     (\<forall>i j. (j = 2 * i + 1 \<or> j = 2 * i + 2) \<and> j < length xs \<longrightarrow> \<not> lt (xs ! j) (xs ! i))"

lemma child_gt: "0 \<le> p \<Longrightarrow> child p c \<Longrightarrow> p < c"
  by (auto simp: child_def)

lemma child_unique: "child p c \<Longrightarrow> child q c \<Longrightarrow> p = q"
  unfolding child_def by presburger

lemma child_parent: "0 < c \<Longrightarrow> child (quot (c - 1) 2) c"
  by (simp add: child_def) presburger

context sort_contract
begin

text \<open>
  \<open>heap_from m n\<close>: every parent from index \<open>m\<close> on is not larger than its children.
  \<open>down_hole\<close> and \<open>up_hole\<close> exempt one index, as the loops of \<open>down\<close> and \<open>up\<close> do.
\<close>

definition heap_from :: "int \<Rightarrow> int \<Rightarrow> 'a list \<Rightarrow> bool" where
  "heap_from m n xs \<longleftrightarrow> (\<forall>p c. m \<le> p \<and> child p c \<and> c < n \<longrightarrow> le (el xs p) (el xs c))"

definition down_hole :: "int \<Rightarrow> int \<Rightarrow> 'a list \<Rightarrow> int \<Rightarrow> bool" where
  "down_hole m n xs i \<longleftrightarrow>
     (\<forall>p c. m \<le> p \<and> child p c \<and> c < n \<and> p \<noteq> i \<longrightarrow> le (el xs p) (el xs c)) \<and>
     (\<forall>p c. m \<le> p \<and> child p i \<and> child i c \<and> c < n \<longrightarrow> le (el xs p) (el xs c))"

definition up_hole :: "int \<Rightarrow> 'a list \<Rightarrow> int \<Rightarrow> bool" where
  "up_hole n xs j \<longleftrightarrow>
     (\<forall>p c. 0 \<le> p \<and> child p c \<and> c < n \<and> c \<noteq> j \<longrightarrow> le (el xs p) (el xs c)) \<and>
     (\<forall>p c. 0 \<le> p \<and> child p j \<and> child j c \<and> c < n \<longrightarrow> le (el xs p) (el xs c))"

text \<open>The smaller child is the one \<open>down\<close> compares with.\<close>

lemma down_choice:
  assumes "0 \<le> i" "2 * i + 1 < n" "n \<le> int (length (elems d))" "n \<le> 2 ^ 30"
  shows "\<exists>j. (let j2 = int32 (2 * i + 1 + 1) in
        if j2 < n then do { l \<leftarrow> Less I d (2 * i + 1) j2; Some (if \<not> l then j2 else 2 * i + 1) }
        else Some (2 * i + 1)) = Some j
     \<and> child i j \<and> j < n \<and> (\<forall>c. child i c \<and> c < n \<longrightarrow> le (el (elems d) j) (el (elems d) c))"
proof -
  have "\<exists>j. (if 2 * i + 2 < n then do {
          l \<leftarrow> Less I d (2 * i + 1) (2 * i + 2); Some (if \<not> l then 2 * i + 2 else 2 * i + 1) }
        else Some (2 * i + 1)) = Some j
     \<and> child i j \<and> j < n \<and> (\<forall>c. child i c \<and> c < n \<longrightarrow> le (el (elems d) j) (el (elems d) c))"
  proof (cases "2 * i + 2 < n")
    case True
    with assms have "in_range (elems d) (2 * i + 1)" "in_range (elems d) (2 * i + 2)"
      by (auto simp: in_range_def)
    with True assms show ?thesis
      by (cases "lt (el (elems d) (2 * i + 1)) (el (elems d) (2 * i + 2))")
        (auto simp: Less_elems child_def le_refl lt_le not_lt_le)
  qed (use assms in \<open>auto simp: child_def le_refl\<close>)
  moreover have "int32 (2 * i + 1 + 1) = 2 * i + 2" using assms by simp
  ultimately show ?thesis by (simp only: Let_def)
qed

lemma down_hole_swap:
  assumes h: "down_hole m n xs i" and "0 \<le> m" "m \<le> i" "child i j" "j < n" "n \<le> int (length xs)"
    and min: "\<And>c. child i c \<Longrightarrow> c < n \<Longrightarrow> le (el xs j) (el xs c)"
    and ji: "le (el xs j) (el xs i)"
  shows "down_hole m n (swapi xs i j) j"
proof -
  have ij: "i < j" using assms child_gt by auto
  have r: "in_range xs i" "in_range xs j" using assms ij by (auto simp: in_range_def)
  note F = el_swapi [OF r]
  have "le (el (swapi xs i j) p) (el (swapi xs i j) c)"
    if pc: "m \<le> p" "child p c" "c < n" "p \<noteq> j" for p c
  proof (cases "p = i")
    case True
    with pc ij assms(2,3) min [of c] ji child_gt [of i c] show ?thesis by (auto simp: F)
  next
    case False
    with pc assms have "c \<noteq> j" using child_unique by blast
    moreover have "le (el xs p) (el xs c)" "c = i \<Longrightarrow> le (el xs p) (el xs j)"
      using h pc False assms(4,5) by (auto simp: down_hole_def)
    ultimately show ?thesis
      using pc False assms(2) child_gt [of p c] by (auto simp: F)
  qed
  moreover have "le (el (swapi xs i j) p) (el (swapi xs i j) c)"
    if pc: "m \<le> p" "child p j" "child j c" "c < n" for p c
  proof -
    have "p = i" using child_unique pc assms(4) by blast
    moreover have "j < c" using pc ij assms(2,3) child_gt by auto
    moreover have "le (el xs j) (el xs c)"
      using h pc ij assms(3) by (auto simp: down_hole_def)
    ultimately show ?thesis
      using ij assms(2,3) by (auto simp: F)
  qed
  ultimately show ?thesis
    unfolding down_hole_def by blast
qed

lemma down_spec:
  assumes "0 \<le> m" "m \<le> i" "i < 2 ^ 30" "n \<le> int (length (elems d))" "n \<le> 2 ^ 30"
    and "down_hole m n (elems d) i"
  shows "\<exists>d'. down I d i n = Some d' \<and> swaps m n (elems d) (elems d') \<and> heap_from m n (elems d')"
  using assms
proof (induction "nat (n - i)" arbitrary: d i rule: less_induct)
  case less
  let ?xs = "elems d"
  have j1: "int32 (2 * i + 1) = 2 * i + 1" using less.prems by simp
  show ?case
  proof (cases "2 * i + 1 \<ge> n")
    case True
    have "heap_from m n ?xs"
      using less.prems(6) True by (auto simp: heap_from_def down_hole_def child_def)
    with True show ?thesis by (subst down.simps) (simp add: j1)
  next
    case False
    obtain j where j: "(let j2 = int32 (2 * i + 1 + 1) in
        if j2 < n then do { l \<leftarrow> Less I d (2 * i + 1) j2; Some (if \<not> l then j2 else 2 * i + 1) }
        else Some (2 * i + 1)) = Some j"
      and c: "child i j" "j < n" "\<And>c. child i c \<Longrightarrow> c < n \<Longrightarrow> le (el ?xs j) (el ?xs c)"
      using down_choice [of i n d] less.prems False by auto
    have ij: "i < j" using c(1) less.prems child_gt by auto
    have r: "in_range ?xs i" "in_range ?xs j" using c(2) ij less.prems by (auto simp: in_range_def)
    have step: "down I d i n = Less I d i j \<bind>
        (\<lambda>l. if l then Some d else Swap I d i j \<bind> (\<lambda>d'. down I d' j n))"
      using False j by (subst down.simps) (simp only: j1 Let_def if_False Option.bind.bind_lunit)
    show ?thesis
    proof (cases "lt (el ?xs i) (el ?xs j)")
      case True
      then have "le (el ?xs i) (el ?xs c')" if "child i c'" "c' < n" for c'
        using that c(3) lt_le le_trans by blast
      with less.prems(6) have "heap_from m n ?xs"
        unfolding heap_from_def down_hole_def by blast
      with True r show ?thesis by (simp add: step Less_elems)
    next
      case nlt: False
      obtain d1 where d1: "Swap I d i j = Some d1" "elems d1 = swapi ?xs i j"
        using Swap_elems r by blast
      have "down_hole m n (elems d1) j"
        unfolding d1(2) using less.prems c not_lt_le [OF nlt] by (intro down_hole_swap) auto
      with less.hyps [of j d1] less.prems ij c(2)
      obtain d' where d': "down I d1 j n = Some d'" "swaps m n (elems d1) (elems d')"
          "heap_from m n (elems d')"
        by (auto simp: d1(2))
      have "swaps m n ?xs (elems d1)"
        unfolding d1(2) using less.prems ij c(2) r by (intro swaps_one) auto
      with d' nlt r d1(1) show ?thesis
        by (auto simp: step Less_elems intro: swaps_trans)
    qed
  qed
qed

lemma down_stop:
  assumes "0 \<le> i" "i < n" "n \<le> int (length (elems d))" "n \<le> 2 ^ 30"
    and lt: "\<And>c. child i c \<Longrightarrow> c < n \<Longrightarrow> lt (el (elems d) i) (el (elems d) c)"
  shows "down I d i n = Some d"
proof -
  have j1: "int32 (2 * i + 1) = 2 * i + 1" using assms by simp
  show ?thesis
  proof (cases "2 * i + 1 \<ge> n")
    case True
    then show ?thesis by (subst down.simps) (simp add: j1)
  next
    case False
    obtain j where j: "(let j2 = int32 (2 * i + 1 + 1) in
        if j2 < n then do { l \<leftarrow> Less I d (2 * i + 1) j2; Some (if \<not> l then j2 else 2 * i + 1) }
        else Some (2 * i + 1)) = Some j"
      and c: "child i j" "j < n"
      using down_choice [of i n d] assms False by auto
    have "Less I d i j = Some True"
      using assms c child_gt [of i j] by (simp add: Less_elems in_range_def)
    then show ?thesis
      using False j by (subst down.simps) (simp only: j1 Let_def if_False if_True Option.bind.bind_lunit)
  qed
qed

lemma up_hole_swap:
  assumes h: "up_hole n xs j" and "0 < j" "j < n" "n \<le> int (length xs)" "child i j" "0 \<le> i"
    and ji: "le (el xs j) (el xs i)"
  shows "up_hole n (swapi xs i j) i"
proof -
  have ij: "i < j" using assms child_gt by auto
  have r: "in_range xs i" "in_range xs j" using assms ij by (auto simp: in_range_def)
  note F = el_swapi [OF r]
  have sib: "le (el xs j) (el xs c)" if "child i c" "c < n" "c \<noteq> j" for c
    using that h ji assms(6) le_trans by (auto simp: up_hole_def)
  have "le (el (swapi xs i j) p) (el (swapi xs i j) c)"
    if pc: "0 \<le> p" "child p c" "c < n" "c \<noteq> i" for p c
  proof -
    have "p < c" using pc child_gt by auto
    have "c = j \<longleftrightarrow> p = i \<and> c = j" using child_unique pc assms(5) by blast
    moreover have "p = j \<Longrightarrow> le (el xs i) (el xs c)"
      using h pc assms(5,6) by (auto simp: up_hole_def)
    moreover have "c \<noteq> j \<Longrightarrow> le (el xs p) (el xs c)"
      using h pc by (auto simp: up_hole_def)
    ultimately show ?thesis
      using pc \<open>p < c\<close> sib [of c] ji ij by (auto simp: F)
  qed
  moreover have "le (el (swapi xs i j) p) (el (swapi xs i j) c)"
    if pc: "0 \<le> p" "child p i" "child i c" "c < n" for p c
  proof -
    have lt: "p < i" "i < c" using pc assms(6) child_gt by auto
    have "le (el xs p) (el xs i)" using h pc ij assms(3) by (auto simp: up_hole_def)
    moreover have "c \<noteq> j \<Longrightarrow> le (el xs i) (el xs c)" using h pc assms(6) by (auto simp: up_hole_def)
    ultimately show ?thesis
      using pc lt ij le_trans by (auto simp: F)
  qed
  ultimately show ?thesis
    unfolding up_hole_def by blast
qed

lemma up_spec:
  assumes "0 \<le> j" "j < n" "n \<le> int (length (elems d))" "up_hole n (elems d) j"
  shows "\<exists>d'. up I d j = Some d' \<and> swaps 0 n (elems d) (elems d') \<and> heap_from 0 n (elems d')"
  using assms
proof (induction "nat j" arbitrary: d j rule: less_induct)
  case less
  let ?xs = "elems d"
  define i where "i = quot (j - 1) 2"
  show ?case
  proof (cases "j = 0")
    case True
    moreover from this less.prems(4) have "heap_from 0 n ?xs"
      by (auto simp: heap_from_def up_hole_def child_def)
    ultimately show ?thesis by (subst up.simps) (simp add: quot_def)
  next
    case False
    with less.prems have i: "0 \<le> i" "i < j" "child i j" "i \<noteq> j"
      using child_parent [of j] by (auto simp: i_def)
    have r: "in_range ?xs i" "in_range ?xs j" using i less.prems by (auto simp: in_range_def)
    have step: "up I d j = Less I d i j \<bind>
        (\<lambda>l. if l then Some d else Swap I d i j \<bind> (\<lambda>d'. up I d' i))"
      using i(4) unfolding up.simps [of I d j] i_def [symmetric] Let_def by (simp only: if_False)
    show ?thesis
    proof (cases "lt (el ?xs i) (el ?xs j)")
      case True
      have "le (el ?xs p) (el ?xs c)" if "0 \<le> p" "child p c" "c < n" for p c
        using that less.prems(4) lt_le [OF True] child_unique [of p c i] i(3)
        by (cases "c = j") (auto simp: up_hole_def)
      then have "heap_from 0 n ?xs" by (auto simp: heap_from_def)
      with True r show ?thesis by (simp add: step Less_elems)
    next
      case nlt: False
      obtain d1 where d1: "Swap I d i j = Some d1" "elems d1 = swapi ?xs i j"
        using Swap_elems r by blast
      have "up_hole n (elems d1) i"
        unfolding d1(2) using less.prems False i not_lt_le [OF nlt] by (intro up_hole_swap) auto
      with less.hyps [of i d1] less.prems i
      obtain d' where d': "up I d1 i = Some d'" "swaps 0 n (elems d1) (elems d')"
          "heap_from 0 n (elems d')"
        by (auto simp: d1(2))
      have "swaps 0 n ?xs (elems d1)"
        unfolding d1(2) using less.prems i r by (intro swaps_one) auto
      with d' nlt r d1(1) show ?thesis
        by (auto simp: step Less_elems intro: swaps_trans)
    qed
  qed
qed

lemma heap_from_iff: "heap_from 0 (int (length xs)) xs \<longleftrightarrow> heap_inv lt xs"
proof
  assume h: "heap_from 0 (int (length xs)) xs"
  show "heap_inv lt xs"
    unfolding heap_inv_def
  proof (intro allI impI)
    fix i j :: nat
    assume "(j = 2 * i + 1 \<or> j = 2 * i + 2) \<and> j < length xs"
    with h [unfolded heap_from_def, rule_format, of "int i" "int j"]
    show "\<not> lt (xs ! j) (xs ! i)" by (auto simp: child_def le_def el_def)
  qed
next
  assume h: "heap_inv lt xs"
  show "heap_from 0 (int (length xs)) xs"
    unfolding heap_from_def
  proof (intro allI impI)
    fix p c
    assume "0 \<le> p \<and> child p c \<and> c < int (length xs)"
    with h [unfolded heap_inv_def, rule_format, of "nat c" "nat p"]
    show "le (el xs p) (el xs c)" by (auto simp: child_def le_def el_def nat_mult_distrib nat_add_distrib)
  qed
qed

lemma heap_from_append:
  "n \<le> int (length xs) \<Longrightarrow> 0 \<le> m \<Longrightarrow> heap_from m n (xs @ ys) \<longleftrightarrow> heap_from m n xs"
proof -
  assume n: "n \<le> int (length xs)" "0 \<le> m"
  then have "el (xs @ ys) p = el xs p" "el (xs @ ys) c = el xs c" if "m \<le> p" "child p c" "c < n" for p c
    using that child_gt [of p c] by (auto simp: el_def nth_append)
  then show ?thesis unfolding heap_from_def by (metis (no_types))
qed

lemma heap_root_min: "heap_from 0 n xs \<Longrightarrow> 0 \<le> k \<Longrightarrow> k < n \<Longrightarrow> le (el xs 0) (el xs k)"
proof (induction "nat k" arbitrary: k rule: less_induct)
  case less
  show ?case
  proof (cases "k = 0")
    case True
    then show ?thesis by (simp add: le_refl)
  next
    case False
    define p where "p = quot (k - 1) 2"
    have p: "0 \<le> p" "p < k" "child p k"
      using False less.prems child_parent [of k] by (auto simp: p_def)
    then have "le (el xs p) (el xs k)" using less.prems by (auto simp: heap_from_def)
    moreover have "le (el xs 0) (el xs p)" using less p by auto
    ultimately show ?thesis using le_trans by blast
  qed
qed

lemma initLoop_spec:
  assumes "-1 \<le> i" "i < 2 ^ 30" "n \<le> int (length (elems d))" "n \<le> 2 ^ 30" "heap_from (i + 1) n (elems d)"
  shows "\<exists>d'. initLoop I d i n = Some d' \<and> swaps 0 n (elems d) (elems d') \<and> heap_from 0 n (elems d')"
  using assms
proof (induction "nat (i + 1)" arbitrary: d i rule: less_induct)
  case less
  note unf = initLoop.simps [of I d i n]
  show ?case
  proof (cases "i \<ge> 0")
    case False
    with less.prems(1) have "i = -1" by simp
    with less.prems(5) show ?thesis by (subst unf) auto
  next
    case True
    have "down_hole i n (elems d) i"
      using less.prems(5) True by (auto simp: heap_from_def down_hole_def child_def)
    with down_spec [of i i n d] True less.prems
    obtain d1 where d1: "down I d i n = Some d1" "swaps i n (elems d) (elems d1)"
        "heap_from i n (elems d1)"
      by auto
    with less.hyps [of "i - 1" d1] True less.prems
    obtain d' where "initLoop I d1 (i - 1) n = Some d'" "swaps 0 n (elems d1) (elems d')"
        "heap_from 0 n (elems d')"
      by (auto simp: swaps_length)
    with d1(1) True swaps_mono [OF d1(2), of 0 n] show ?thesis
      by (subst unf) (auto intro: swaps_trans)
  qed
qed

lemma Init_spec:
  assumes "length (elems d) \<le> 2 ^ 30"
  shows "\<exists>d'. Init I d = Some d' \<and> mset (elems d') = mset (elems d) \<and> heap_inv lt (elems d')"
proof -
  let ?n = "int (length (elems d))"
  have n: "?n \<le> 2 ^ 30" using assms by simp
  have "\<exists>d'. initLoop I d (quot ?n 2 - 1) ?n = Some d' \<and> swaps 0 ?n (elems d) (elems d')
      \<and> heap_from 0 ?n (elems d')"
    by (rule initLoop_spec) (use n in \<open>auto simp: heap_from_def child_def\<close>)
  then show ?thesis
    using heap_from_iff swaps_length by (fastforce simp: Init_def Len_elems swaps_mset)
qed

end

text \<open>\<open>heap.Interface\<close> adds \<open>Push\<close> and \<open>Pop\<close> at the end of the collection.\<close>

locale heap_contract = sort_contract lt I elems
  for lt :: "'a \<Rightarrow> 'a \<Rightarrow> bool" and I :: "('d, 'a, 'z) HeapInterface_scheme"
    and elems :: "'d \<Rightarrow> 'a list" +
  assumes PushBack_elems: "length (elems d) + 1 < 2 ^ 31 \<Longrightarrow> \<exists>d'. PushBack I d x = Some d' \<and> elems d' = elems d @ [x]"
    and PopBack_elems: "elems d = xs @ [x] \<Longrightarrow> \<exists>d'. PopBack I d = Some (d', x) \<and> elems d' = xs"
begin

lemma Push_spec:
  assumes "heap_inv lt (elems d)" "length (elems d) + 1 < 2 ^ 31"
  shows "\<exists>d'. Push I d x = Some d' \<and> mset (elems d') = add_mset x (mset (elems d)) \<and> heap_inv lt (elems d')"
proof -
  obtain d1 where d1: "PushBack I d x = Some d1" "elems d1 = elems d @ [x]"
    using PushBack_elems [OF assms(2)] by blast
  let ?n = "int (length (elems d))"
  have h: "heap_from 0 ?n (elems d @ [x])"
    using assms(1) by (simp add: heap_from_append heap_from_iff)
  have "up_hole (?n + 1) (elems d1) ?n"
    using h unfolding d1(2) by (auto simp: up_hole_def heap_from_def child_def)
  with up_spec [of ?n "?n + 1" d1]
  obtain d' where "up I d1 ?n = Some d'" "swaps 0 (?n + 1) (elems d1) (elems d')"
      "heap_from 0 (?n + 1) (elems d')"
    by (auto simp: d1(2))
  then show ?thesis
    using d1 heap_from_iff [of "elems d'"] swaps_length [of 0 "?n + 1" "elems d1" "elems d'"]
    by (auto simp: Push_def Len_elems swaps_mset add.commute)
qed

lemma PopBack_last:
  assumes "int (length (elems d)) = n + 1" "0 \<le> n" "heap_from 0 n (elems d)"
  shows "\<exists>d'. PopBack I d = Some (d', el (elems d) n) \<and> heap_inv lt (elems d') \<and>
    mset (elems d) = add_mset (el (elems d) n) (mset (elems d'))"
proof -
  from assms have "elems d \<noteq> []" by auto
  then obtain ys y where ys: "elems d = ys @ [y]" by (metis rev_exhaust)
  with assms(1) have n: "n = int (length ys)" by simp
  obtain d' where "PopBack I d = Some (d', y)" "elems d' = ys"
    using PopBack_elems [OF ys] by blast
  moreover have "el (elems d) n = y" by (simp add: ys n el_def)
  moreover have "heap_inv lt ys"
    using assms(3) by (simp add: ys n heap_from_append heap_from_iff [symmetric])
  ultimately show ?thesis by (auto simp: ys)
qed

lemma Pop_spec:
  assumes h: "heap_inv lt (elems d)" and ne: "elems d \<noteq> []" and len: "length (elems d) \<le> 2 ^ 30"
  shows "\<exists>d' x. Pop I d = Some (d', x) \<and> x = elems d ! 0 \<and> mset (elems d) = add_mset x (mset (elems d'))
    \<and> (\<forall>y \<in> set (elems d). \<not> lt y x) \<and> heap_inv lt (elems d')"
proof -
  define n where "n = int (length (elems d)) - 1"
  have n: "0 \<le> n" "n < 2 ^ 30" using ne len by (auto simp: n_def Suc_leI)
  have h0: "heap_from 0 (n + 1) (elems d)" using h by (simp add: n_def heap_from_iff)
  have r: "in_range (elems d) 0" "in_range (elems d) n" using n by (auto simp: in_range_def n_def)
  obtain d1 where d1: "Swap I d 0 n = Some d1" "elems d1 = swapi (elems d) 0 n"
    using Swap_elems r by blast
  have "down_hole 0 n (elems d1) 0"
    using h0 n by (auto simp: down_hole_def heap_from_def d1(2) el_swapi [OF r] child_def)
  with down_spec [of 0 0 n d1] n
  obtain d2 where d2: "down I d1 0 n = Some d2" "swaps 0 n (elems d1) (elems d2)"
      "heap_from 0 n (elems d2)"
    by (auto simp: d1(2) n_def)
  have "el (elems d2) n = el (elems d) 0"
    using swaps_outside [OF d2(2), of n] n by (auto simp: d1(2) el_swapi [OF r])
  with PopBack_last [of d2 n] d2 n
  obtain d' where d': "PopBack I d2 = Some (d', el (elems d) 0)" "heap_inv lt (elems d')"
      "mset (elems d2) = add_mset (el (elems d) 0) (mset (elems d'))"
    by (auto simp: swaps_length [OF d2(2)] d1(2) n_def)
  have "\<not> lt y (el (elems d) 0)" if "y \<in> set (elems d)" for y
  proof -
    from that obtain k where "k < length (elems d)" "y = elems d ! k" by (auto simp: in_set_conv_nth)
    then show ?thesis using heap_root_min [OF h0, of "int k"] by (auto simp: n_def el_def le_def)
  qed
  with d' d1 d2(1) show ?thesis
    using swaps_mset [OF d2(2)] mset_swapi [OF r] by (auto simp: Pop_def Len_elems n_def [symmetric] el_def)
qed

text \<open>\<open>Remove\<close> puts the last element at index \<open>i\<close>; it may be too large or too small there.\<close>

lemma heap_grandchild:
  "heap_from 0 n xs \<Longrightarrow> 0 \<le> p \<Longrightarrow> child p i \<Longrightarrow> child i c \<Longrightarrow> c < n \<Longrightarrow> le (el xs p) (el xs c)"
  using child_gt [of p i] child_gt [of i c] le_trans [of "el xs p" "el xs i"]
  by (auto simp: heap_from_def)

lemma up_hole_heap: "heap_from 0 n xs \<Longrightarrow> up_hole n xs i"
  unfolding up_hole_def using heap_grandchild by (auto simp: heap_from_def)

lemma replaced_down_hole:
  assumes h: "heap_from 0 n xs" and i: "0 \<le> i" "i < n" "int (length xs) = n + 1"
    and ge: "\<forall>p. 0 \<le> p \<and> child p i \<longrightarrow> le (el xs p) (el xs n)"
  shows "down_hole 0 n (swapi xs i n) i"
proof -
  have r: "in_range xs i" "in_range xs n" using i by (auto simp: in_range_def)
  note F = el_swapi [OF r]
  show ?thesis
    unfolding down_hole_def
  proof (intro conjI allI impI)
    fix p c
    assume "0 \<le> p \<and> child p c \<and> c < n \<and> p \<noteq> i"
    then show "le (el (swapi xs i n) p) (el (swapi xs i n) c)"
      using ge h i child_gt [of p c] by (cases "c = i") (auto simp: heap_from_def F)
  next
    fix p c
    assume "0 \<le> p \<and> child p i \<and> child i c \<and> c < n"
    then show "le (el (swapi xs i n) p) (el (swapi xs i n) c)"
      using heap_grandchild [OF h, of p i c] i child_gt [of p i] child_gt [of i c] by (auto simp: F)
  qed
qed

lemma replaced_up_hole:
  assumes h: "heap_from 0 n xs" and i: "0 \<le> i" "i < n" "int (length xs) = n + 1"
    and small: "\<And>c. child i c \<Longrightarrow> c < n \<Longrightarrow> lt (el xs n) (el xs c)"
  shows "up_hole n (swapi xs i n) i"
proof -
  have r: "in_range xs i" "in_range xs n" using i by (auto simp: in_range_def)
  note F = el_swapi [OF r]
  show ?thesis
    unfolding up_hole_def
  proof (intro conjI allI impI)
    fix q c
    assume "0 \<le> q \<and> child q c \<and> c < n \<and> c \<noteq> i"
    then show "le (el (swapi xs i n) q) (el (swapi xs i n) c)"
      using h small [of c] i child_gt [of q c] by (cases "q = i") (auto simp: F heap_from_def lt_le)
  next
    fix q c
    assume "0 \<le> q \<and> child q i \<and> child i c \<and> c < n"
    then show "le (el (swapi xs i n) q) (el (swapi xs i n) c)"
      using heap_grandchild [OF h, of q i c] i child_gt [of q i] child_gt [of i c] by (auto simp: F)
  qed
qed

lemma heap_repair:
  assumes h: "heap_from 0 n xs" and i: "0 \<le> i" "i < n" "int (length xs) = n + 1" "n < 2 ^ 30"
    and d: "elems d = swapi xs i n"
  shows "\<exists>d1 d2. down I d i n = Some d1 \<and> up I d1 i = Some d2 \<and>
    swaps 0 n (elems d) (elems d2) \<and> heap_from 0 n (elems d2)"
proof (cases "\<forall>p. 0 \<le> p \<and> child p i \<longrightarrow> le (el xs p) (el xs n)")
  case True
  have len: "n \<le> int (length (elems d))" using i by (simp add: d)
  obtain d1 where d1: "down I d i n = Some d1" "swaps 0 n (elems d) (elems d1)" "heap_from 0 n (elems d1)"
    using down_spec [of 0 i n d] i len replaced_down_hole [OF h i(1-3) True] by (auto simp: d)
  with up_spec [of i n d1] up_hole_heap [OF d1(3), of i] i len show ?thesis
    by (auto simp: swaps_length intro: swaps_trans)
next
  case False
  have len: "n \<le> int (length (elems d))" using i by (simp add: d)
  have r: "in_range xs i" "in_range xs n" using i by (auto simp: in_range_def)
  from False obtain p where p: "0 \<le> p" "child p i" "lt (el xs n) (el xs p)"
    by (auto simp: le_def)
  have small: "lt (el xs n) (el xs c)" if "child i c" "c < n" for c
    using p(3) heap_grandchild [OF h p(1,2) that] negtrans by (auto simp: le_def)
  have "down I d i n = Some d"
  proof (rule down_stop)
    show "lt (el (elems d) i) (el (elems d) c)" if "child i c" "c < n" for c
      using small [OF that] child_gt [OF i(1) that(1)] that i by (auto simp: d el_swapi [OF r])
  qed (use i len in auto)
  with up_spec [of i n d] replaced_up_hole [OF h i(1-3) small] i len show ?thesis
    by (auto simp: d)
qed

lemma Remove_spec:
  assumes h: "heap_inv lt (elems d)" and i: "in_range (elems d) i" and len: "length (elems d) \<le> 2 ^ 30"
  shows "\<exists>d' x. Remove I d i = Some (d', x) \<and> x = el (elems d) i \<and> mset (elems d) = add_mset x (mset (elems d'))
    \<and> heap_inv lt (elems d')"
proof -
  define n where "n = int (length (elems d)) - 1"
  have n: "0 \<le> i" "i \<le> n" "n < 2 ^ 30" "int (length (elems d)) = n + 1"
    using i len by (auto simp: n_def in_range_def)
  have h0: "heap_from 0 n (elems d)"
    using h n_def by (auto simp: heap_from_iff [symmetric] heap_from_def)
  show ?thesis
  proof (cases "n = i")
    case True
    with PopBack_last [of d n] h0 n show ?thesis by (auto simp: Remove_def Len_elems)
  next
    case False
    have r: "in_range (elems d) i" "in_range (elems d) n" using n by (auto simp: in_range_def)
    obtain d0 where d0: "Swap I d i n = Some d0" "elems d0 = swapi (elems d) i n"
      using Swap_elems r by blast
    from heap_repair [OF h0 n(1) _ n(4,3) d0(2)] False n
    obtain d1 d2 where d2: "down I d0 i n = Some d1" "up I d1 i = Some d2"
        "swaps 0 n (elems d0) (elems d2)" "heap_from 0 n (elems d2)"
      by auto
    have "el (elems d2) n = el (elems d) i"
      using swaps_outside [OF d2(3), of n] n by (auto simp: d0(2) el_swapi [OF r])
    with PopBack_last [of d2 n] d2(4) n
    have "\<exists>d'. PopBack I d2 = Some (d', el (elems d) i) \<and> heap_inv lt (elems d') \<and>
        mset (elems d2) = add_mset (el (elems d) i) (mset (elems d'))"
      by (auto simp: swaps_length [OF d2(3)] d0(2))
    with d0 d2 False n show ?thesis
      using swaps_mset [OF d2(3)] mset_swapi [OF r] by (auto simp: Remove_def Len_elems)
  qed
qed

end

section \<open>A heap on an integer vector\<close>

text \<open>An integer vector with its \<open>Push\<close> and \<open>Pop\<close>, as \<open>myHeap\<close> of heap_test.go.\<close>

definition IntVectorHeap :: "(int vec, int) HeapInterface" where
  "IntVectorHeap = \<lparr>Len = Vector_Len, Less = IntVector_Less, Swap = Vector_Swap,
     PushBack = Vector_Push 0, PopBack = Vector_Pop 0\<rparr>"

interpretation int_heap: heap_contract "(<)" IntVectorHeap velems
  using Vector_Push_spec Vector_Pop_spec
  by unfold_locales
    (fastforce simp: IntVectorHeap_def Vector_Len_def IntVector_Less_def Vector_At_def slice_simps
      Vector_Swap_spec)+

section \<open>Properties\<close>

text \<open>
  For every collection that keeps the contract of \<open>heap.Interface\<close> and has at most
  \<open>2^30\<close> elements, \<open>Init\<close> returns, keeps the elements and establishes the heap
  invariants.
\<close>

lemma Init_establishes_heap:
  assumes "heap_contract lt I elems" "length (elems d) \<le> 2 ^ 30"
  shows "\<exists>d'. Init I d = Some d' \<and> mset (elems d') = mset (elems d) \<and> heap_inv lt (elems d')"
proof -
  have "sort_contract lt I elems" using assms(1) by (rule heap_contract.axioms)
  then show ?thesis using assms(2) by (rule sort_contract.Init_spec)
qed

text \<open>
  C5. The heap is a priority queue, for every collection that keeps the contract of \<open>heap.Interface\<close> and has at most
  \<open>2^30\<close> elements. \<open>Init\<close> makes it a heap and keeps its elements. On a heap, empty or not, \<open>Push\<close> adds one
  element; on one that is not empty, \<open>Pop\<close> returns and removes an element that no other is less than; \<open>Remove\<close> returns and
  removes the element at any index in range. All three keep the heap invariants.
\<close>

theorem heap_priority_queue:
  assumes "heap_contract lt I elems" "length (elems d) \<le> 2 ^ 30"
  shows "(\<exists>d'. Init I d = Some d' \<and> mset (elems d') = mset (elems d) \<and> heap_inv lt (elems d'))
    \<and> (heap_inv lt (elems d) \<longrightarrow>
      (\<exists>d'. Push I d x = Some d' \<and> mset (elems d') = add_mset x (mset (elems d)) \<and> heap_inv lt (elems d'))
      \<and> (elems d \<noteq> [] \<longrightarrow> (\<exists>d' m. Pop I d = Some (d', m) \<and> mset (elems d) = add_mset m (mset (elems d'))
          \<and> (\<forall>y \<in> set (elems d). \<not> lt y m) \<and> heap_inv lt (elems d')))
      \<and> (in_range (elems d) i \<longrightarrow> (\<exists>d'. Remove I d i = Some (d', el (elems d) i)
          \<and> mset (elems d) = add_mset (el (elems d) i) (mset (elems d')) \<and> heap_inv lt (elems d'))))"
proof (intro conjI impI)
  show "\<exists>d'. Init I d = Some d' \<and> mset (elems d') = mset (elems d) \<and> heap_inv lt (elems d')"
    by (rule Init_establishes_heap [OF assms])
qed (use assms(2) heap_contract.Push_spec [OF assms(1), of d x] heap_contract.Pop_spec [OF assms(1), of d]
    heap_contract.Remove_spec [OF assms(1), of d i] in force)+

theorem heap_priority_queue_witness:
  "(\<exists>v. Push IntVectorHeap \<lparr>velems = [], spare = []\<rparr> 7 = Some v \<and> mset (velems v) = {#7#}) \<and>
   (\<exists>v m. Pop IntVectorHeap \<lparr>velems = [2, 5], spare = []\<rparr> = Some (v, m) \<and>
     mset [2, 5] = add_mset m (mset (velems v)) \<and> (\<forall>y \<in> {2, 5}. \<not> y < m) \<and> heap_inv (<) (velems v))"
proof -
  have h: "heap_inv (<) [2, 5::int]" "heap_inv (<) ([] :: int list)" by (auto simp: heap_inv_def nth_Cons')
  show ?thesis
    using heap_priority_queue [OF int_heap.heap_contract_axioms, of "\<lparr>velems = [2, 5], spare = []\<rparr>" 7 0]
      heap_priority_queue [OF int_heap.heap_contract_axioms, of "\<lparr>velems = [], spare = []\<rparr>" 7 0] h
    by (simp add: in_range_def) blast
qed

text \<open>
  C6. The child index of \<open>down\<close> overflows the 32-bit \<open>int\<close>: \<open>Remove\<close> of an index of
  at least \<open>2^30\<close>, other than the last, panics on a vector although the index is valid.
\<close>

theorem Remove_large_index_panics:
  assumes "2 ^ 30 \<le> i" "i < int (length (velems v)) - 1" "int (length (velems v)) < 2 ^ 31"
  shows "Remove IntVectorHeap v i = None"
proof -
  define n where "n = int (length (velems v)) - 1"
  define j where "j = int32 (2 * i + 1)"
  have j: "j = 2 * i + 1 - 2 ^ 32"
    using assms unfolding j_def by (intro int32_wrap) auto
  have "down IntVectorHeap w i n = None" for w
  proof -
    have "j < n" "j < 0" "int32 (j + 1) < n" using assms by (auto simp: j n_def)
    then show ?thesis
      by (subst down.simps) (simp add: j_def [symmetric] Let_def IntVectorHeap_def IntVector_Less_def
          Vector_At_def slice_at_def)
  qed
  then show ?thesis
    using assms by (auto simp: Remove_def Let_def IntVectorHeap_def Vector_Len_def n_def
        split: Option.bind_splits)
qed

theorem Remove_large_index_panics_witness:
  "Remove IntVectorHeap \<lparr>velems = replicate (2 ^ 30 + 2) 0, spare = []\<rparr> (2 ^ 30) = None"
  using Remove_large_index_panics [of "2 ^ 30" "\<lparr>velems = replicate (2 ^ 30 + 2) 0, spare = []\<rparr>"]
  by simp

end
