(* ===== verification/Go_Store.thy ===== *)
theory Go_Store
  imports Go_Prelude
begin

text \<open>
  Pointers and doubly linked segments, shared by the models of \<open>container/list\<close> and
  \<open>container/ring\<close>. A pointer is an address or \<open>None\<close> for \<open>nil\<close>; a store maps addresses
  to structs. The link fields are passed as the accessors \<open>nx\<close> and \<open>pv\<close>.
\<close>

type_synonym addr = nat
type_synonym ptr = "addr option"

definition hd_or :: "addr list \<Rightarrow> ptr \<Rightarrow> ptr" where
  "hd_or xs q = (if xs = [] then q else Some (hd xs))"

definition last_or :: "addr list \<Rightarrow> ptr \<Rightarrow> ptr" where
  "last_or xs p = (if xs = [] then p else Some (last xs))"

text \<open>A doubly linked segment \<open>as\<close>, entered from \<open>p\<close> and left to \<open>q\<close>.\<close>

fun dll :: "('e \<Rightarrow> ptr) \<Rightarrow> ('e \<Rightarrow> ptr) \<Rightarrow> (addr \<Rightarrow> 'e option) \<Rightarrow> ptr \<Rightarrow> addr list \<Rightarrow> ptr \<Rightarrow> bool" where
  "dll nx pv h p [] q \<longleftrightarrow> True"
| "dll nx pv h p (a # as) q \<longleftrightarrow>
     (case h a of None \<Rightarrow> False | Some E \<Rightarrow> pv E = p \<and> nx E = hd_or as q) \<and> dll nx pv h (Some a) as q"

lemma hd_or_simps [simp]: "hd_or [] q = q" "hd_or (a # as) q = Some a" "hd_or (xs @ ys) q = hd_or xs (hd_or ys q)"
  by (auto simp: hd_or_def)

lemma last_or_simps [simp]: "last_or [] p = p" "last_or (xs @ [x]) p = Some x"
    "last_or (x # xs) p = last_or xs (Some x)" "last_or (xs @ ys) p = last_or ys (last_or xs p)"
  by (auto simp: last_or_def)

lemma dll_append [simp]:
  "dll nx pv h p (xs @ ys) q \<longleftrightarrow> dll nx pv h p xs (hd_or ys q) \<and> dll nx pv h (last_or xs p) ys q"
  by (induction xs arbitrary: p) (auto split: option.splits)

lemma dll_frame [simp]: "a \<notin> set as \<Longrightarrow> dll nx pv (h(a := x)) p as q = dll nx pv h p as q"
  by (induction as arbitrary: p) auto

lemma dll_alloc: "dll nx pv h p as q \<Longrightarrow> a \<in> set as \<Longrightarrow> h a \<noteq> None"
  by (induction as arbitrary: p) (auto split: option.splits)

lemma dll_Cons:
  "dll nx pv h p (a # as) q \<longleftrightarrow> (\<exists>E. h a = Some E \<and> pv E = p \<and> nx E = hd_or as q) \<and> dll nx pv h (Some a) as q"
  by (auto split: option.splits)

lemma dll_cong: "(\<And>a. a \<in> set as \<Longrightarrow> h a = h' a) \<Longrightarrow> dll nx pv h p as q = dll nx pv h' p as q"
  by (induction as arbitrary: p) auto

declare dll.simps(2) [simp del]

lemma dll_unique:
  "dll nx pv h p as None \<Longrightarrow> dll nx pv h p bs None \<Longrightarrow> hd_or as None = hd_or bs None \<Longrightarrow> as = bs"
proof (induction as arbitrary: p bs)
  case Nil
  then show ?case by (cases bs) auto
next
  case (Cons x xs)
  then show ?case by (cases bs) (auto simp: dll_Cons)
qed

lemma dll_nth:
  assumes "dll nx pv h p as q" "i < length as"
  shows "\<exists>E. h (as ! i) = Some E \<and> nx E = (if Suc i < length as then Some (as ! Suc i) else q) \<and>
    pv E = (if i = 0 then p else Some (as ! (i - 1)))"
  using assms
proof (induction as arbitrary: p i)
  case (Cons a as)
  then show ?case
    by (cases i; cases as) (fastforce simp: dll_Cons)+
qed simp

end
