(* ===== verification/Container_List.thy ===== *)
theory Container_List
  imports Go_Store
begin

text \<open>
  Package \<open>container/list\<close> (src/go/src/pkg/container/list/list.go): doubly linked lists.

  Elements and lists are objects that point to each other, so the model has an explicit
  store: two maps from addresses to \<open>Element\<close> and \<open>List\<close> structs. A pointer is an
  \<open>addr option\<close> with \<open>None\<close> for \<open>nil\<close>; an operation returns \<open>None\<close> where
  the code dereferences \<open>nil\<close>. The theorems relate the store to a list of addresses
  (\<open>list_repr\<close>), for each operation and for every other list in the store.
\<close>

section \<open>The model\<close>

record 'v Element =
  enext :: ptr
  eprev :: ptr
  elist :: ptr
  Value :: 'v

record List =
  lfront :: ptr
  lback :: ptr
  llen :: int

record 'v store =
  eheap :: "addr \<Rightarrow> 'v Element option"
  lheap :: "addr \<Rightarrow> List option"

definition eget :: "'v store \<Rightarrow> ptr \<Rightarrow> 'v Element option" where
  "eget s p = do { a \<leftarrow> p; eheap s a }"

definition lget :: "'v store \<Rightarrow> ptr \<Rightarrow> List option" where
  "lget s p = do { a \<leftarrow> p; lheap s a }"

definition eset :: "'v store \<Rightarrow> ptr \<Rightarrow> ('v Element \<Rightarrow> 'v Element) \<Rightarrow> 'v store option" where
  "eset s p f = do { a \<leftarrow> p; E \<leftarrow> eheap s a; Some (s\<lparr>eheap := (eheap s)(a \<mapsto> f E)\<rparr>) }"

definition lset :: "'v store \<Rightarrow> ptr \<Rightarrow> (List \<Rightarrow> List) \<Rightarrow> 'v store option" where
  "lset s p f = do { a \<leftarrow> p; L \<leftarrow> lheap s a; Some (s\<lparr>lheap := (lheap s)(a \<mapsto> f L)\<rparr>) }"

definition Next :: "'v store \<Rightarrow> ptr \<Rightarrow> ptr option" where
  "Next s e = do { E \<leftarrow> eget s e; Some (enext E) }"

definition Prev :: "'v store \<Rightarrow> ptr \<Rightarrow> ptr option" where
  "Prev s e = do { E \<leftarrow> eget s e; Some (eprev E) }"

definition Init_list :: "'v store \<Rightarrow> ptr \<Rightarrow> ('v store \<times> ptr) option" where
  "Init_list s l = do {
     s \<leftarrow> lset s l (\<lambda>L. L\<lparr>lfront := None\<rparr>);
     s \<leftarrow> lset s l (\<lambda>L. L\<lparr>lback := None\<rparr>);
     s \<leftarrow> lset s l (\<lambda>L. L\<lparr>llen := 0\<rparr>);
     Some (s, l) }"

text \<open>Allocation takes the address \<open>a\<close>; the theorems assume that it is not in use.\<close>

definition New_list :: "'v store \<Rightarrow> addr \<Rightarrow> 'v store \<times> ptr" where
  "New_list s a = (s\<lparr>lheap := (lheap s)(a \<mapsto> \<lparr>lfront = None, lback = None, llen = 0\<rparr>)\<rparr>, Some a)"

definition Front :: "'v store \<Rightarrow> ptr \<Rightarrow> ptr option" where
  "Front s l = do { L \<leftarrow> lget s l; Some (lfront L) }"

definition Back :: "'v store \<Rightarrow> ptr \<Rightarrow> ptr option" where
  "Back s l = do { L \<leftarrow> lget s l; Some (lback L) }"

definition remove_elem :: "'v store \<Rightarrow> ptr \<Rightarrow> ptr \<Rightarrow> 'v store option" where
  "remove_elem s l e = do {
     E \<leftarrow> eget s e;
     if elist E \<noteq> l then Some s
     else do {
       s \<leftarrow> (if eprev E = None then lset s l (\<lambda>L. L\<lparr>lfront := enext E\<rparr>)
             else eset s (eprev E) (\<lambda>P. P\<lparr>enext := enext E\<rparr>));
       E \<leftarrow> eget s e;
       s \<leftarrow> (if enext E = None then lset s l (\<lambda>L. L\<lparr>lback := eprev E\<rparr>)
             else eset s (enext E) (\<lambda>N. N\<lparr>eprev := eprev E\<rparr>));
       s \<leftarrow> eset s e (\<lambda>E. E\<lparr>eprev := None\<rparr>);
       s \<leftarrow> eset s e (\<lambda>E. E\<lparr>enext := None\<rparr>);
       lset s l (\<lambda>L. L\<lparr>llen := llen L - 1\<rparr>) } }"

definition Remove_elem :: "'v store \<Rightarrow> ptr \<Rightarrow> ptr \<Rightarrow> ('v store \<times> 'v) option" where
  "Remove_elem s l e = do {
     s \<leftarrow> remove_elem s l e;
     s \<leftarrow> eset s e (\<lambda>E. E\<lparr>elist := None\<rparr>);
     E \<leftarrow> eget s e;
     Some (s, Value E) }"

definition insertBefore :: "'v store \<Rightarrow> ptr \<Rightarrow> ptr \<Rightarrow> ptr \<Rightarrow> 'v store option" where
  "insertBefore s l e mark = do {
     M \<leftarrow> eget s mark;
     s \<leftarrow> (if eprev M = None then lset s l (\<lambda>L. L\<lparr>lfront := e\<rparr>)
           else eset s (eprev M) (\<lambda>P. P\<lparr>enext := e\<rparr>));
     M \<leftarrow> eget s mark;
     s \<leftarrow> eset s e (\<lambda>E. E\<lparr>eprev := eprev M\<rparr>);
     s \<leftarrow> eset s mark (\<lambda>M. M\<lparr>eprev := e\<rparr>);
     s \<leftarrow> eset s e (\<lambda>E. E\<lparr>enext := mark\<rparr>);
     lset s l (\<lambda>L. L\<lparr>llen := llen L + 1\<rparr>) }"

definition insertAfter :: "'v store \<Rightarrow> ptr \<Rightarrow> ptr \<Rightarrow> ptr \<Rightarrow> 'v store option" where
  "insertAfter s l e mark = do {
     M \<leftarrow> eget s mark;
     s \<leftarrow> (if enext M = None then lset s l (\<lambda>L. L\<lparr>lback := e\<rparr>)
           else eset s (enext M) (\<lambda>N. N\<lparr>eprev := e\<rparr>));
     M \<leftarrow> eget s mark;
     s \<leftarrow> eset s e (\<lambda>E. E\<lparr>enext := enext M\<rparr>);
     s \<leftarrow> eset s mark (\<lambda>M. M\<lparr>enext := e\<rparr>);
     s \<leftarrow> eset s e (\<lambda>E. E\<lparr>eprev := mark\<rparr>);
     lset s l (\<lambda>L. L\<lparr>llen := llen L + 1\<rparr>) }"

text \<open>The code of the first insertion, the same in \<open>insertFront\<close> and \<open>insertBack\<close>.\<close>

definition insertFirst :: "'v store \<Rightarrow> ptr \<Rightarrow> ptr \<Rightarrow> 'v store option" where
  "insertFirst s l e = do {
     s \<leftarrow> lset s l (\<lambda>L. L\<lparr>lfront := e, lback := e\<rparr>);
     s \<leftarrow> eset s e (\<lambda>E. E\<lparr>eprev := None, enext := None\<rparr>);
     lset s l (\<lambda>L. L\<lparr>llen := 1\<rparr>) }"

definition insertFront :: "'v store \<Rightarrow> ptr \<Rightarrow> ptr \<Rightarrow> 'v store option" where
  "insertFront s l e = do {
     L \<leftarrow> lget s l;
     if lfront L = None then insertFirst s l e else insertBefore s l e (lfront L) }"

definition insertBack :: "'v store \<Rightarrow> ptr \<Rightarrow> ptr \<Rightarrow> 'v store option" where
  "insertBack s l e = do {
     L \<leftarrow> lget s l;
     if lback L = None then insertFirst s l e else insertAfter s l e (lback L) }"

definition newElement :: "'v store \<Rightarrow> addr \<Rightarrow> ptr \<Rightarrow> 'v \<Rightarrow> 'v store" where
  "newElement s a l v =
     s\<lparr>eheap := (eheap s)(a \<mapsto> \<lparr>enext = None, eprev = None, elist = l, Value = v\<rparr>)\<rparr>"

definition PushFront :: "'v store \<Rightarrow> addr \<Rightarrow> ptr \<Rightarrow> 'v \<Rightarrow> ('v store \<times> ptr) option" where
  "PushFront s a l v = do { s \<leftarrow> insertFront (newElement s a l v) l (Some a); Some (s, Some a) }"

definition PushBack_list :: "'v store \<Rightarrow> addr \<Rightarrow> ptr \<Rightarrow> 'v \<Rightarrow> ('v store \<times> ptr) option" where
  "PushBack_list s a l v = do { s \<leftarrow> insertBack (newElement s a l v) l (Some a); Some (s, Some a) }"

definition InsertBefore :: "'v store \<Rightarrow> addr \<Rightarrow> ptr \<Rightarrow> 'v \<Rightarrow> ptr \<Rightarrow> ('v store \<times> ptr) option" where
  "InsertBefore s a l v mark = do {
     M \<leftarrow> eget s mark;
     if elist M \<noteq> l then Some (s, None)
     else do { s \<leftarrow> insertBefore (newElement s a l v) l (Some a) mark; Some (s, Some a) } }"

definition InsertAfter :: "'v store \<Rightarrow> addr \<Rightarrow> ptr \<Rightarrow> 'v \<Rightarrow> ptr \<Rightarrow> ('v store \<times> ptr) option" where
  "InsertAfter s a l v mark = do {
     M \<leftarrow> eget s mark;
     if elist M \<noteq> l then Some (s, None)
     else do { s \<leftarrow> insertAfter (newElement s a l v) l (Some a) mark; Some (s, Some a) } }"

definition MoveToFront :: "'v store \<Rightarrow> ptr \<Rightarrow> ptr \<Rightarrow> 'v store option" where
  "MoveToFront s l e = do {
     E \<leftarrow> eget s e;
     if elist E \<noteq> l then Some s
     else do {
       L \<leftarrow> lget s l;
       if lfront L = e then Some s
       else do { s \<leftarrow> remove_elem s l e; insertFront s l e } } }"

definition MoveToBack :: "'v store \<Rightarrow> ptr \<Rightarrow> ptr \<Rightarrow> 'v store option" where
  "MoveToBack s l e = do {
     E \<leftarrow> eget s e;
     if elist E \<noteq> l then Some s
     else do {
       L \<leftarrow> lget s l;
       if lback L = e then Some s
       else do { s \<leftarrow> remove_elem s l e; insertBack s l e } } }"

definition Len_list :: "'v store \<Rightarrow> ptr \<Rightarrow> int option" where
  "Len_list s l = do { L \<leftarrow> lget s l; Some (llen L) }"

text \<open>The loops allocate one element per iteration, at the addresses \<open>a\<close>, \<open>a + 1\<close>, ...\<close>

partial_function (option) pushBackListLoop ::
  "'v store \<Rightarrow> addr \<Rightarrow> ptr \<Rightarrow> ptr \<Rightarrow> ptr \<Rightarrow> 'v store option" where
  "pushBackListLoop s a l lst e =
     (if e = None then Some s
      else do {
        E \<leftarrow> eget s e;
        (s, _) \<leftarrow> PushBack_list s a l (Value E);
        if e = lst then Some s
        else do { e \<leftarrow> Next s e; pushBackListLoop s (a + 1) l lst e } })"

definition PushBackList :: "'v store \<Rightarrow> addr \<Rightarrow> ptr \<Rightarrow> ptr \<Rightarrow> 'v store option" where
  "PushBackList s a l ol = do {
     lst \<leftarrow> Back s ol;
     e \<leftarrow> Front s ol;
     pushBackListLoop s a l lst e }"

partial_function (option) pushFrontListLoop ::
  "'v store \<Rightarrow> addr \<Rightarrow> ptr \<Rightarrow> ptr \<Rightarrow> ptr \<Rightarrow> 'v store option" where
  "pushFrontListLoop s a l first e =
     (if e = None then Some s
      else do {
        E \<leftarrow> eget s e;
        (s, _) \<leftarrow> PushFront s a l (Value E);
        if e = first then Some s
        else do { e \<leftarrow> Prev s e; pushFrontListLoop s (a + 1) l first e } })"

definition PushFrontList :: "'v store \<Rightarrow> addr \<Rightarrow> ptr \<Rightarrow> ptr \<Rightarrow> 'v store option" where
  "PushFrontList s a l ol = do {
     first \<leftarrow> Front s ol;
     e \<leftarrow> Back s ol;
     pushFrontListLoop s a l first e }"

section \<open>The representation invariant\<close>

definition linked :: "'v store \<Rightarrow> addr \<Rightarrow> addr list \<Rightarrow> bool" where
  "linked s l as \<longleftrightarrow>
     distinct as \<and> dll enext eprev (eheap s) None as None \<and>
     lheap s l = Some \<lparr>lfront = hd_or as None, lback = last_or as None, llen = int (length as)\<rparr>"

text \<open>
  \<open>list_repr s l as\<close>: the list at \<open>l\<close> consists of the elements at \<open>as\<close>, and these are
  the elements whose \<open>list\<close> field is \<open>l\<close>.
\<close>

definition list_repr :: "'v store \<Rightarrow> addr \<Rightarrow> addr list \<Rightarrow> bool" where
  "list_repr s l as \<longleftrightarrow>
     linked s l as \<and> (\<forall>a E. eheap s a = Some E \<longrightarrow> (elist E = Some l \<longleftrightarrow> a \<in> set as))"

definition vals :: "'v store \<Rightarrow> addr list \<Rightarrow> 'v list" where
  "vals s as = map (\<lambda>a. Value (the (eheap s a))) as"

text \<open>What the pointer updates of one list leave alone.\<close>

definition keeps :: "'v store \<Rightarrow> 'v store \<Rightarrow> addr \<Rightarrow> addr set \<Rightarrow> bool" where
  "keeps s s' l A \<longleftrightarrow>
     (\<forall>a. a \<notin> A \<longrightarrow> eheap s' a = eheap s a) \<and>
     (\<forall>a. map_option elist (eheap s' a) = map_option elist (eheap s a)) \<and>
     (\<forall>a. map_option Value (eheap s' a) = map_option Value (eheap s a)) \<and>
     (\<forall>k. k \<noteq> l \<longrightarrow> lheap s' k = lheap s k)"

lemmas store_defs = eget_def eset_def lget_def lset_def

lemma insertBefore_spec:
  assumes "linked s l (xs @ m # ys)" "e \<notin> set (xs @ m # ys)" "eheap s e = Some E"
  shows "\<exists>s'. insertBefore s (Some l) (Some e) (Some m) = Some s' \<and> linked s' l (xs @ e # m # ys)
    \<and> keeps s s' l (insert e (set (xs @ m # ys)))"
  using assms
  by (cases xs rule: rev_cases)
    (auto simp: linked_def insertBefore_def store_defs keeps_def dll_Cons)

lemma insertAfter_spec:
  assumes "linked s l (xs @ m # ys)" "e \<notin> set (xs @ m # ys)" "eheap s e = Some E"
  shows "\<exists>s'. insertAfter s (Some l) (Some e) (Some m) = Some s' \<and> linked s' l (xs @ m # e # ys)
    \<and> keeps s s' l (insert e (set (xs @ m # ys)))"
  using assms
  by (cases ys) (auto simp: linked_def insertAfter_def store_defs keeps_def dll_Cons)

lemma insertFirst_spec:
  assumes "linked s l []" "eheap s e = Some E"
  shows "\<exists>s'. insertFirst s (Some l) (Some e) = Some s' \<and> linked s' l [e] \<and> keeps s s' l {e}"
  using assms by (auto simp: linked_def insertFirst_def store_defs keeps_def dll_Cons)

lemma remove_spec:
  assumes "linked s l (xs @ e # ys)" "eheap s e = Some E" "elist E = Some l"
  shows "\<exists>s'. remove_elem s (Some l) (Some e) = Some s' \<and> linked s' l (xs @ ys)
    \<and> keeps s s' l (set (xs @ e # ys)) \<and> (\<exists>E'. eheap s' e = Some E')"
  using assms
  by (cases xs rule: rev_cases; cases ys)
    (auto simp: linked_def remove_elem_def store_defs keeps_def dll_Cons)

text \<open>The other lists of the store, and their values, are unaffected.\<close>

definition frame :: "'v store \<Rightarrow> 'v store \<Rightarrow> addr \<Rightarrow> bool" where
  "frame s s' l \<longleftrightarrow>
     (\<forall>k bs. k \<noteq> l \<longrightarrow> list_repr s k bs \<longrightarrow> list_repr s' k bs \<and> vals s' bs = vals s bs)"

lemma repr_alloc: "list_repr s l as \<Longrightarrow> a \<in> set as \<Longrightarrow> \<exists>E. eheap s a = Some E \<and> elist E = Some l"
  using dll_alloc by (fastforce simp: list_repr_def linked_def)

lemma frame_refl [simp]: "frame s s l"
  by (simp add: frame_def)

lemma frame_trans: "frame s s' l \<Longrightarrow> frame s' s'' l \<Longrightarrow> frame s s'' l"
  by (simp add: frame_def)

lemma vals_cong:
  "(\<And>a. a \<in> set as \<Longrightarrow> map_option Value (eheap s' a) = map_option Value (eheap s a)) \<Longrightarrow>
   (\<And>a. a \<in> set as \<Longrightarrow> eheap s a \<noteq> None) \<Longrightarrow> vals s' as = vals s as"
  by (fastforce simp: vals_def)

lemma repr_vals_keeps: "keeps s s' l A \<Longrightarrow> list_repr s k as \<Longrightarrow> vals s' as = vals s as"
  by (rule vals_cong) (auto simp: keeps_def dest: repr_alloc)

lemma keeps_elist: "keeps s s' l A \<Longrightarrow> eheap s' a = Some E' \<Longrightarrow> \<exists>E. eheap s a = Some E \<and> elist E' = elist E"
  unfolding keeps_def by (cases "eheap s a") (metis option.simps(3) option.map_disc_iff, metis option.simps(9) option.inject)

lemma keeps_repr_other:
  assumes "keeps s s' l A" "k \<noteq> l" "list_repr s k bs" "A \<inter> set bs = {}"
  shows "list_repr s' k bs"
proof -
  have "dll enext eprev (eheap s') None bs None = dll enext eprev (eheap s) None bs None"
    using assms(1,4) by (intro dll_cong) (auto simp: keeps_def)
  moreover have "lheap s' k = lheap s k" using assms(1,2) by (simp add: keeps_def)
  moreover have "elist E = Some k \<longleftrightarrow> a \<in> set bs" if "eheap s' a = Some E" for a E
    using keeps_elist [OF assms(1) that] assms(3) by (fastforce simp: list_repr_def)
  ultimately show ?thesis using assms(3) by (simp add: list_repr_def linked_def)
qed

lemma keeps_repr_self:
  assumes "keeps s s' l A" "linked s' l as'"
    and "\<forall>a E. eheap s a = Some E \<longrightarrow> (elist E = Some l \<longleftrightarrow> a \<in> set as')"
  shows "list_repr s' l as'"
  using assms keeps_elist [OF assms(1)] by (fastforce simp: list_repr_def)

lemma keeps_frame:
  assumes "keeps s s' l A" "\<And>a. a \<in> A \<Longrightarrow> \<exists>E. eheap s a = Some E \<and> elist E = Some l"
  shows "frame s s' l"
  unfolding frame_def
proof (intro allI impI conjI)
  fix k bs
  assume k: "k \<noteq> l" "list_repr s k bs"
  have "A \<inter> set bs = {}" using assms(2) k repr_alloc [OF k(2)] by fastforce
  with assms(1) k show "list_repr s' k bs" by (rule keeps_repr_other)
  from assms(1) k(2) show "vals s' bs = vals s bs" by (rule repr_vals_keeps)
qed

lemma new_linked:
  assumes "list_repr s l as" "eheap s a = None"
  shows "linked (newElement s a k v) l as" "a \<notin> set as"
proof -
  show "a \<notin> set as" using assms by (auto dest: repr_alloc)
  with assms(1) show "linked (newElement s a k v) l as"
    by (simp add: list_repr_def linked_def newElement_def)
qed

lemma new_frame: "eheap s a = None \<Longrightarrow> frame s (newElement s a (Some l) v) l"
proof -
  assume a: "eheap s a = None"
  have "list_repr (newElement s a (Some l) v) k bs \<and> vals (newElement s a (Some l) v) bs = vals s bs"
    if k: "k \<noteq> l" "list_repr s k bs" for k bs
  proof -
    have "vals (newElement s a (Some l) v) bs = vals s bs"
      using new_linked(2) [OF k(2) a] by (auto simp: vals_def newElement_def)
    then show ?thesis
      using k new_linked [OF k(2) a] a by (auto simp: list_repr_def newElement_def)
  qed
  then show ?thesis by (simp add: frame_def)
qed

text \<open>The common end of the operations that insert a new element.\<close>

lemma insert_new:
  assumes r: "list_repr s l as" and a: "eheap s a = None"
    and k: "keeps (newElement s a (Some l) v) s' l (insert a (set as))"
    and l: "linked s' l as'" "set as' = insert a (set as)"
  shows "list_repr s' l as' \<and> vals s' [a] = [v] \<and> vals s' as = vals s as \<and> frame s s' l \<and>
    (\<forall>b > a. eheap s b = None \<longrightarrow> eheap s' b = None)"
proof (intro conjI)
  let ?s = "newElement s a (Some l) v"
  have own: "\<forall>b E. eheap ?s b = Some E \<longrightarrow> (elist E = Some l \<longleftrightarrow> b \<in> set as')"
    using r l(2) by (auto simp: list_repr_def newElement_def)
  show "list_repr s' l as'" using k l(1) own by (rule keeps_repr_self)
  have "map_option Value (eheap s' a) = Some v" using k by (simp add: keeps_def newElement_def)
  then show "vals s' [a] = [v]" by (auto simp: vals_def)
  show "vals s' as = vals s as"
    using k new_linked(2) [OF r a] r
    by (intro vals_cong) (auto simp: keeps_def newElement_def dest: repr_alloc)
  have "frame ?s s' l"
    using k by (rule keeps_frame) (use r in \<open>auto simp: newElement_def dest: repr_alloc\<close>)
  with new_frame [OF a] show "frame s s' l" by (rule frame_trans)
  show "\<forall>b > a. eheap s b = None \<longrightarrow> eheap s' b = None"
  proof (intro allI impI)
    fix b
    assume b: "b > a" "eheap s b = None"
    then have "b \<notin> insert a (set as)" using repr_alloc [OF r, of b] by auto
    with k b show "eheap s' b = None" by (simp add: keeps_def newElement_def)
  qed
qed

text \<open>The common end of the operations that relink an element of the list.\<close>

lemma relink:
  assumes r: "list_repr s l as" and k: "keeps s s' l (set as)"
    and l: "linked s' l as'" "set as' = set as"
  shows "list_repr s' l as' \<and> vals s' as' = vals s as' \<and> frame s s' l"
proof (intro conjI)
  show "list_repr s' l as'"
    using k l(1) by (rule keeps_repr_self) (use r l(2) in \<open>auto simp: list_repr_def\<close>)
  show "vals s' as' = vals s as'"
    using k r l(2) by (intro vals_cong) (auto simp: keeps_def dest: repr_alloc)
  show "frame s s' l" using k by (rule keeps_frame) (use r in \<open>auto dest: repr_alloc\<close>)
qed

lemma insertFront_spec:
  assumes "linked s l as" "e \<notin> set as" "eheap s e = Some E"
  shows "\<exists>s'. insertFront s (Some l) (Some e) = Some s' \<and> linked s' l (e # as) \<and> keeps s s' l (insert e (set as))"
proof (cases as)
  case Nil
  with assms insertFirst_spec [of s l e E] show ?thesis
    by (auto simp: insertFront_def lget_def linked_def)
next
  case (Cons m ys)
  with assms insertBefore_spec [of s l "[]" m ys e E] show ?thesis
    by (auto simp: insertFront_def lget_def linked_def)
qed

lemma insertBack_spec:
  assumes "linked s l as" "e \<notin> set as" "eheap s e = Some E"
  shows "\<exists>s'. insertBack s (Some l) (Some e) = Some s' \<and> linked s' l (as @ [e]) \<and> keeps s s' l (insert e (set as))"
proof (cases as rule: rev_cases)
  case Nil
  with assms insertFirst_spec [of s l e E] show ?thesis
    by (auto simp: insertBack_def lget_def linked_def)
next
  case (snoc xs m)
  with assms insertAfter_spec [of s l xs m "[]" e E] show ?thesis
    by (auto simp: insertBack_def lget_def linked_def)
qed

lemma newElement_at [simp]: "eheap (newElement s a l v) a = Some \<lparr>enext = None, eprev = None, elist = l, Value = v\<rparr>"
  by (simp add: newElement_def)

lemma PushFront_spec:
  assumes "list_repr s l as" "eheap s a = None"
  shows "\<exists>s'. PushFront s a (Some l) v = Some (s', Some a) \<and> list_repr s' l (a # as) \<and>
    vals s' (a # as) = v # vals s as \<and> frame s s' l
    \<and> (\<forall>b > a. eheap s b = None \<longrightarrow> eheap s' b = None)"
proof -
  from insertFront_spec [OF new_linked(1) [OF assms, of "Some l" v] new_linked(2) [OF assms]]
  obtain s' where s': "insertFront (newElement s a (Some l) v) (Some l) (Some a) = Some s'"
      "linked s' l (a # as)" "keeps (newElement s a (Some l) v) s' l (insert a (set as))"
    by auto
  with insert_new [OF assms s'(3,2)] show ?thesis
    by (auto simp: PushFront_def vals_def)
qed

lemma PushBack_spec:
  assumes "list_repr s l as" "eheap s a = None"
  shows "\<exists>s'. PushBack_list s a (Some l) v = Some (s', Some a) \<and> list_repr s' l (as @ [a]) \<and>
    vals s' (as @ [a]) = vals s as @ [v] \<and> frame s s' l
    \<and> (\<forall>b > a. eheap s b = None \<longrightarrow> eheap s' b = None)"
proof -
  from insertBack_spec [OF new_linked(1) [OF assms, of "Some l" v] new_linked(2) [OF assms]]
  obtain s' where s': "insertBack (newElement s a (Some l) v) (Some l) (Some a) = Some s'"
      "linked s' l (as @ [a])" "keeps (newElement s a (Some l) v) s' l (insert a (set as))"
    by auto
  with insert_new [OF assms s'(3,2)] show ?thesis
    by (auto simp: PushBack_list_def vals_def)
qed

lemma InsertBefore_spec:
  assumes "list_repr s l (xs @ m # ys)" "eheap s a = None"
  shows "\<exists>s'. InsertBefore s a (Some l) v (Some m) = Some (s', Some a) \<and> list_repr s' l (xs @ a # m # ys) \<and>
    vals s' (xs @ a # m # ys) = vals s xs @ v # vals s (m # ys) \<and> frame s s' l"
proof -
  from insertBefore_spec [OF new_linked(1) [OF assms, of "Some l" v] new_linked(2) [OF assms]]
  obtain s' where s': "insertBefore (newElement s a (Some l) v) (Some l) (Some a) (Some m) = Some s'"
      "linked s' l (xs @ a # m # ys)"
      "keeps (newElement s a (Some l) v) s' l (insert a (set (xs @ m # ys)))"
    by auto
  moreover obtain M where "eheap s m = Some M" "elist M = Some l"
    using repr_alloc [OF assms(1), of m] by auto
  ultimately show ?thesis
    using insert_new [OF assms s'(3,2)] by (auto simp: InsertBefore_def vals_def eget_def)
qed

lemma InsertAfter_spec:
  assumes "list_repr s l (xs @ m # ys)" "eheap s a = None"
  shows "\<exists>s'. InsertAfter s a (Some l) v (Some m) = Some (s', Some a) \<and> list_repr s' l (xs @ m # a # ys) \<and>
    vals s' (xs @ m # a # ys) = vals s (xs @ [m]) @ v # vals s ys \<and> frame s s' l"
proof -
  from insertAfter_spec [OF new_linked(1) [OF assms, of "Some l" v] new_linked(2) [OF assms]]
  obtain s' where s': "insertAfter (newElement s a (Some l) v) (Some l) (Some a) (Some m) = Some s'"
      "linked s' l (xs @ m # a # ys)"
      "keeps (newElement s a (Some l) v) s' l (insert a (set (xs @ m # ys)))"
    by auto
  moreover obtain M where "eheap s m = Some M" "elist M = Some l"
    using repr_alloc [OF assms(1), of m] by auto
  ultimately show ?thesis
    using insert_new [OF assms s'(3,2)] by (auto simp: InsertAfter_def vals_def eget_def)
qed

lemma Insert_foreign:
  assumes "eheap s m = Some M" "elist M \<noteq> l"
  shows "InsertBefore s a l v (Some m) = Some (s, None)" "InsertAfter s a l v (Some m) = Some (s, None)"
  using assms by (simp_all add: InsertBefore_def InsertAfter_def eget_def)

lemma keeps_mono: "keeps s s' l A \<Longrightarrow> A \<subseteq> B \<Longrightarrow> keeps s s' l B"
  by (auto simp: keeps_def)

lemma keeps_trans: "keeps s s' l A \<Longrightarrow> keeps s' s'' l A \<Longrightarrow> keeps s s'' l A"
  by (simp add: keeps_def)

lemma Remove_elem_spec:
  assumes r: "list_repr s l (xs @ e # ys)"
  shows "\<exists>s'. Remove_elem s (Some l) (Some e) = Some (s', Value (the (eheap s e))) \<and> list_repr s' l (xs @ ys) \<and>
    vals s' (xs @ ys) = vals s xs @ vals s ys \<and> frame s s' l"
proof -
  obtain E where E: "eheap s e = Some E" "elist E = Some l" using repr_alloc [OF r] by auto
  obtain s1 E1 where s1: "remove_elem s (Some l) (Some e) = Some s1" "linked s1 l (xs @ ys)"
      "keeps s s1 l (set (xs @ e # ys))" "eheap s1 e = Some E1"
    using remove_spec [of s l xs e ys E] r E by (auto simp: list_repr_def)
  let ?s = "s1\<lparr>eheap := (eheap s1)(e \<mapsto> E1\<lparr>elist := None\<rparr>)\<rparr>"
  have e: "e \<notin> set (xs @ ys)" using r by (auto simp: list_repr_def linked_def)
  have "Value E1 = Value E" using s1(3,4) E by (auto simp: keeps_def dest: spec [of _ e])
  then have "Remove_elem s (Some l) (Some e) = Some (?s, Value (the (eheap s e)))"
    using s1 E by (simp add: Remove_elem_def store_defs)
  moreover have "list_repr ?s l (xs @ ys)"
    using s1(2) e keeps_elist [OF s1(3)] r by (fastforce simp: list_repr_def linked_def)
  moreover have "vals ?s (xs @ ys) = vals s1 (xs @ ys)" using e by (auto simp: vals_def)
  moreover have "vals s1 (xs @ e # ys) = vals s (xs @ e # ys)" using s1(3) r by (rule repr_vals_keeps)
  moreover have "frame s s1 l" using s1(3) by (rule keeps_frame) (use r in \<open>auto dest: repr_alloc\<close>)
  moreover have "frame s1 ?s l"
  proof -
    have "elist E1 = Some l" using keeps_elist [OF s1(3,4)] E by auto
    then have "e \<notin> set bs" if "list_repr s1 k bs" "k \<noteq> l" for k bs
      using that s1(4) by (auto dest: repr_alloc)
    then show ?thesis
      using s1(4) by (auto simp: frame_def list_repr_def linked_def vals_def)
  qed
  ultimately show ?thesis by (auto simp: vals_def intro: frame_trans)
qed

lemma MoveToFront_spec:
  assumes r: "list_repr s l (xs @ e # ys)"
  shows "\<exists>s'. MoveToFront s (Some l) (Some e) = Some s' \<and> list_repr s' l (e # xs @ ys) \<and>
    vals s' (e # xs @ ys) = vals s (e # xs @ ys) \<and> frame s s' l"
proof (cases xs)
  case Nil
  then show ?thesis
    using r repr_alloc [OF r, of e] by (auto simp: MoveToFront_def store_defs list_repr_def linked_def)
next
  case (Cons x xs')
  obtain E where E: "eheap s e = Some E" "elist E = Some l" using repr_alloc [OF r] by auto
  obtain s1 E1 where s1: "remove_elem s (Some l) (Some e) = Some s1" "linked s1 l (xs @ ys)"
      "keeps s s1 l (set (xs @ e # ys))" "eheap s1 e = Some E1"
    using remove_spec [of s l xs e ys E] r E by (auto simp: list_repr_def)
  have e: "e \<notin> set (xs @ ys)" using r by (auto simp: list_repr_def linked_def)
  obtain s' where s': "insertFront s1 (Some l) (Some e) = Some s'" "linked s' l (e # xs @ ys)"
      "keeps s1 s' l (insert e (set (xs @ ys)))"
    using insertFront_spec [OF s1(2) e s1(4)] by auto
  have "keeps s s' l (set (xs @ e # ys))"
    using s1(3) s'(3) by (auto intro: keeps_trans)
  from relink [OF r this s'(2)] s1(1) s'(1) E r Cons e show ?thesis
    by (auto simp: MoveToFront_def store_defs list_repr_def linked_def)
qed

lemma MoveToBack_spec:
  assumes r: "list_repr s l (xs @ e # ys)"
  shows "\<exists>s'. MoveToBack s (Some l) (Some e) = Some s' \<and> list_repr s' l (xs @ ys @ [e]) \<and>
    vals s' (xs @ ys @ [e]) = vals s (xs @ ys @ [e]) \<and> frame s s' l"
proof (cases ys rule: rev_cases)
  case Nil
  then show ?thesis
    using r repr_alloc [OF r, of e] by (auto simp: MoveToBack_def store_defs list_repr_def linked_def)
next
  case (snoc ys' y)
  obtain E where E: "eheap s e = Some E" "elist E = Some l" using repr_alloc [OF r] by auto
  obtain s1 E1 where s1: "remove_elem s (Some l) (Some e) = Some s1" "linked s1 l (xs @ ys)"
      "keeps s s1 l (set (xs @ e # ys))" "eheap s1 e = Some E1"
    using remove_spec [of s l xs e ys E] r E by (auto simp: list_repr_def)
  have e: "e \<notin> set (xs @ ys)" using r by (auto simp: list_repr_def linked_def)
  obtain s' where s': "insertBack s1 (Some l) (Some e) = Some s'" "linked s' l (xs @ ys @ [e])"
      "keeps s1 s' l (insert e (set (xs @ ys)))"
    using insertBack_spec [OF s1(2) e s1(4)] by auto
  have "keeps s s' l (set (xs @ e # ys))"
    using s1(3) s'(3) by (auto intro: keeps_trans)
  from relink [OF r this s'(2)] s1(1) s'(1) E r snoc e show ?thesis
    by (auto simp: MoveToBack_def store_defs list_repr_def linked_def)
qed

text \<open>The loops walk over the list at \<open>k\<close>, which may be the list at \<open>l\<close> that they extend.\<close>

lemma pushBackListLoop_spec:
  assumes "list_repr s l as" "list_repr s k (us @ c # cs @ ws)" "k = l \<Longrightarrow> as = us @ c # cs @ ws"
    and "\<And>b. a \<le> b \<Longrightarrow> eheap s b = None"
  shows "\<exists>s' ns. pushBackListLoop s a (Some l) (Some (last (c # cs))) (Some c) = Some s' \<and>
    list_repr s' l (as @ ns) \<and> vals s' (as @ ns) = vals s as @ vals s (c # cs) \<and> frame s s' l"
  using assms
proof (induction cs arbitrary: s as us c ws a)
  case Nil
  obtain C where C: "eheap s c = Some C" using repr_alloc [OF Nil.prems(2), of c] by auto
  with PushBack_spec [OF Nil.prems(1), of a "Value C"] Nil.prems(4) [of a]
  obtain s' where "PushBack_list s a (Some l) (Value C) = Some (s', Some a)" "list_repr s' l (as @ [a])"
      "vals s' (as @ [a]) = vals s as @ vals s [c]" "frame s s' l"
    by (auto simp: vals_def)
  with C show ?case
    by (subst pushBackListLoop.simps) (auto simp: eget_def)
next
  case (Cons d cs)
  obtain C where C: "eheap s c = Some C" using repr_alloc [OF Cons.prems(2), of c] by auto
  from PushBack_spec [OF Cons.prems(1), of a "Value C"] Cons.prems(4)
  obtain s1 where s1: "PushBack_list s a (Some l) (Value C) = Some (s1, Some a)"
      "list_repr s1 l (as @ [a])" "vals s1 (as @ [a]) = vals s as @ [Value C]" "frame s s1 l"
      "\<And>b. Suc a \<le> b \<Longrightarrow> eheap s1 b = None"
    by auto
  define ws' where "ws' = (if k = l then ws @ [a] else ws)"
  have r: "list_repr s1 k (us @ c # d # cs @ ws')"
    using Cons.prems(2,3) s1(2,4) by (auto simp: ws'_def frame_def)
  have "vals s1 (us @ c # d # cs @ ws) = vals s (us @ c # d # cs @ ws)"
    using Cons.prems(2,3) s1(3,4) by (cases "k = l") (simp_all add: frame_def vals_def)
  then have v: "vals s1 (c # d # cs) = vals s (c # d # cs)" by (simp add: vals_def)
  have "Next s1 (Some c) = Some (Some d)"
    using r by (auto simp: Next_def eget_def list_repr_def linked_def dll_Cons)
  moreover have "c \<noteq> last (d # cs)"
    using r by (auto simp: list_repr_def linked_def)
  moreover have "\<exists>s' ns. pushBackListLoop s1 (Suc a) (Some l) (Some (last (d # cs))) (Some d) = Some s' \<and>
      list_repr s' l ((as @ [a]) @ ns) \<and> vals s' ((as @ [a]) @ ns) = vals s1 (as @ [a]) @ vals s1 (d # cs) \<and>
      frame s1 s' l"
    using r s1(2,5) Cons.prems(3) by (intro Cons.IH [of s1 "as @ [a]" "us @ [c]" d ws']) (auto simp: ws'_def)
  ultimately show ?case
    using C s1(1,3,4) v
    by (subst pushBackListLoop.simps) (fastforce simp: eget_def vals_def intro: frame_trans)
qed

lemma pushFrontListLoop_spec:
  assumes "list_repr s l as" "list_repr s k (us @ cs @ c # ws)" "k = l \<Longrightarrow> as = us @ cs @ c # ws"
    and "\<And>b. a \<le> b \<Longrightarrow> eheap s b = None"
  shows "\<exists>s' ns. pushFrontListLoop s a (Some l) (Some (hd (cs @ [c]))) (Some c) = Some s' \<and>
    list_repr s' l (ns @ as) \<and> vals s' (ns @ as) = vals s (cs @ [c]) @ vals s as \<and> frame s s' l"
  using assms
proof (induction cs arbitrary: s as us c ws a rule: rev_induct)
  case Nil
  obtain C where C: "eheap s c = Some C" using repr_alloc [OF Nil.prems(2), of c] by auto
  with PushFront_spec [OF Nil.prems(1), of a "Value C"] Nil.prems(4) [of a]
  obtain s' where "PushFront s a (Some l) (Value C) = Some (s', Some a)" "list_repr s' l ([a] @ as)"
      "vals s' ([a] @ as) = vals s [c] @ vals s as" "frame s s' l"
    by (auto simp: vals_def)
  moreover from this(1) C have "pushFrontListLoop s a (Some l) (Some c) (Some c) = Some s'"
    by (subst pushFrontListLoop.simps) (simp add: eget_def)
  ultimately show ?case by (intro exI [of _ s'] exI [of _ "[a]"]) simp
next
  case (snoc d cs)
  obtain C where C: "eheap s c = Some C" using repr_alloc [OF snoc.prems(2), of c] by auto
  from PushFront_spec [OF snoc.prems(1), of a "Value C"] snoc.prems(4)
  obtain s1 where s1: "PushFront s a (Some l) (Value C) = Some (s1, Some a)"
      "list_repr s1 l (a # as)" "vals s1 (a # as) = Value C # vals s as" "frame s s1 l"
      "\<And>b. Suc a \<le> b \<Longrightarrow> eheap s1 b = None"
    by auto
  define us' where "us' = (if k = l then a # us else us)"
  have r: "list_repr s1 k (us' @ cs @ d # c # ws)"
    using snoc.prems(2,3) s1(2,4) by (auto simp: us'_def frame_def)
  have "vals s1 (us @ (cs @ [d]) @ c # ws) = vals s (us @ (cs @ [d]) @ c # ws)"
    using snoc.prems(2,3) s1(3,4) by (cases "k = l") (simp_all add: frame_def vals_def)
  then have v: "vals s1 (cs @ [d]) = vals s (cs @ [d])" by (simp add: vals_def)
  have nx: "Prev s1 (Some c) = Some (Some d)" "c \<noteq> hd (cs @ [d])"
    using r by (auto simp: Prev_def eget_def list_repr_def linked_def dll_Cons hd_append)
  have "\<exists>s' ns. pushFrontListLoop s1 (Suc a) (Some l) (Some (hd (cs @ [d]))) (Some d) = Some s' \<and>
      list_repr s' l (ns @ (a # as)) \<and> vals s' (ns @ (a # as)) = vals s1 (cs @ [d]) @ vals s1 (a # as) \<and>
      frame s1 s' l"
    using r s1(2,5) snoc.prems(3) by (intro snoc.IH [of s1 "a # as" us' d "c # ws"]) (auto simp: us'_def)
  then obtain s' ns where s': "pushFrontListLoop s1 (Suc a) (Some l) (Some (hd (cs @ [d]))) (Some d) = Some s'"
      "list_repr s' l (ns @ a # as)" "vals s' (ns @ a # as) = vals s1 (cs @ [d]) @ vals s1 (a # as)"
      "frame s1 s' l"
    by blast
  have vs': "vals s' ((ns @ [a]) @ as) = vals s ((cs @ [d]) @ [c]) @ vals s as"
    using s'(3) C unfolding v s1(3) by (simp add: vals_def)
  have "frame s s' l" using s1(4) s'(4) by (rule frame_trans)
  moreover have "list_repr s' l ((ns @ [a]) @ as)" using s'(2) by simp
  moreover have "pushFrontListLoop s a (Some l) (Some (hd ((cs @ [d]) @ [c]))) (Some c) = Some s'"
    using C s1(1) s'(1) nx by (subst pushFrontListLoop.simps) (auto simp: eget_def hd_append)
  ultimately show ?case using vs' by blast
qed

lemma linked_unique:
  assumes "linked s l as" "linked s l bs"
  shows "as = bs"
  by (rule dll_unique [of enext eprev "eheap s" None]) (use assms in \<open>auto simp: linked_def\<close>)

lemma Front_Back_repr:
  assumes "list_repr s l as"
  shows "Front s (Some l) = Some (hd_or as None)" "Back s (Some l) = Some (last_or as None)"
    "Len_list s (Some l) = Some (int (length as))"
  using assms by (simp_all add: list_repr_def linked_def Front_def Back_def Len_list_def lget_def)

text \<open>
  \<open>PushBackList\<close> and \<open>PushFrontList\<close> return, also when a list is appended to
  itself; the values of the other list are added at the end, or at the front, in order.
\<close>

lemma PushList_appends:
  assumes "list_repr s l as" "list_repr s k bs" "\<forall>b \<ge> a. eheap s b = None"
  shows "(\<exists>s' ns. PushBackList s a (Some l) (Some k) = Some s' \<and> list_repr s' l (as @ ns) \<and>
      vals s' (as @ ns) = vals s as @ vals s bs \<and> frame s s' l)
    \<and> (\<exists>s' ns. PushFrontList s a (Some l) (Some k) = Some s' \<and> list_repr s' l (ns @ as) \<and>
      vals s' (ns @ as) = vals s bs @ vals s as \<and> frame s s' l)"
proof (cases bs)
  case Nil
  have loop: "pushBackListLoop s a (Some l) None None = Some s" "pushFrontListLoop s a (Some l) None None = Some s"
    by (simp_all add: pushBackListLoop.simps pushFrontListLoop.simps)
  have "list_repr s l (as @ [])" "list_repr s l ([] @ as)" using assms(1) by simp_all
  with Nil Front_Back_repr [OF assms(2)] loop show ?thesis
    unfolding PushBackList_def PushFrontList_def
    by (intro conjI exI [of _ s] exI [of _ "[]"]) (simp_all add: vals_def)
next
  case (Cons c cs)
  have same: "k = l \<Longrightarrow> as = bs"
    using assms(1,2) linked_unique by (auto simp: list_repr_def)
  define d ds where "d = last bs" and "ds = butlast bs"
  have snoc: "bs = ds @ [d]" using Cons by (simp add: d_def ds_def)
  have "\<exists>s' ns. pushBackListLoop s a (Some l) (Some (last (c # cs))) (Some c) = Some s' \<and>
      list_repr s' l (as @ ns) \<and> vals s' (as @ ns) = vals s as @ vals s (c # cs) \<and> frame s s' l"
    by (rule pushBackListLoop_spec [where us = "[]" and ws = "[]" and k = k])
      (use assms same Cons in auto)
  moreover have "\<exists>s' ns. pushFrontListLoop s a (Some l) (Some (hd (ds @ [d]))) (Some d) = Some s' \<and>
      list_repr s' l (ns @ as) \<and> vals s' (ns @ as) = vals s (ds @ [d]) @ vals s as \<and> frame s s' l"
    by (rule pushFrontListLoop_spec [where us = "[]" and ws = "[]" and k = k])
      (use assms same snoc in auto)
  moreover have "last (c # cs) = d" "hd (ds @ [d]) = c"
    using Cons snoc [symmetric] by (simp_all add: d_def)
  moreover have "Front s (Some k) = Some (Some c)" "Back s (Some k) = Some (Some d)"
    using Front_Back_repr [OF assms(2)] Cons by (simp_all add: hd_or_def last_or_def d_def)
  ultimately show ?thesis
    using Cons snoc by (simp add: PushBackList_def PushFrontList_def)
qed

section \<open>Properties\<close>

text \<open>
  C7. The linked list refines a list. On the list at \<open>l\<close> made of the elements \<open>es\<close>, also when it is empty,
  \<open>Front\<close>, \<open>Back\<close> and \<open>Len\<close> return the ends and the length; \<open>PushFront\<close>, \<open>PushBack\<close>,
  \<open>PushFrontList\<close> and \<open>PushBackList\<close> add values at the ends (a list may be added to itself); and for every element
  \<open>m\<close> of it, \<open>InsertBefore\<close>, \<open>InsertAfter\<close>, \<open>Remove\<close>, \<open>MoveToFront\<close> and \<open>MoveToBack\<close> relink
  exactly as documented. Each operation returns, keeps the representation invariant and the values, and leaves the other lists of
  the store alone.
\<close>

theorem List_refines_list:
  assumes "list_repr s l es" "eheap s a = None"
  shows "Front s (Some l) = Some (hd_or es None) \<and> Back s (Some l) = Some (last_or es None) \<and> Len_list s (Some l) = Some (int (length es))
    \<and> (\<exists>s'. PushFront s a (Some l) v = Some (s', Some a) \<and> list_repr s' l (a # es) \<and> vals s' (a # es) = v # vals s es \<and> frame s s' l)
    \<and> (\<exists>s'. PushBack_list s a (Some l) v = Some (s', Some a) \<and> list_repr s' l (es @ [a]) \<and>
      vals s' (es @ [a]) = vals s es @ [v] \<and> frame s s' l)
    \<and> (list_repr s k bs \<and> (\<forall>b \<ge> a. eheap s b = None) \<longrightarrow>
      (\<exists>s' ns. PushBackList s a (Some l) (Some k) = Some s' \<and> list_repr s' l (es @ ns) \<and>
        vals s' (es @ ns) = vals s es @ vals s bs \<and> frame s s' l) \<and>
      (\<exists>s' ns. PushFrontList s a (Some l) (Some k) = Some s' \<and> list_repr s' l (ns @ es) \<and>
        vals s' (ns @ es) = vals s bs @ vals s es \<and> frame s s' l))
    \<and> (es = xs @ m # ys \<longrightarrow>
      (\<exists>s'. InsertBefore s a (Some l) v (Some m) = Some (s', Some a) \<and> list_repr s' l (xs @ a # m # ys) \<and>
        vals s' (xs @ a # m # ys) = vals s xs @ v # vals s (m # ys) \<and> frame s s' l) \<and>
      (\<exists>s'. InsertAfter s a (Some l) v (Some m) = Some (s', Some a) \<and> list_repr s' l (xs @ m # a # ys) \<and>
        vals s' (xs @ m # a # ys) = vals s (xs @ [m]) @ v # vals s ys \<and> frame s s' l) \<and>
      (\<exists>s'. Remove_elem s (Some l) (Some m) = Some (s', Value (the (eheap s m))) \<and> list_repr s' l (xs @ ys) \<and>
        vals s' (xs @ ys) = vals s xs @ vals s ys \<and> frame s s' l) \<and>
      (\<exists>s'. MoveToFront s (Some l) (Some m) = Some s' \<and> list_repr s' l (m # xs @ ys) \<and>
        vals s' (m # xs @ ys) = vals s (m # xs @ ys) \<and> frame s s' l) \<and>
      (\<exists>s'. MoveToBack s (Some l) (Some m) = Some s' \<and> list_repr s' l (xs @ ys @ [m]) \<and>
        vals s' (xs @ ys @ [m]) = vals s (xs @ ys @ [m]) \<and> frame s s' l))"
proof (intro conjI impI)
  assume es: "es = xs @ m # ys"
  note r = assms(1) [unfolded es]
  show "\<exists>s'. InsertBefore s a (Some l) v (Some m) = Some (s', Some a) \<and> list_repr s' l (xs @ a # m # ys) \<and>
      vals s' (xs @ a # m # ys) = vals s xs @ v # vals s (m # ys) \<and> frame s s' l"
    using InsertBefore_spec [OF r assms(2), of v] by fastforce
  show "\<exists>s'. InsertAfter s a (Some l) v (Some m) = Some (s', Some a) \<and> list_repr s' l (xs @ m # a # ys) \<and>
      vals s' (xs @ m # a # ys) = vals s (xs @ [m]) @ v # vals s ys \<and> frame s s' l"
    using InsertAfter_spec [OF r assms(2), of v] by fastforce
  show "\<exists>s'. Remove_elem s (Some l) (Some m) = Some (s', Value (the (eheap s m))) \<and> list_repr s' l (xs @ ys) \<and>
      vals s' (xs @ ys) = vals s xs @ vals s ys \<and> frame s s' l"
    using Remove_elem_spec [OF r] by fastforce
  show "\<exists>s'. MoveToFront s (Some l) (Some m) = Some s' \<and> list_repr s' l (m # xs @ ys) \<and>
      vals s' (m # xs @ ys) = vals s (m # xs @ ys) \<and> frame s s' l"
    using MoveToFront_spec [OF r] by fastforce
  show "\<exists>s'. MoveToBack s (Some l) (Some m) = Some s' \<and> list_repr s' l (xs @ ys @ [m]) \<and>
      vals s' (xs @ ys @ [m]) = vals s (xs @ ys @ [m]) \<and> frame s s' l"
    using MoveToBack_spec [OF r] by fastforce
qed (use Front_Back_repr [OF assms(1)] PushFront_spec [OF assms, of v] PushBack_spec [OF assms, of v]
    PushList_appends [OF assms(1), of k bs a] in blast)+

text \<open>A store with the list 0 of one element and the empty list 1.\<close>

definition store1 :: "int store" where
  "store1 = \<lparr>eheap = (\<lambda>_. None)(7 \<mapsto> \<lparr>enext = None, eprev = None, elist = Some 0, Value = 42\<rparr>),
     lheap = (\<lambda>_. None)(0 \<mapsto> \<lparr>lfront = Some 7, lback = Some 7, llen = 1\<rparr>, 1 \<mapsto> \<lparr>lfront = None, lback = None, llen = 0\<rparr>)\<rparr>"

lemma store1_repr: "list_repr store1 0 [7]" "list_repr store1 1 []"
  by (auto simp: store1_def list_repr_def linked_def dll_Cons)

theorem List_refines_list_witness:
  "(\<exists>s'. InsertBefore store1 8 (Some 0) 41 (Some 7) = Some (s', Some 8) \<and> list_repr s' 0 [8, 7] \<and> vals s' [8, 7] = [41, 42]) \<and>
   (\<exists>s'. PushBack_list store1 8 (Some 1) 5 = Some (s', Some 8) \<and> list_repr s' 1 [8] \<and> vals s' [8] = [5]) \<and>
   (\<exists>s' ns. PushBackList store1 8 (Some 0) (Some 0) = Some s' \<and> list_repr s' 0 ([7] @ ns) \<and> vals s' ([7] @ ns) = [42, 42])"
proof -
  have v: "eheap store1 8 = None" "\<forall>b \<ge> 8. eheap store1 b = None" "vals store1 [7] = [42]" "vals store1 [] = []"
    by (auto simp: store1_def vals_def)
  show ?thesis
    using List_refines_list [OF store1_repr(1) v(1), where k = 0 and bs = "[7]" and v = 41 and xs = "[]" and m = 7 and ys = "[]"]
      List_refines_list [OF store1_repr(2) v(1), where k = 0 and bs = "[7]" and v = 5 and xs = "[]" and m = 7 and ys = "[]"] store1_repr(1) v
    by (intro conjI) auto
qed

text \<open>
  C8. \<open>Remove\<close> on the list \<open>l\<close> of an element of another list \<open>k\<close> returns the value of the element and leaves \<open>l\<close> as it
  is. It does not unlink the element, which stays in the chain of \<open>k\<close>, but clears its \<open>list\<close> field: \<open>k\<close> is no longer a list all of
  whose elements know it, and a later \<open>Remove\<close> from \<open>k\<close> itself leaves the element there.
\<close>

theorem Remove_foreign_element:
  assumes "list_repr s k bs" "list_repr s l as" "e \<in> set bs" "l \<noteq> k"
  shows "\<exists>s'. Remove_elem s (Some l) (Some e) = Some (s', Value (the (eheap s e))) \<and>
    list_repr s' l as \<and> vals s' as = vals s as \<and> linked s' k bs \<and> vals s' bs = vals s bs \<and> (\<forall>bs'. \<not> list_repr s' k bs') \<and>
    (\<exists>s'' v. Remove_elem s' (Some k) (Some e) = Some (s'', v) \<and> linked s'' k bs)"
proof -
  obtain E where E: "eheap s e = Some E" "elist E = Some k" using repr_alloc [OF assms(1,3)] by auto
  let ?s = "s\<lparr>eheap := (eheap s)(e \<mapsto> E\<lparr>elist := None\<rparr>)\<rparr>"
  have d: "dll enext eprev ((eheap s)(e \<mapsto> E\<lparr>elist := None\<rparr>)) p as q = dll enext eprev (eheap s) p as q" for p as q
    using E by (induction as arbitrary: p) (auto simp: dll_Cons)
  then have k: "linked ?s k bs" using assms(1) by (simp add: list_repr_def linked_def)
  have "e \<notin> set as" using repr_alloc [OF assms(2), of e] assms(4) E by auto
  then have l: "list_repr ?s l as" using assms(2,4) d E by (auto simp: list_repr_def linked_def)
  have v: "vals ?s cs = vals s cs" for cs using E by (simp add: vals_def)
  have "\<not> list_repr ?s k bs'" for bs'
  proof
    assume r: "list_repr ?s k bs'"
    then have "e \<notin> set bs'" by (auto simp: list_repr_def dest: spec [of _ e])
    moreover have "bs' = bs" using r k linked_unique by (auto simp: list_repr_def)
    ultimately show False using assms(3) by simp
  qed
  with k l v E assms(4) show ?thesis
    by (auto simp: Remove_elem_def remove_elem_def store_defs)
qed

theorem Remove_foreign_element_witness:
  "\<exists>s'. Remove_elem store1 (Some 1) (Some 7) = Some (s', 42) \<and> list_repr s' 1 [] \<and> (\<forall>bs'. \<not> list_repr s' 0 bs')"
proof -
  have "Value (the (eheap store1 7)) = 42" by (simp add: store1_def)
  then show ?thesis using Remove_foreign_element [OF store1_repr, of 7] by auto
qed

text \<open>
  \<open>Init\<close> does not clear the \<open>list\<close> field of the elements it drops: removing such an
  element afterwards makes the length negative.
\<close>

lemma Init_stale_Remove:
  "\<exists>s1 s2 v. Init_list store1 (Some 0) = Some (s1, Some 0) \<and> Remove_elem s1 (Some 0) (Some 7) = Some (s2, v) \<and>
     Len_list s2 (Some 0) = Some (- 1)"
  by (simp add: store1_def Init_list_def Remove_elem_def remove_elem_def Len_list_def store_defs)

end
