(* ===== verification/Container_Ring.thy ===== *)
theory Container_Ring
  imports Go_Store
begin

text \<open>
  Package \<open>container/ring\<close> (src/go/src/pkg/container/ring/ring.go): circular lists whose
  elements are the rings. The store maps addresses to \<open>Ring\<close> structs; an operation is
  \<open>None\<close> where the code dereferences \<open>nil\<close>. \<open>Len\<close> and \<open>Do\<close> follow the pointers until
  they are back at the start, which they need not reach in an arbitrary store.
\<close>

section \<open>The model\<close>

record 'v Ring =
  rnext :: ptr
  rprev :: ptr
  rValue :: "'v option"

type_synonym 'v rings = "addr \<Rightarrow> 'v Ring option"

definition rget :: "'v rings \<Rightarrow> ptr \<Rightarrow> 'v Ring option" where
  "rget s p = do { a \<leftarrow> p; s a }"

definition rset :: "'v rings \<Rightarrow> ptr \<Rightarrow> ('v Ring \<Rightarrow> 'v Ring) \<Rightarrow> 'v rings option" where
  "rset s p f = do { a \<leftarrow> p; R \<leftarrow> s a; Some (s(a \<mapsto> f R)) }"

definition ring_init :: "'v rings \<Rightarrow> ptr \<Rightarrow> ('v rings \<times> ptr) option" where
  "ring_init s r = do {
     s \<leftarrow> rset s r (\<lambda>R. R\<lparr>rnext := r\<rparr>);
     s \<leftarrow> rset s r (\<lambda>R. R\<lparr>rprev := r\<rparr>);
     Some (s, r) }"

definition Ring_Next :: "'v rings \<Rightarrow> ptr \<Rightarrow> ('v rings \<times> ptr) option" where
  "Ring_Next s r = do {
     R \<leftarrow> rget s r;
     if rnext R = None then ring_init s r else Some (s, rnext R) }"

definition Ring_Prev :: "'v rings \<Rightarrow> ptr \<Rightarrow> ('v rings \<times> ptr) option" where
  "Ring_Prev s r = do {
     R \<leftarrow> rget s r;
     if rnext R = None then ring_init s r else Some (s, rprev R) }"

function moveBack :: "'v rings \<Rightarrow> ptr \<Rightarrow> int \<Rightarrow> ptr option" where
  "moveBack s r n =
     (if n < 0 then do { R \<leftarrow> rget s r; moveBack s (rprev R) (n + 1) } else Some r)"
  by pat_completeness auto
termination
  by (relation "measure (\<lambda>(s, r, n). nat (- n))") auto

function moveForward :: "'v rings \<Rightarrow> ptr \<Rightarrow> int \<Rightarrow> ptr option" where
  "moveForward s r n =
     (if n > 0 then do { R \<leftarrow> rget s r; moveForward s (rnext R) (n - 1) } else Some r)"
  by pat_completeness auto
termination
  by (relation "measure (\<lambda>(s, r, n). nat n)") auto

declare moveBack.simps [simp del] moveForward.simps [simp del]

definition Move :: "'v rings \<Rightarrow> ptr \<Rightarrow> int \<Rightarrow> ('v rings \<times> ptr) option" where
  "Move s r n = do {
     R \<leftarrow> rget s r;
     if rnext R = None then ring_init s r
     else do {
       r \<leftarrow> (if n < 0 then moveBack s r n else if n > 0 then moveForward s r n else Some r);
       Some (s, r) } }"

text \<open>The rings are allocated at the addresses \<open>a\<close>, \<open>a + 1\<close>, ...\<close>

function newLoop :: "'v rings \<Rightarrow> addr \<Rightarrow> ptr \<Rightarrow> int \<Rightarrow> int \<Rightarrow> ('v rings \<times> ptr) option" where
  "newLoop s a p i n =
     (if i < n then do {
        s \<leftarrow> Some (s(a \<mapsto> \<lparr>rnext = None, rprev = p, rValue = None\<rparr>));
        s \<leftarrow> rset s p (\<lambda>R. R\<lparr>rnext := Some a\<rparr>);
        newLoop s (a + 1) (Some a) (i + 1) n }
      else Some (s, p))"
  by pat_completeness auto
termination
  by (relation "measure (\<lambda>(s, a, p, i, n). nat (n - i))") auto

declare newLoop.simps [simp del]

definition Ring_New :: "'v rings \<Rightarrow> addr \<Rightarrow> int \<Rightarrow> ('v rings \<times> ptr) option" where
  "Ring_New s a n =
     (if n \<le> 0 then Some (s, None)
      else do {
        s \<leftarrow> Some (s(a \<mapsto> \<lparr>rnext = None, rprev = None, rValue = None\<rparr>));
        (s, p) \<leftarrow> newLoop s (a + 1) (Some a) 1 n;
        s \<leftarrow> rset s p (\<lambda>R. R\<lparr>rnext := Some a\<rparr>);
        s \<leftarrow> rset s (Some a) (\<lambda>R. R\<lparr>rprev := p\<rparr>);
        Some (s, Some a) })"

definition Link :: "'v rings \<Rightarrow> ptr \<Rightarrow> ptr \<Rightarrow> ('v rings \<times> ptr) option" where
  "Link st r s = do {
     (st, n) \<leftarrow> Ring_Next st r;
     if s \<noteq> None then do {
       (st, p) \<leftarrow> Ring_Prev st s;
       st \<leftarrow> rset st r (\<lambda>R. R\<lparr>rnext := s\<rparr>);
       st \<leftarrow> rset st s (\<lambda>R. R\<lparr>rprev := r\<rparr>);
       st \<leftarrow> rset st n (\<lambda>R. R\<lparr>rprev := p\<rparr>);
       st \<leftarrow> rset st p (\<lambda>R. R\<lparr>rnext := n\<rparr>);
       Some (st, n) }
     else Some (st, n) }"

definition Unlink :: "'v rings \<Rightarrow> ptr \<Rightarrow> int \<Rightarrow> ('v rings \<times> ptr) option" where
  "Unlink st r n =
     (if n \<le> 0 then Some (st, None)
      else do { (st, m) \<leftarrow> Move st r (int32 (n + 1)); Link st r m })"

partial_function (option) ringLenLoop :: "'v rings \<Rightarrow> ptr \<Rightarrow> ptr \<Rightarrow> int \<Rightarrow> int option" where
  "ringLenLoop s r p n =
     (if p = r then Some n else do { P \<leftarrow> rget s p; ringLenLoop s r (rnext P) (n + 1) })"

definition Ring_Len :: "'v rings \<Rightarrow> ptr \<Rightarrow> ('v rings \<times> int) option" where
  "Ring_Len s r =
     (if r \<noteq> None then do {
        (s, p) \<leftarrow> Ring_Next s r;
        n \<leftarrow> ringLenLoop s r p 1;
        Some (s, n) }
      else Some (s, 0))"

text \<open>The function that \<open>Do\<close> calls updates a state of type \<open>'a\<close>.\<close>

partial_function (option) ringDoLoop ::
  "('v option \<Rightarrow> 'a \<Rightarrow> 'a) \<Rightarrow> 'v rings \<Rightarrow> ptr \<Rightarrow> ptr \<Rightarrow> 'a \<Rightarrow> 'a option" where
  "ringDoLoop f s r p x =
     (if p = r then Some x else do { P \<leftarrow> rget s p; ringDoLoop f s r (rnext P) (f (rValue P) x) })"

definition Ring_Do :: "('v option \<Rightarrow> 'a \<Rightarrow> 'a) \<Rightarrow> 'v rings \<Rightarrow> ptr \<Rightarrow> 'a \<Rightarrow> ('v rings \<times> 'a) option" where
  "Ring_Do f s r x =
     (if r \<noteq> None then do {
        R \<leftarrow> rget s r;
        x \<leftarrow> Some (f (rValue R) x);
        (s, p) \<leftarrow> Ring_Next s r;
        x \<leftarrow> ringDoLoop f s r p x;
        Some (s, x) }
      else Some (s, x))"

section \<open>Rings as cyclic lists\<close>

text \<open>\<open>ring s as\<close>: the addresses \<open>as\<close> form a ring, in this order.\<close>

definition ring :: "'v rings \<Rightarrow> addr list \<Rightarrow> bool" where
  "ring s as \<longleftrightarrow> as \<noteq> [] \<and> distinct as \<and> dll rnext rprev s (last_or as None) as (hd_or as None)"

definition rvals :: "'v rings \<Rightarrow> addr list \<Rightarrow> 'v option list" where
  "rvals s as = map (\<lambda>a. rValue (the (s a))) as"

definition cyc :: "addr list \<Rightarrow> int \<Rightarrow> addr" where
  "cyc as i = as ! nat (i mod int (length as))"

lemma mod_succ: "0 < n \<Longrightarrow> (i + 1) mod n = (if i mod n = n - 1 then 0 else i mod n + 1)" for i n :: int
proof -
  assume n: "0 < n"
  have "(i + 1) mod n = (i mod n + 1) mod n" by (simp add: mod_add_left_eq)
  moreover have "0 \<le> i mod n" "i mod n < n" using n by simp_all
  ultimately show ?thesis by (auto simp: mod_pos_pos_trivial)
qed

lemma ring_cyc:
  assumes "ring s as"
  shows "\<exists>R. s (cyc as i) = Some R \<and> rnext R = Some (cyc as (i + 1)) \<and> rprev R = Some (cyc as (i - 1))"
proof -
  define n k where "n = length as" and "k = nat (i mod int n)"
  have n: "0 < n" using assms by (simp add: ring_def n_def)
  then have k: "k < n" "int k = i mod int n" by (simp_all add: k_def nat_less_iff)
  have "(i + 1) mod int n = int (if Suc k = n then 0 else Suc k)"
    using mod_succ [of "int n" i] n k by auto
  then have up: "cyc as (i + 1) = as ! (if Suc k = n then 0 else Suc k)"
    by (simp only: cyc_def n_def [symmetric] nat_int)
  define m where "m = (i - 1) mod int n"
  have "i mod int n = (if m = int n - 1 then 0 else m + 1)" "0 \<le> m"
    using mod_succ [of "int n" "i - 1"] n by (simp_all add: m_def)
  then have "m = int (if k = 0 then n - 1 else k - 1)"
    using n k by (auto split: if_splits)
  then have "cyc as (i - 1) = as ! (if k = 0 then n - 1 else k - 1)"
    by (simp only: cyc_def n_def [symmetric] m_def [symmetric] nat_int)
  moreover have "hd as = as ! 0" "last as = as ! (n - 1)" "as \<noteq> []"
    using n by (simp_all add: hd_conv_nth last_conv_nth n_def)
  ultimately show ?thesis
    using assms dll_nth [of rnext rprev s _ as _ k] k up
    by (auto simp: ring_def cyc_def [of as i] hd_or_def last_or_def n_def [symmetric] k_def [symmetric])
qed

lemma cyc_0: "as \<noteq> [] \<Longrightarrow> cyc as 0 = hd as"
  by (simp add: cyc_def hd_conv_nth)

lemma moveForward_cyc: "ring s as \<Longrightarrow> 0 \<le> n \<Longrightarrow> moveForward s (Some (cyc as i)) n = Some (Some (cyc as (i + n)))"
proof (induction "nat n" arbitrary: i n)
  case 0
  then show ?case by (simp add: moveForward.simps)
next
  case (Suc m)
  with ring_cyc [OF Suc.prems(1), of i] Suc.hyps(1) [of "n - 1" "i + 1"] show ?case
    by (subst moveForward.simps) (auto simp: rget_def add.assoc)
qed

lemma moveBack_cyc: "ring s as \<Longrightarrow> n \<le> 0 \<Longrightarrow> moveBack s (Some (cyc as i)) n = Some (Some (cyc as (i + n)))"
proof (induction "nat (- n)" arbitrary: i n)
  case 0
  then show ?case by (simp add: moveBack.simps)
next
  case (Suc m)
  with ring_cyc [OF Suc.prems(1), of i] Suc.hyps(1) [of "n + 1" "i - 1"] show ?case
    by (subst moveBack.simps) (auto simp: rget_def)
qed

lemma Move_cyc: "ring s as \<Longrightarrow> Move s (Some (hd as)) n = Some (s, Some (cyc as n))"
proof -
  assume r: "ring s as"
  have h: "hd as = cyc as 0" using r by (simp add: cyc_0 ring_def)
  show ?thesis
    using ring_cyc [OF r, of 0] moveForward_cyc [OF r, of n 0] moveBack_cyc [OF r, of n 0]
    by (cases "n < 0"; cases "n > 0") (auto simp: Move_def rget_def h)
qed

lemma ring_Next: "ring s (r # as) \<Longrightarrow> Ring_Next s (Some r) = Some (s, Some (hd (as @ [r])))"
  by (cases as) (auto simp: ring_def dll_Cons Ring_Next_def rget_def)

lemma ring_Prev: "ring s (r # as) \<Longrightarrow> Ring_Prev s (Some r) = Some (s, Some (last (r # as)))"
  by (cases as) (auto simp: ring_def dll_Cons Ring_Prev_def rget_def last_or_def)

text \<open>The rest of the ring seen from \<open>p\<close>, up to \<open>r\<close>.\<close>

lemma ringLenLoop_dll:
  "dll rnext rprev s p as (Some r) \<Longrightarrow> r \<notin> set as \<Longrightarrow>
   ringLenLoop s (Some r) (hd_or as (Some r)) n = Some (n + int (length as))"
proof (induction as arbitrary: p n)
  case Nil
  then show ?case by (simp add: ringLenLoop.simps)
next
  case (Cons a as)
  then show ?case by (subst ringLenLoop.simps) (auto simp: dll_Cons rget_def)
qed

lemma ringDoLoop_dll:
  "dll rnext rprev s p as (Some r) \<Longrightarrow> r \<notin> set as \<Longrightarrow>
   ringDoLoop f s (Some r) (hd_or as (Some r)) x = Some (fold f (rvals s as) x)"
proof (induction as arbitrary: p x)
  case Nil
  then show ?case by (simp add: ringDoLoop.simps rvals_def)
next
  case (Cons a as)
  then show ?case by (subst ringDoLoop.simps) (auto simp: dll_Cons rget_def rvals_def)
qed

lemma Ring_Len_spec: "ring s (r # as) \<Longrightarrow> Ring_Len s (Some r) = Some (s, int (length (r # as)))"
proof -
  assume r: "ring s (r # as)"
  then have "dll rnext rprev s (Some r) as (Some r)" "r \<notin> set as" by (auto simp: ring_def dll_Cons)
  from ringLenLoop_dll [OF this, of 1] ring_Next [OF r] show ?thesis
    by (cases as) (auto simp: Ring_Len_def)
qed

lemma Ring_Do_spec: "ring s (r # as) \<Longrightarrow> Ring_Do f s (Some r) x = Some (s, fold f (rvals s (r # as)) x)"
proof -
  assume r: "ring s (r # as)"
  then have "dll rnext rprev s (Some r) as (Some r)" "r \<notin> set as" "\<exists>R. s r = Some R"
    by (auto simp: ring_def dll_Cons)
  with ringDoLoop_dll [OF this(1,2), of f] ring_Next [OF r] show ?thesis
    by (cases as) (auto simp: Ring_Do_def rget_def rvals_def)
qed

definition relinks :: "'v rings \<Rightarrow> 'v rings \<Rightarrow> addr set \<Rightarrow> bool" where
  "relinks s s' A \<longleftrightarrow>
     (\<forall>a. a \<notin> A \<longrightarrow> s' a = s a) \<and> (\<forall>a. map_option rValue (s' a) = map_option rValue (s a))"

lemma Link_other:
  assumes "ring s (r # as)" "ring s (q # bs)" "set (r # as) \<inter> set (q # bs) = {}"
  shows "\<exists>s'. Link s (Some r) (Some q) = Some (s', Some (hd (as @ [r]))) \<and> ring s' (r # q # bs @ as) \<and>
    relinks s s' (set (r # as) \<union> set (q # bs))"
proof -
  note [simp] = ring_Next [OF assms(1)] ring_Prev [OF assms(2)]
  show ?thesis
    using assms
    by (cases as; cases bs rule: rev_cases)
      (auto simp: Link_def rset_def ring_def dll_Cons relinks_def)
qed

lemma Link_same:
  assumes "ring s (r # as @ q # bs)"
  shows "\<exists>s'. Link s (Some r) (Some q) = Some (s', Some (hd (as @ [q]))) \<and> ring s' (r # q # bs) \<and>
    (as \<noteq> [] \<longrightarrow> ring s' as) \<and> relinks s s' (set (r # as @ q # bs))"
proof -
  have nx: "Ring_Next s (Some r) = Some (s, Some (hd (as @ [q])))"
    using ring_Next [OF assms] by (simp add: hd_append)
  have pv: "Ring_Prev s (Some q) = Some (s, last_or (r # as) None)"
    using assms by (cases bs) (auto simp: ring_def dll_Cons Ring_Prev_def rget_def)
  consider "as = []" | x where "as = [x]" | x ys z where "as = x # ys @ [z]"
    by (cases as; cases "tl as" rule: rev_cases) auto
  then show ?thesis
    using assms nx pv
    by cases (auto simp: Link_def rset_def ring_def dll_Cons relinks_def)
qed

lemma Link_self:
  assumes "ring s (r # as)"
  shows "\<exists>s'. Link s (Some r) (Some r) = Some (s', Some (hd (as @ [r]))) \<and> ring s' [r] \<and>
    (as \<noteq> [] \<longrightarrow> ring s' as) \<and> relinks s s' (set (r # as))"
proof -
  note [simp] = ring_Next [OF assms] ring_Prev [OF assms]
  consider "as = []" | x where "as = [x]" | x ys z where "as = x # ys @ [z]"
    by (cases as; cases "tl as" rule: rev_cases) auto
  then show ?thesis
    using assms
    by cases (auto simp: Link_def rset_def ring_def dll_Cons relinks_def)
qed

text \<open>A zero value becomes a ring of one element at its first use.\<close>

lemma ring_init_zero:
  assumes "s r = Some R" "rnext R = None"
  shows "ring (s(r \<mapsto> R\<lparr>rnext := Some r, rprev := Some r\<rparr>)) [r]"
    and "Ring_Next s (Some r) = Some (s(r \<mapsto> R\<lparr>rnext := Some r, rprev := Some r\<rparr>), Some r)"
    and "Ring_Prev s (Some r) = Some (s(r \<mapsto> R\<lparr>rnext := Some r, rprev := Some r\<rparr>), Some r)"
    and "Move s (Some r) n = Some (s(r \<mapsto> R\<lparr>rnext := Some r, rprev := Some r\<rparr>), Some r)"
  using assms
  by (auto simp: ring_def dll_Cons Ring_Next_def Ring_Prev_def Move_def ring_init_def rget_def rset_def)

lemma cyc_Cons_Suc: "k \<le> length as \<Longrightarrow> cyc (r # as) (int k + 1) = (if k = length as then r else as ! k)"
  by (auto simp: cyc_def nat_add_distrib add.commute)

lemma cyc_mod: "cyc as (n + 1) = cyc as (n mod int (length as) + 1)"
  by (simp add: cyc_def mod_add_left_eq)

lemma Unlink_spec:
  assumes r: "ring s (r # as)" and n: "0 < n" "n < 2 ^ 31 - 1" and k: "k = nat (n mod int (length (r # as)))"
  shows "\<exists>s'. Unlink s (Some r) n = Some (s', Some (hd (as @ [r]))) \<and> ring s' (r # drop k as) \<and>
    (0 < k \<longrightarrow> ring s' (take k as)) \<and> relinks s s' (set (r # as))"
proof -
  have kn: "int k = n mod int (length (r # as))" by (simp add: k)
  moreover have "n mod int (length (r # as)) < int (length (r # as))" by (rule pos_mod_bound) simp
  ultimately have "int k < int (length (r # as))" by (simp only:)
  then have "k \<le> length as" by simp
  note kn = kn this
  have "cyc (r # as) (n + 1) = (if k = length as then r else as ! k)"
    using cyc_mod [of "r # as" n] cyc_Cons_Suc [OF kn(2)] by (simp only: kn(1) [symmetric])
  then have u: "Unlink s (Some r) n = Link s (Some r) (Some (if k = length as then r else as ! k))"
    using Move_cyc [OF r, of "n + 1"] n by (simp add: Unlink_def)
  show ?thesis
  proof (cases "k = length as")
    case True
    with Link_self [OF r] u show ?thesis by auto
  next
    case False
    then have "as = take k as @ as ! k # drop (Suc k) as" "length (take k as) = k"
      using kn(2) by (simp_all add: id_take_nth_drop)
    then obtain xs q ys where as: "as = xs @ q # ys" "length xs = k" by blast
    from Link_same [of s r xs q ys] r u show ?thesis
      unfolding as(1) by (auto simp: as(2) [symmetric] hd_append)
  qed
qed

lemma newLoop_spec:
  assumes "dll rnext rprev s None (as @ [p]) None" "distinct (as @ [p])" "\<And>b. b \<in> set (as @ [p]) \<Longrightarrow> b < a"
  shows "\<exists>s' bs q. newLoop s a (Some p) i n = Some (s', Some q) \<and> bs @ [q] = as @ [p] @ [a..<a + nat (n - i)] \<and>
    dll rnext rprev s' None (bs @ [q]) None"
  using assms
proof (induction "nat (n - i)" arbitrary: s as p a i)
  case 0
  then show ?case by (subst newLoop.simps) auto
next
  case (Suc m)
  obtain P where P: "s p = Some P" using Suc.prems(1) by (auto simp: dll_Cons)
  let ?s = "s(a \<mapsto> \<lparr>rnext = None, rprev = Some p, rValue = None\<rparr>, p \<mapsto> P\<lparr>rnext := Some a\<rparr>)"
  have a: "a \<notin> set (as @ [p])" using Suc.prems(3) by blast
  have "dll rnext rprev ?s None ((as @ [p]) @ [a]) None"
    using Suc.prems(1,2) a P by (auto simp: dll_Cons)
  then have "\<exists>s' bs q. newLoop ?s (a + 1) (Some a) (i + 1) n = Some (s', Some q) \<and>
      bs @ [q] = (as @ [p]) @ [a] @ [a + 1..<(a + 1) + nat (n - (i + 1))] \<and> dll rnext rprev s' None (bs @ [q]) None"
    using Suc.prems(2,3) Suc.hyps(2) a by (intro Suc.hyps(1)) (auto intro: less_SucI)
  moreover have "nat (n - i) = Suc (nat (n - (i + 1)))" using Suc.hyps(2) by linarith
  then have "[a] @ [a + 1..<(a + 1) + nat (n - (i + 1))] = [a..<a + nat (n - i)]"
    by (simp add: upt_conv_Cons del: upt_Suc)
  moreover have "newLoop s a (Some p) i n = newLoop ?s (a + 1) (Some a) (i + 1) n"
    using Suc.hyps(2) P a by (subst newLoop.simps) (auto simp: rset_def)
  ultimately show ?case by auto
qed

lemma Ring_New_spec:
  assumes "0 < n"
  shows "\<exists>s'. Ring_New s a n = Some (s', Some a) \<and> ring s' [a..<a + nat n]"
proof -
  let ?s = "s(a \<mapsto> \<lparr>rnext = None, rprev = None, rValue = None\<rparr>)"
  have "nat n = Suc (nat (n - 1))" using assms by linarith
  then have u: "[a..<a + nat n] = a # [a + 1..<a + 1 + nat (n - 1)]"
    by (simp add: upt_conv_Cons del: upt_Suc)
  have "\<exists>s' bs q. newLoop ?s (a + 1) (Some a) 1 n = Some (s', Some q) \<and>
      bs @ [q] = [] @ [a] @ [a + 1..<a + 1 + nat (n - 1)] \<and> dll rnext rprev s' None (bs @ [q]) None"
    by (rule newLoop_spec) (auto simp: dll_Cons)
  then obtain s' bs q where s': "newLoop ?s (a + 1) (Some a) 1 n = Some (s', Some q)"
      "bs @ [q] = [a..<a + nat n]" "dll rnext rprev s' None (bs @ [q]) None"
    using u by (metis append_Nil append_Cons)
  have d: "distinct (bs @ [q])" "hd (bs @ [q]) = a" unfolding s'(2) by (simp_all add: u del: upt_Suc)
  then have "a \<in> set (bs @ [q])" by (cases bs) auto
  with dll_alloc [OF s'(3), of a] dll_alloc [OF s'(3), of q]
  obtain Q A where Q: "s' q = Some Q" "s' a = Some A" by auto
  from d s'(1,3) Q assms have "\<exists>s'. Ring_New s a n = Some (s', Some a) \<and> ring s' (bs @ [q])"
    by (cases bs) (auto simp: Ring_New_def rset_def ring_def dll_Cons)
  then show ?thesis unfolding s'(2) .
qed

section \<open>Properties\<close>

definition rings1 :: "int rings" where
  "rings1 = [1 \<mapsto> \<lparr>rnext = Some 2, rprev = Some 2, rValue = Some 10\<rparr>,
             2 \<mapsto> \<lparr>rnext = Some 1, rprev = Some 1, rValue = Some 20\<rparr>,
             3 \<mapsto> \<lparr>rnext = Some 3, rprev = Some 3, rValue = Some 30\<rparr>]"

lemma rings1_rings: "ring rings1 [1, 2]" "ring rings1 [3]"
  by (simp_all add: ring_def rings1_def dll_Cons)

text \<open>
  C9. \<open>Unlink\<close> removes the \<open>n mod Len\<close> elements after \<open>r\<close>, which form the returned
  ring; \<open>Len\<close> counts the elements, \<open>Move\<close> goes to the element at distance \<open>n\<close> in
  either direction, and \<open>Do\<close> visits every value once, in order. \<open>Link\<close> to an element of another ring
  inserts that ring after \<open>r\<close>; \<open>Link\<close> to an element of the same ring splits off the elements between them.
\<close>

theorem Ring_operations:
  assumes "ring s (r # as)" "0 < n" "n < 2 ^ 31 - 1"
  defines "k \<equiv> nat (n mod int (length (r # as)))"
  shows "(\<exists>s'. Unlink s (Some r) n = Some (s', Some (hd (as @ [r]))) \<and> ring s' (r # drop k as) \<and>
      (0 < k \<longrightarrow> ring s' (take k as)) \<and> relinks s s' (set (r # as)))
    \<and> Ring_Len s (Some r) = Some (s, int (length (r # as)))
    \<and> Move s (Some r) i = Some (s, Some ((r # as) ! nat (i mod int (length (r # as)))))
    \<and> Ring_Do f s (Some r) x = Some (s, fold f (rvals s (r # as)) x)
    \<and> (ring s (q # bs) \<and> set (r # as) \<inter> set (q # bs) = {} \<longrightarrow>
      (\<exists>s'. Link s (Some r) (Some q) = Some (s', Some (hd (as @ [r]))) \<and> ring s' (r # q # bs @ as) \<and>
        relinks s s' (set (r # as) \<union> set (q # bs))))
    \<and> (as = cs @ q # bs \<longrightarrow>
      (\<exists>s'. Link s (Some r) (Some q) = Some (s', Some (hd (cs @ [q]))) \<and> ring s' (r # q # bs) \<and>
        (cs \<noteq> [] \<longrightarrow> ring s' cs) \<and> relinks s s' (set (r # as))))"
proof (intro conjI impI)
  show "\<exists>s'. Unlink s (Some r) n = Some (s', Some (hd (as @ [r]))) \<and> ring s' (r # drop k as) \<and>
      (0 < k \<longrightarrow> ring s' (take k as)) \<and> relinks s s' (set (r # as))"
    using Unlink_spec [OF assms(1-3)] by (simp add: k_def)
  show "Ring_Len s (Some r) = Some (s, int (length (r # as)))" by (rule Ring_Len_spec [OF assms(1)])
  show "Move s (Some r) i = Some (s, Some ((r # as) ! nat (i mod int (length (r # as)))))"
    using Move_cyc [OF assms(1), of i] by (simp add: cyc_def)
  show "Ring_Do f s (Some r) x = Some (s, fold f (rvals s (r # as)) x)" by (rule Ring_Do_spec [OF assms(1)])
qed (use Link_other [of s r as q bs] Link_same [of s r cs q bs] assms(1) in blast)+

theorem Ring_operations_witness:
  "(\<exists>s'. Unlink rings1 (Some 1) 3 = Some (s', Some 2) \<and> ring s' [1] \<and> ring s' [2]) \<and>
   (\<exists>s'. Link rings1 (Some 1) (Some 3) = Some (s', Some 2) \<and> ring s' [1, 3, 2])"
  using Ring_operations [OF rings1_rings(1), of 3 0 "\<lambda>_ x. x" "0 :: nat" 3 "[]" "[]"] rings1_rings by auto

text \<open>\<open>New(n)\<close> creates a ring of \<open>n\<close> elements.\<close>

theorem New_ring:
  "(n \<le> 0 \<longrightarrow> Ring_New s a n = Some (s, None)) \<and>
   (0 < n \<longrightarrow> (\<exists>s'. Ring_New s a n = Some (s', Some a) \<and> ring s' [a..<a + nat n]))"
  using Ring_New_spec [of n s a] by (simp add: Ring_New_def)

theorem New_ring_witness:
  "\<exists>s'. Ring_New (\<lambda>_. None :: int Ring option) 5 3 = Some (s', Some 5) \<and> ring s' [5, 6, 7]"
  using New_ring [of 3 "\<lambda>_. None" 5] by (simp add: upt_rec)

end
