(* ===== verification/Go_Bytes.thy ===== *)
theory Go_Bytes
  imports Go_Prelude
begin

text \<open>
  Bytes and byte slices, shared by the encodings, hashes and ciphers: string constants as byte
  lists, equality of bytes bit by bit, and writes into a slice at a position.
\<close>

unbundle bit_operations_syntax

named_theorems bits \<open>rewriting of single bits of small words\<close>

definition str :: "string \<Rightarrow> byte list" where
  "str s = map of_char s"

lemma str_simps [simp]: "str [] = []" "str (c # s) = of_char c # str s"
  by (simp_all add: str_def)

section \<open>Bits\<close>

lemma less_8: "n < 8 \<Longrightarrow> n \<in> {0, 1, 2, 3, 4, 5, 6, 7 :: nat}"
  by auto

lemma byte_eqI: "(\<And>n. n \<in> {0, 1, 2, 3, 4, 5, 6, 7} \<Longrightarrow> bit v n = bit w n) \<Longrightarrow> v = w" for v w :: byte
proof (rule bit_word_eqI)
  fix n
  assume eq: "\<And>n. n \<in> {0, 1, 2, 3, 4, 5, 6, 7} \<Longrightarrow> bit v n = bit w n" and "n < LENGTH(8)"
  from this(2) have "n < 8" by simp
  then show "bit v n = bit w n" by (intro eq less_8)
qed

lemma small_Suc [bits]: "Suc (Suc 0) = 2" "Suc (Suc (Suc 0)) = 3" "Suc (Suc (Suc (Suc 0))) = 4"
  by simp_all

lemmas byte_bits = bit_simps bits

lemma unat_drop_byte [simp]: "unat (drop_bit k (b :: byte)) = unat b div 2 ^ k"
  by (subst unat_drop_bit_eq) (simp add: drop_bit_eq_div)

lemma unat_mask_byte: "unat (b AND mask k :: byte) = unat b mod 2 ^ k"
proof -
  have "unat (b AND mask k) = take_bit k (unat b)"
    by (simp only: take_bit_eq_mask [symmetric] unsigned_take_bit_eq)
  then show ?thesis by (simp add: take_bit_eq_mod)
qed

lemma byte_masks:
  "(0x07 :: byte) = mask 3" "(0x0F :: byte) = mask 4" "(0x1F :: byte) = mask 5" "(0x3F :: byte) = mask 6"
  by (simp_all add: mask_eq_exp_minus_1)
lemma bit_below: "0 \<le> y \<Longrightarrow> y < 2 ^ k \<Longrightarrow> bit y n \<Longrightarrow> n < k" for y :: int
  by (metis bit_take_bit_iff take_bit_int_eq_self)

lemma or_add: "0 \<le> y \<Longrightarrow> y < 2 ^ k \<Longrightarrow> push_bit k a OR y = a * 2 ^ k + y" for a y :: int
proof -
  assume y: "0 \<le> y" "y < 2 ^ k"
  have "push_bit k a + y = push_bit k a OR y"
    by (rule disjunctive_add) (auto simp: bit_push_bit_iff dest: bit_below [OF y])
  then show ?thesis by (simp add: push_bit_eq_mult)
qed

lemma high_and: "0 \<le> y \<Longrightarrow> y < 2 ^ k \<Longrightarrow> (push_bit k q OR y) AND push_bit k r = push_bit k (q AND r)" for q y r :: int
  by (rule bit_eqI) (auto simp: bit_push_bit_iff bit_or_iff bit_and_iff bit_xor_iff dest: bit_below)

lemma high_xor: "0 \<le> y \<Longrightarrow> y < 2 ^ k \<Longrightarrow> (push_bit k q OR y) XOR push_bit k r = push_bit k (q XOR r) OR y" for q y r :: int
  by (rule bit_eqI) (auto simp: bit_push_bit_iff bit_or_iff bit_and_iff bit_xor_iff dest: bit_below)

lemma uint_mask: "uint (b AND mask k) = uint b mod 2 ^ k"
proof -
  have "uint (b AND mask k) = take_bit k (uint b)"
    by (simp only: take_bit_eq_mask [symmetric] unsigned_take_bit_eq)
  then show ?thesis by (simp add: take_bit_eq_mod)
qed

lemma uint_ands: "uint (b AND 0x07) = uint b mod 8" "uint (b AND 0x0F) = uint b mod 16"
  "uint (b AND 0x1F) = uint b mod 32" "uint (b AND 0x3F) = uint b mod 64" for b :: byte
  by (simp_all add: byte_masks uint_mask)

lemma byte_less: "unat (b :: byte) < 256"
  using unsigned_less [of b] by simp

section \<open>Writes into a slice\<close>

lemma slice_put_at [simp]: "slice_put (xs @ x # ys) (int (length xs)) v = Some (xs @ v # ys)"
  by (simp add: slice_put_def)

lemma slice_put_past: "slice_put xs (int (length xs) + int k) v = None"
  by (simp add: slice_put_def)

end
