(* ===== verification/Utf8.thy ===== *)
theory Utf8
  imports Go_Bytes
begin

text \<open>
  Package \<open>utf8\<close> (src/go/src/pkg/utf8/utf8.go) and the decoder behind \<open>for range\<close> on
  strings (\<open>charntorune\<close> of src/go/src/pkg/runtime/rune.c). A rune is an \<open>int\<close>; a string
  and a byte slice are lists of bytes. Shifts and masks are kept as in the source; the
  lemmas of the first section turn them into arithmetic.
\<close>

section \<open>The model\<close>

abbreviation RuneError :: int where "RuneError \<equiv> 0xFFFD"
abbreviation MaxRune :: int where "MaxRune \<equiv> 0x10FFFF"
abbreviation rune1Max :: int where "rune1Max \<equiv> 0x7F"
abbreviation rune2Max :: int where "rune2Max \<equiv> 0x7FF"
abbreviation rune3Max :: int where "rune3Max \<equiv> 0xFFFF"
abbreviation rune4Max :: int where "rune4Max \<equiv> 0x1FFFFF"
abbreviation tx :: byte where "tx \<equiv> 0x80"
abbreviation t2 :: byte where "t2 \<equiv> 0xC0"
abbreviation t3 :: byte where "t3 \<equiv> 0xE0"
abbreviation t4 :: byte where "t4 \<equiv> 0xF0"
abbreviation t5 :: byte where "t5 \<equiv> 0xF8"
abbreviation maskx :: byte where "maskx \<equiv> 0x3F"
abbreviation mask2 :: byte where "mask2 \<equiv> 0x1F"
abbreviation mask3 :: byte where "mask3 \<equiv> 0x0F"
abbreviation mask4 :: byte where "mask4 \<equiv> 0x07"

definition decodeRuneInternal :: "byte list \<Rightarrow> int \<times> int \<times> bool" where
  "decodeRuneInternal p =
     (let n = length p in
      if n < 1 then (RuneError, 0, True) else
      let c0 = p ! 0 in
      if c0 < tx then (uint c0, 1, False) else
      if c0 < t2 then (RuneError, 1, False) else
      if n < 2 then (RuneError, 1, True) else
      let c1 = p ! 1 in
      if c1 < tx \<or> t2 \<le> c1 then (RuneError, 1, False) else
      if c0 < t3 then
        (let rune = push_bit 6 (uint (c0 AND mask2)) OR uint (c1 AND maskx) in
         if rune \<le> rune1Max then (RuneError, 1, False) else (rune, 2, False)) else
      if n < 3 then (RuneError, 1, True) else
      let c2 = p ! 2 in
      if c2 < tx \<or> t2 \<le> c2 then (RuneError, 1, False) else
      if c0 < t4 then
        (let rune = push_bit 12 (uint (c0 AND mask3)) OR push_bit 6 (uint (c1 AND maskx)) OR
           uint (c2 AND maskx) in
         if rune \<le> rune2Max then (RuneError, 1, False) else (rune, 3, False)) else
      if n < 4 then (RuneError, 1, True) else
      let c3 = p ! 3 in
      if c3 < tx \<or> t2 \<le> c3 then (RuneError, 1, False) else
      if c0 < t5 then
        (let rune = push_bit 18 (uint (c0 AND mask4)) OR push_bit 12 (uint (c1 AND maskx)) OR
           push_bit 6 (uint (c2 AND maskx)) OR uint (c3 AND maskx) in
         if rune \<le> rune3Max then (RuneError, 1, False) else (rune, 4, False)) else
      (RuneError, 1, False))"

text \<open>The same code on a string.\<close>

definition decodeRuneInStringInternal :: "byte list \<Rightarrow> int \<times> int \<times> bool" where
  "decodeRuneInStringInternal s = decodeRuneInternal s"

definition FullRune :: "byte list \<Rightarrow> bool" where
  "FullRune p = (case decodeRuneInternal p of (_, _, short) \<Rightarrow> \<not> short)"

definition FullRuneInString :: "byte list \<Rightarrow> bool" where
  "FullRuneInString s = (case decodeRuneInStringInternal s of (_, _, short) \<Rightarrow> \<not> short)"

definition DecodeRune :: "byte list \<Rightarrow> int \<times> int" where
  "DecodeRune p = (case decodeRuneInternal p of (rune, sz, _) \<Rightarrow> (rune, sz))"

definition DecodeRuneInString :: "byte list \<Rightarrow> int \<times> int" where
  "DecodeRuneInString s = (case decodeRuneInStringInternal s of (rune, sz, _) \<Rightarrow> (rune, sz))"

definition RuneStart :: "byte \<Rightarrow> bool" where
  "RuneStart b \<longleftrightarrow> b AND 0xC0 \<noteq> 0x80"

function lastStart :: "byte list \<Rightarrow> int \<Rightarrow> int \<Rightarrow> int" where
  "lastStart p start lim =
     (if start \<ge> lim \<and> start \<ge> 0 then
        if RuneStart (p ! nat start) then start else lastStart p (start - 1) lim
      else start)"
  by pat_completeness auto
termination
  by (relation "measure (\<lambda>(p, start, lim). nat (start + 1))") auto

declare lastStart.simps [simp del]

text \<open>\<open>lim\<close> is not negative, so the loop reads inside the slice.\<close>

definition DecodeLastRune :: "byte list \<Rightarrow> int \<times> int" where
  "DecodeLastRune p =
     (let en = int (length p) in
      if en = 0 then (RuneError, 0) else
      let start = en - 1; rune = uint (p ! nat start) in
      if rune < 0x80 then (rune, 1) else
      let lim = en - 4; lim = (if lim < 0 then 0 else lim);
          start = lastStart p (start - 1) lim;
          start = (if start < 0 then 0 else start) in
      case DecodeRune (drop (nat start) p) of (rune, sz) \<Rightarrow>
        if start + sz \<noteq> en then (RuneError, 1) else (rune, sz))"

definition DecodeLastRuneInString :: "byte list \<Rightarrow> int \<times> int" where
  "DecodeLastRuneInString s = DecodeLastRune s"

definition RuneLen :: "int \<Rightarrow> int" where
  "RuneLen rune =
     (if rune \<le> rune1Max then 1 else if rune \<le> rune2Max then 2
      else if rune \<le> rune3Max then 3 else if rune \<le> rune4Max then 4 else - 1)"

definition EncodeRune :: "byte list \<Rightarrow> int \<Rightarrow> (byte list \<times> int) option" where
  "EncodeRune p rune =
     (let r = word_of_int rune :: uint32 in
      if r \<le> 0x7F then do {
        p \<leftarrow> slice_put p 0 (ucast r);
        Some (p, 1) }
      else if r \<le> 0x7FF then do {
        p \<leftarrow> slice_put p 0 (t2 OR ucast (drop_bit 6 r));
        p \<leftarrow> slice_put p 1 (tx OR ucast r AND maskx);
        Some (p, 2) }
      else let r = (if r > 0x10FFFF then 0xFFFD else r) in
      if r \<le> 0xFFFF then do {
        p \<leftarrow> slice_put p 0 (t3 OR ucast (drop_bit 12 r));
        p \<leftarrow> slice_put p 1 (tx OR ucast (drop_bit 6 r) AND maskx);
        p \<leftarrow> slice_put p 2 (tx OR ucast r AND maskx);
        Some (p, 3) }
      else do {
        p \<leftarrow> slice_put p 0 (t4 OR ucast (drop_bit 18 r));
        p \<leftarrow> slice_put p 1 (tx OR ucast (drop_bit 12 r) AND maskx);
        p \<leftarrow> slice_put p 2 (tx OR ucast (drop_bit 6 r) AND maskx);
        p \<leftarrow> slice_put p 3 (tx OR ucast r AND maskx);
        Some (p, 4) })"

lemma DecodeRune_size: "(r, n) = DecodeRune (drop k p) \<Longrightarrow> k < length p \<Longrightarrow> 0 < n"
  by (auto simp: DecodeRune_def decodeRuneInternal_def Let_def split: if_splits)

function runeCountLoop :: "byte list \<Rightarrow> int \<Rightarrow> int \<Rightarrow> int" where
  "runeCountLoop p i n =
     (if 0 \<le> i \<and> i < int (length p) then
        if p ! nat i < tx then runeCountLoop p (i + 1) (n + 1)
        else case DecodeRune (drop (nat i) p) of (_, sz) \<Rightarrow> runeCountLoop p (i + sz) (n + 1)
      else n)"
  by pat_completeness auto
termination
  by (relation "measure (\<lambda>(p, i, n). nat (int (length p) - i))") (auto dest: DecodeRune_size)

declare runeCountLoop.simps [simp del]

definition RuneCount :: "byte list \<Rightarrow> int" where
  "RuneCount p = runeCountLoop p 0 0"

text \<open>The runtime's decoder, which the language's \<open>for range\<close> on a string calls.\<close>

definition charntorune :: "byte list \<Rightarrow> int \<times> int" where
  "charntorune s =
     (let len = length s in
      if len \<le> 0 then (RuneError, 1) else
      let c = uint (s ! 0) in
      if c < 0x80 then (c, 1) else
      if len \<le> 1 then (RuneError, 1) else
      let c1 = uint (s ! 1) XOR 0x80 in
      if c1 AND 0xC0 \<noteq> 0 then (RuneError, 1) else
      if c < 0xE0 then
        (if c < 0xC0 then (RuneError, 1) else
         let l = (push_bit 6 c OR c1) AND 0x7FF in
         if l \<le> 0x7F then (RuneError, 1) else (l, 2)) else
      if len \<le> 2 then (RuneError, 1) else
      let c2 = uint (s ! 2) XOR 0x80 in
      if c2 AND 0xC0 \<noteq> 0 then (RuneError, 1) else
      if c < 0xF0 then
        (let l = (push_bit 6 (push_bit 6 c OR c1) OR c2) AND 0xFFFF in
         if l \<le> 0x7FF then (RuneError, 1) else (l, 3)) else
      if len \<le> 3 then (RuneError, 1) else
      let c3 = uint (s ! 3) XOR 0x80 in
      if c3 AND 0xC0 \<noteq> 0 then (RuneError, 1) else
      if c < 0xF8 then
        (let l = (push_bit 6 (push_bit 6 (push_bit 6 c OR c1) OR c2) OR c3) AND 0x1FFFFF in
         if l \<le> 0xFFFF \<or> l > 0x10FFFF then (RuneError, 1) else (l, 4)) else
      (RuneError, 1))"

lemma charntorune_size: "(r, n) = charntorune p \<Longrightarrow> 0 < n"
  by (auto simp: charntorune_def Let_def split: if_splits)

text \<open>The runes that \<open>for range\<close> yields, with their widths.\<close>

function rangeRunes :: "byte list \<Rightarrow> (int \<times> int) list" where
  "rangeRunes s =
     (if s = [] then [] else
      case charntorune s of (r, n) \<Rightarrow> (r, n) # rangeRunes (drop (nat n) s))"
  by pat_completeness auto
termination
  by (relation "measure length") (auto dest: charntorune_size)

declare rangeRunes.simps [simp del]

definition RuneCountInString :: "byte list \<Rightarrow> int" where
  "RuneCountInString s = int (length (rangeRunes s))"

section \<open>The encoding\<close>

text \<open>The bytes of a rune of at most 21 bits, in arithmetic.\<close>

definition utf8_ints :: "int \<Rightarrow> int list" where
  "utf8_ints r =
     (if r \<le> 0x7F then [r]
      else if r \<le> 0x7FF then [0xC0 + r div 64, 0x80 + r mod 64]
      else if r \<le> 0xFFFF then [0xE0 + r div 4096, 0x80 + r div 64 mod 64, 0x80 + r mod 64]
      else [0xF0 + r div 262144, 0x80 + r div 4096 mod 64, 0x80 + r div 64 mod 64, 0x80 + r mod 64])"

definition utf8 :: "int \<Rightarrow> byte list" where
  "utf8 r = map word_of_int (utf8_ints r)"

lemma byte_top:
  fixes b :: byte
  shows "(uint b XOR 0x80) AND 0xC0 = 0 \<longleftrightarrow> 0x80 \<le> uint b \<and> uint b < 0xC0" 
    and "0x80 \<le> uint b \<Longrightarrow> uint b < 0xC0 \<Longrightarrow> uint b XOR 0x80 = uint b mod 64"
    and "uint b AND 0xC0 = 0x80 \<longleftrightarrow> 0x80 \<le> uint b \<and> uint b < 0xC0"
proof -
  define q y where "q = uint b div 64" and "y = uint b mod 64"
  have y: "0 \<le> y" "y < 2 ^ 6" and q: "0 \<le> q" "q < 4" and b: "uint b = q * 2 ^ 6 + y"
    using uint_bounded [of b] uint_ge_0 [of b] by (auto simp: q_def y_def pos_imp_zdiv_nonneg_iff)
  have e: "uint b = push_bit 6 q OR y" using or_add [OF y, of q] b by simp
  have c: "(0x80 :: int) = push_bit 6 2" "(0xC0 :: int) = push_bit 6 3" by simp_all
  have qs: "q = 0 \<or> q = 1 \<or> q = 2 \<or> q = 3" using q by linarith
  have x: "uint b XOR 0x80 = push_bit 6 (q XOR 2) OR y"
    unfolding e c by (rule high_xor [OF y])
  have z: "(uint b XOR 0x80) AND 0xC0 = push_bit 6 ((q XOR 2) AND 3)"
    unfolding x unfolding c by (rule high_and [OF y])
  show "(uint b XOR 0x80) AND 0xC0 = 0 \<longleftrightarrow> 0x80 \<le> uint b \<and> uint b < 0xC0" 
    unfolding z using qs y b by auto
  show "uint b XOR 0x80 = uint b mod 64" if "0x80 \<le> uint b" "uint b < 0xC0"
  proof -
    have "q = 2" using that b y qs by auto
    then show ?thesis unfolding x by (simp add: y_def)
  qed
  have w: "uint b AND 0xC0 = push_bit 6 (q AND 3)"
    unfolding e c by (rule high_and [OF y])
  show "uint b AND 0xC0 = 0x80 \<longleftrightarrow> 0x80 \<le> uint b \<and> uint b < 0xC0"
    unfolding w using qs y b by auto
qed

lemma or_shift: "0 \<le> y \<Longrightarrow> y < 64 \<Longrightarrow> push_bit 6 a OR y = a * 64 + y" for a y :: int
  using or_add [of y 6 a] by simp

definition rune2 :: "int \<Rightarrow> int \<Rightarrow> int" where
  "rune2 x0 x1 = x0 mod 32 * 64 + x1 mod 64"

definition rune3 :: "int \<Rightarrow> int \<Rightarrow> int \<Rightarrow> int" where
  "rune3 x0 x1 x2 = (x0 mod 16 * 64 + x1 mod 64) * 64 + x2 mod 64"

definition rune4 :: "int \<Rightarrow> int \<Rightarrow> int \<Rightarrow> int \<Rightarrow> int" where
  "rune4 x0 x1 x2 x3 = ((x0 mod 8 * 64 + x1 mod 64) * 64 + x2 mod 64) * 64 + x3 mod 64"

lemma mod_64: "0 \<le> x mod 64" "x mod 64 < 64" for x :: int
  by simp_all

lemma shift_digits:
  "push_bit 6 a OR b mod 64 = a * 64 + b mod 64"
  "push_bit 12 a OR push_bit 6 (b mod 64) OR c mod 64 = (a * 64 + b mod 64) * 64 + c mod 64"
  "push_bit 18 a OR push_bit 12 (b mod 64) OR push_bit 6 (c mod 64) OR d mod 64 =
     ((a * 64 + b mod 64) * 64 + c mod 64) * 64 + d mod 64" for a b c d :: int
proof -
  have "push_bit 12 a OR push_bit 6 (b mod 64) OR c mod 64 = push_bit 6 (push_bit 6 a OR b mod 64) OR c mod 64"
    by (simp add: push_bit_or or.assoc)
  moreover have "push_bit 18 a OR push_bit 12 (b mod 64) OR push_bit 6 (c mod 64) OR d mod 64 =
      push_bit 6 (push_bit 6 (push_bit 6 a OR b mod 64) OR c mod 64) OR d mod 64"
    by (simp add: push_bit_or or.assoc)
  ultimately show
    "push_bit 6 a OR b mod 64 = a * 64 + b mod 64"
    "push_bit 12 a OR push_bit 6 (b mod 64) OR c mod 64 = (a * 64 + b mod 64) * 64 + c mod 64"
    "push_bit 18 a OR push_bit 12 (b mod 64) OR push_bit 6 (c mod 64) OR d mod 64 =
       ((a * 64 + b mod 64) * 64 + c mod 64) * 64 + d mod 64"
    by (simp_all only: or_shift [OF mod_64])
qed

lemma rune_shifts:
  fixes c0 c1 c2 c3 :: byte
  shows "push_bit 6 (uint (c0 AND mask2)) OR uint (c1 AND maskx) = rune2 (uint c0) (uint c1)"
    and "push_bit 12 (uint (c0 AND mask3)) OR push_bit 6 (uint (c1 AND maskx)) OR uint (c2 AND maskx) =
      rune3 (uint c0) (uint c1) (uint c2)"
    and "push_bit 18 (uint (c0 AND mask4)) OR push_bit 12 (uint (c1 AND maskx)) OR
      push_bit 6 (uint (c2 AND maskx)) OR uint (c3 AND maskx) = rune4 (uint c0) (uint c1) (uint c2) (uint c3)"
  unfolding rune2_def rune3_def rune4_def uint_ands by (rule shift_digits)+

lemma byte_cmp:
  "c < 0x80 \<longleftrightarrow> uint c < 0x80" "c < 0xC0 \<longleftrightarrow> uint c < 0xC0" "c < 0xE0 \<longleftrightarrow> uint c < 0xE0"
  "c < 0xF0 \<longleftrightarrow> uint c < 0xF0" "c < 0xF8 \<longleftrightarrow> uint c < 0xF8" "0xC0 \<le> c \<longleftrightarrow> 0xC0 \<le> uint c" for c :: byte
  by (simp_all add: word_less_def word_le_def)

lemma decode_Nil: "decodeRuneInternal [] = (RuneError, 0, True)"
  by (simp add: decodeRuneInternal_def)

lemma decode_Cons:
  "decodeRuneInternal (c0 # p) =
     (let x0 = uint c0 in
      if x0 < 0x80 then (x0, 1, False) else if x0 < 0xC0 then (RuneError, 1, False) else
      (case p of [] \<Rightarrow> (RuneError, 1, True) | c1 # p \<Rightarrow> let x1 = uint c1 in
      if x1 < 0x80 \<or> 0xC0 \<le> x1 then (RuneError, 1, False) else
      if x0 < 0xE0 then
        (let r = rune2 x0 x1 in if r \<le> 0x7F then (RuneError, 1, False) else (r, 2, False)) else
      (case p of [] \<Rightarrow> (RuneError, 1, True) | c2 # p \<Rightarrow> let x2 = uint c2 in
      if x2 < 0x80 \<or> 0xC0 \<le> x2 then (RuneError, 1, False) else
      if x0 < 0xF0 then
        (let r = rune3 x0 x1 x2 in if r \<le> 0x7FF then (RuneError, 1, False) else (r, 3, False)) else
      (case p of [] \<Rightarrow> (RuneError, 1, True) | c3 # p \<Rightarrow> let x3 = uint c3 in
      if x3 < 0x80 \<or> 0xC0 \<le> x3 then (RuneError, 1, False) else
      if x0 < 0xF8 then
        (let r = rune4 x0 x1 x2 x3 in if r \<le> 0xFFFF then (RuneError, 1, False) else (r, 4, False)) else
      (RuneError, 1, False)))))"
proof -
  note unf = decodeRuneInternal_def Let_def rune_shifts byte_cmp
  consider "p = []" | c1 where "p = [c1]" | c1 c2 where "p = [c1, c2]" | c1 c2 c3 q where "p = c1 # c2 # c3 # q"
    by (cases p; cases "tl p"; cases "tl (tl p)") auto
  then show ?thesis
  proof cases
    case 1
    show ?thesis unfolding 1 unf by simp
  next
    case 2
    show ?thesis unfolding 2 unf by simp
  next
    case 3
    show ?thesis unfolding 3 unf by simp
  next
    case 4
    show ?thesis unfolding 4 unf by simp
  qed
qed

text \<open>The runes of the multi-byte forms, and the digits of a rune.\<close>

lemma digit: "0 \<le> b \<Longrightarrow> b < m \<Longrightarrow> (a * m + b) mod m = b" "0 \<le> b \<Longrightarrow> b < m \<Longrightarrow> (a * m + b) div m = a"
  for a b m :: int
  by simp_all

lemma tag_digits:
  "0 \<le> a \<Longrightarrow> a < 32 \<Longrightarrow> (0xC0 + a) mod 32 = a" "0 \<le> a \<Longrightarrow> a < 16 \<Longrightarrow> (0xE0 + a) mod 16 = a"
  "0 \<le> a \<Longrightarrow> a < 8 \<Longrightarrow> (0xF0 + a) mod 8 = a" "0 \<le> a \<Longrightarrow> a < 64 \<Longrightarrow> (0x80 + a) mod 64 = a" for a :: int
  by (rule digit(1) [of a 32 6, simplified] digit(1) [of a 16 14, simplified]
      digit(1) [of a 8 30, simplified] digit(1) [of a 64 2, simplified]; assumption)+

lemma rune2_digits:
  "0 \<le> a \<Longrightarrow> a < 32 \<Longrightarrow> 0 \<le> b \<Longrightarrow> b < 64 \<Longrightarrow> rune2 (0xC0 + a) (0x80 + b) = a * 64 + b"
  by (simp only: rune2_def tag_digits)

lemma rune3_digits:
  "0 \<le> a \<Longrightarrow> a < 16 \<Longrightarrow> 0 \<le> b \<Longrightarrow> b < 64 \<Longrightarrow> 0 \<le> c \<Longrightarrow> c < 64 \<Longrightarrow>
   rune3 (0xE0 + a) (0x80 + b) (0x80 + c) = (a * 64 + b) * 64 + c"
  by (simp only: rune3_def tag_digits)

lemma rune4_digits:
  "0 \<le> a \<Longrightarrow> a < 8 \<Longrightarrow> 0 \<le> b \<Longrightarrow> b < 64 \<Longrightarrow> 0 \<le> c \<Longrightarrow> c < 64 \<Longrightarrow> 0 \<le> d \<Longrightarrow> d < 64 \<Longrightarrow>
   rune4 (0xF0 + a) (0x80 + b) (0x80 + c) (0x80 + d) = ((a * 64 + b) * 64 + c) * 64 + d"
  by (simp only: rune4_def tag_digits)

lemma utf8_ints_if:
  "0x7F < r \<Longrightarrow> r \<le> 0x7FF \<Longrightarrow> utf8_ints r = [0xC0 + r div 64, 0x80 + r mod 64]"
  "0x7FF < r \<Longrightarrow> r \<le> 0xFFFF \<Longrightarrow> utf8_ints r = [0xE0 + r div 64 div 64, 0x80 + r div 64 mod 64, 0x80 + r mod 64]"
  "0xFFFF < r \<Longrightarrow> utf8_ints r =
     [0xF0 + r div 64 div 64 div 64, 0x80 + r div 64 div 64 mod 64, 0x80 + r div 64 mod 64, 0x80 + r mod 64]"
  by (simp_all add: utf8_ints_def zdiv_zmult2_eq [symmetric])

lemma utf8_ints2:
  assumes "0 \<le> a" "a < 32" "0 \<le> b" "b < 64" "0x7F < a * 64 + b"
  shows "utf8_ints (a * 64 + b) = [0xC0 + a, 0x80 + b]"
proof -
  have "a * 64 + b \<le> 0x7FF" using assms by simp
  with assms(5) show ?thesis by (simp only: utf8_ints_if digit [OF assms(3,4)])
qed

lemma utf8_ints3:
  assumes "0 \<le> a" "a < 16" and b: "0 \<le> b" "b < 64" and c: "0 \<le> c" "c < 64"
    and "0x7FF < (a * 64 + b) * 64 + c"
  shows "utf8_ints ((a * 64 + b) * 64 + c) = [0xE0 + a, 0x80 + b, 0x80 + c]"
proof -
  have "(a * 64 + b) * 64 + c \<le> 0xFFFF" using assms by simp
  with assms(7) show ?thesis by (simp only: utf8_ints_if digit [OF c] digit [OF b])
qed

lemma utf8_ints4:
  assumes b: "0 \<le> b" "b < 64" and c: "0 \<le> c" "c < 64" and d: "0 \<le> d" "d < 64"
    and "0xFFFF < ((a * 64 + b) * 64 + c) * 64 + d"
  shows "utf8_ints (((a * 64 + b) * 64 + c) * 64 + d) = [0xF0 + a, 0x80 + b, 0x80 + c, 0x80 + d]"
  using assms(7) by (simp only: utf8_ints_if digit [OF d] digit [OF c] digit [OF b])

text \<open>Decoding is the inverse of the encoding, whatever follows.\<close>

lemma uint_byte: "0 \<le> x \<Longrightarrow> x < 256 \<Longrightarrow> uint (word_of_int x :: byte) = x"
  by (simp add: uint_word_of_int_eq take_bit_int_eq_self)

lemma rune_cases:
  fixes r :: int
  assumes r: "0 \<le> r" "r \<le> 0x1FFFFF"
  obtains (1) "r \<le> 0x7F"
    | (2) a b where "0 \<le> a" "a < 32" "0 \<le> b" "b < 64" "0x7F < a * 64 + b" "r = a * 64 + b"
    | (3) a b c where "0 \<le> a" "a < 16" "0 \<le> b" "b < 64" "0 \<le> c" "c < 64" "0x7FF < (a * 64 + b) * 64 + c"
        "r = (a * 64 + b) * 64 + c"
    | (4) a b c d where "0 \<le> a" "a < 8" "0 \<le> b" "b < 64" "0 \<le> c" "c < 64" "0 \<le> d" "d < 64"
        "0xFFFF < ((a * 64 + b) * 64 + c) * 64 + d" "r = ((a * 64 + b) * 64 + c) * 64 + d"
proof -
  define d c b where "d = r mod 64" and "c = r div 64 mod 64" and "b = r div 64 div 64 mod 64"
  define a2 a3 a4 where "a2 = r div 64" and "a3 = r div 64 div 64" and "a4 = r div 64 div 64 div 64"
  have bnd: "0 \<le> d" "d < 64" "0 \<le> c" "c < 64" "0 \<le> b" "b < 64" by (simp_all add: d_def c_def b_def)
  have nn: "0 \<le> a2" "0 \<le> a3" "0 \<le> a4"
    using r by (simp_all add: a2_def a3_def a4_def pos_imp_zdiv_nonneg_iff)
  have e: "r = a2 * 64 + d" "a2 = a3 * 64 + c" "a3 = a4 * 64 + b"
    by (simp_all add: d_def c_def b_def a2_def a3_def a4_def)
  have r3: "r = (a3 * 64 + c) * 64 + d" using e(1) unfolding e(2) .
  have r4: "r = ((a4 * 64 + b) * 64 + c) * 64 + d" using r3 unfolding e(3) .
  have lt: "r \<le> 0xFFFF \<Longrightarrow> a3 < 16" "a4 < 8" using r3 r4 r bnd by simp_all
  consider "r \<le> 0x7F" | "0x7F < r" "r \<le> 0x7FF" | "0x7FF < r" "r \<le> 0xFFFF" | "0xFFFF < r" by linarith
  then show thesis
  proof cases
    case 1
    then show thesis by (rule that(1))
  next
    case 2
    then show thesis using bnd nn e(1) by (intro that(2) [of a2 d]) linarith+
  next
    case 3
    then show thesis using bnd nn lt r3 by (intro that(3) [of a3 c d]) simp_all
  next
    case 4
    then show thesis using bnd nn lt r4 by (intro that(4) [of a4 b c d]) simp_all
  qed
qed

lemma decode_utf8:
  assumes "0 \<le> r" "r \<le> 0x1FFFFF"
  shows "decodeRuneInternal (utf8 r @ rest) = (r, int (length (utf8 r)), False)"
  using assms
proof (cases r rule: rune_cases)
  case 1
  then show ?thesis using assms by (simp add: utf8_def utf8_ints_def decode_Cons uint_byte)
next
  case (2 a b)
  then have "utf8_ints r = [0xC0 + a, 0x80 + b]" "rune2 (0xC0 + a) (0x80 + b) = r" "0x7F < r"
    by (simp_all only: utf8_ints2 rune2_digits)
  with 2(1-4) show ?thesis
    by (simp add: utf8_def decode_Cons uint_byte Let_def del: of_int_add)
next
  case (3 a b c)
  then have "utf8_ints r = [0xE0 + a, 0x80 + b, 0x80 + c]" "rune3 (0xE0 + a) (0x80 + b) (0x80 + c) = r" "0x7FF < r"
    by (simp_all only: utf8_ints3 rune3_digits)
  with 3(1-6) show ?thesis
    by (simp add: utf8_def decode_Cons uint_byte Let_def del: of_int_add)
next
  case (4 a b c d)
  then have "utf8_ints r = [0xF0 + a, 0x80 + b, 0x80 + c, 0x80 + d]" "rune4 (0xF0 + a) (0x80 + b) (0x80 + c) (0x80 + d) = r" "0xFFFF < r"
    by (simp_all only: utf8_ints4 rune4_digits)
  with 4(1-8) show ?thesis
    by (simp add: utf8_def decode_Cons uint_byte Let_def del: of_int_add)
qed

lemma utf8_rune2:
  assumes c: "0xC0 \<le> uint c0" "uint c0 < 0xE0" "0x80 \<le> uint c1" "uint c1 < 0xC0"
    and r: "0x7F < rune2 (uint c0) (uint c1)"
  shows "utf8 (rune2 (uint c0) (uint c1)) = [c0, c1]" "0 \<le> rune2 (uint c0) (uint c1)" "rune2 (uint c0) (uint c1) \<le> 0x1FFFFF"
proof -
  define a where "a = uint c0 - 0xC0"
  define b where "b = uint c1 - 0x80"
  have bnd: "0 \<le> a" "a < 32" "0 \<le> b" "b < 64" using c by (simp_all add: a_def b_def)
  have u: "uint c0 = 0xC0 + a" "uint c1 = 0x80 + b"
    by (simp_all add: a_def b_def)
  have e: "rune2 (uint c0) (uint c1) = a * 64 + b"
    unfolding u by (rule rune2_digits) (fact bnd)+
  have l: "0x7F < a * 64 + b" using r unfolding e .
  have "utf8_ints (rune2 (uint c0) (uint c1)) = [uint c0, uint c1]"
    unfolding e unfolding u by (rule utf8_ints2) (fact bnd l)+
  then show "utf8 (rune2 (uint c0) (uint c1)) = [c0, c1]" by (simp add: utf8_def)
  show "0 \<le> rune2 (uint c0) (uint c1)" using r by linarith
  show "rune2 (uint c0) (uint c1) \<le> 0x1FFFFF" unfolding e using bnd by simp
qed

lemma utf8_rune3:
  assumes c: "0xE0 \<le> uint c0" "uint c0 < 0xF0" "0x80 \<le> uint c1" "uint c1 < 0xC0" "0x80 \<le> uint c2" "uint c2 < 0xC0"
    and r: "0x7FF < rune3 (uint c0) (uint c1) (uint c2)"
  shows "utf8 (rune3 (uint c0) (uint c1) (uint c2)) = [c0, c1, c2]" "0 \<le> rune3 (uint c0) (uint c1) (uint c2)" "rune3 (uint c0) (uint c1) (uint c2) \<le> 0x1FFFFF"
proof -
  define a where "a = uint c0 - 0xE0"
  define b where "b = uint c1 - 0x80"
  define c where "c = uint c2 - 0x80"
  have bnd: "0 \<le> a" "a < 16" "0 \<le> b" "b < 64" "0 \<le> c" "c < 64" using c by (simp_all add: a_def b_def c_def)
  have u: "uint c0 = 0xE0 + a" "uint c1 = 0x80 + b" "uint c2 = 0x80 + c"
    by (simp_all add: a_def b_def c_def)
  have e: "rune3 (uint c0) (uint c1) (uint c2) = (a * 64 + b) * 64 + c"
    unfolding u by (rule rune3_digits) (fact bnd)+
  have l: "0x7FF < (a * 64 + b) * 64 + c" using r unfolding e .
  have "utf8_ints (rune3 (uint c0) (uint c1) (uint c2)) = [uint c0, uint c1, uint c2]"
    unfolding e unfolding u by (rule utf8_ints3) (fact bnd l)+
  then show "utf8 (rune3 (uint c0) (uint c1) (uint c2)) = [c0, c1, c2]" by (simp add: utf8_def)
  show "0 \<le> rune3 (uint c0) (uint c1) (uint c2)" using r by linarith
  show "rune3 (uint c0) (uint c1) (uint c2) \<le> 0x1FFFFF" unfolding e using bnd by simp
qed

lemma utf8_rune4:
  assumes c: "0xF0 \<le> uint c0" "uint c0 < 0xF8" "0x80 \<le> uint c1" "uint c1 < 0xC0" "0x80 \<le> uint c2" "uint c2 < 0xC0" "0x80 \<le> uint c3" "uint c3 < 0xC0"
    and r: "0xFFFF < rune4 (uint c0) (uint c1) (uint c2) (uint c3)"
  shows "utf8 (rune4 (uint c0) (uint c1) (uint c2) (uint c3)) = [c0, c1, c2, c3]" "0 \<le> rune4 (uint c0) (uint c1) (uint c2) (uint c3)" "rune4 (uint c0) (uint c1) (uint c2) (uint c3) \<le> 0x1FFFFF"
proof -
  define a where "a = uint c0 - 0xF0"
  define b where "b = uint c1 - 0x80"
  define c where "c = uint c2 - 0x80"
  define d where "d = uint c3 - 0x80"
  have bnd: "0 \<le> a" "a < 8" "0 \<le> b" "b < 64" "0 \<le> c" "c < 64" "0 \<le> d" "d < 64" using c by (simp_all add: a_def b_def c_def d_def)
  have u: "uint c0 = 0xF0 + a" "uint c1 = 0x80 + b" "uint c2 = 0x80 + c" "uint c3 = 0x80 + d"
    by (simp_all add: a_def b_def c_def d_def)
  have e: "rune4 (uint c0) (uint c1) (uint c2) (uint c3) = ((a * 64 + b) * 64 + c) * 64 + d"
    unfolding u by (rule rune4_digits) (fact bnd)+
  have l: "0xFFFF < ((a * 64 + b) * 64 + c) * 64 + d" using r unfolding e .
  have "utf8_ints (rune4 (uint c0) (uint c1) (uint c2) (uint c3)) = [uint c0, uint c1, uint c2, uint c3]"
    unfolding e unfolding u by (rule utf8_ints4) (fact bnd l)+
  then show "utf8 (rune4 (uint c0) (uint c1) (uint c2) (uint c3)) = [c0, c1, c2, c3]" by (simp add: utf8_def)
  show "0 \<le> rune4 (uint c0) (uint c1) (uint c2) (uint c3)" using r by linarith
  show "rune4 (uint c0) (uint c1) (uint c2) (uint c3) \<le> 0x1FFFFF" unfolding e using bnd by simp
qed

lemma utf8_byte: "uint c < 0x80 \<Longrightarrow> utf8 (uint c) = [c]"
  by (simp add: utf8_def utf8_ints_def)

text \<open>Conversely, what is decoded without error is the encoding of the rune: no other form is accepted.\<close>

lemma decode_sound:
  assumes "decodeRuneInternal p = (r, n, short)"
  shows "r = RuneError \<and> n = (if p = [] then 0 else 1) \<or>
    (\<exists>rest. p = utf8 r @ rest \<and> 0 \<le> r \<and> r \<le> rune4Max \<and> n = int (length (utf8 r)) \<and> \<not> short)"
proof (cases p)
  case Nil
  with assms show ?thesis by (simp add: decode_Nil)
next
  case (Cons c0 q)
  note d = assms [unfolded Cons decode_Cons Let_def]
  consider "r = RuneError" "n = 1" | "uint c0 < 0x80" "(r, n, short) = (uint c0, 1, False)"
    | c1 q' where "q = c1 # q'" "0xC0 \<le> uint c0" "uint c0 < 0xE0" "0x80 \<le> uint c1" "uint c1 < 0xC0"
        "0x7F < rune2 (uint c0) (uint c1)" "(r, n, short) = (rune2 (uint c0) (uint c1), 2, False)"
    | c1 c2 q' where "q = c1 # c2 # q'" "0xE0 \<le> uint c0" "uint c0 < 0xF0" "0x80 \<le> uint c1" "uint c1 < 0xC0"
        "0x80 \<le> uint c2" "uint c2 < 0xC0" "0x7FF < rune3 (uint c0) (uint c1) (uint c2)"
        "(r, n, short) = (rune3 (uint c0) (uint c1) (uint c2), 3, False)"
    | c1 c2 c3 q' where "q = c1 # c2 # c3 # q'" "0xF0 \<le> uint c0" "uint c0 < 0xF8" "0x80 \<le> uint c1"
        "uint c1 < 0xC0" "0x80 \<le> uint c2" "uint c2 < 0xC0" "0x80 \<le> uint c3" "uint c3 < 0xC0"
        "0xFFFF < rune4 (uint c0) (uint c1) (uint c2) (uint c3)"
        "(r, n, short) = (rune4 (uint c0) (uint c1) (uint c2) (uint c3), 4, False)"
    using d by (auto split: if_splits list.splits simp: not_less not_le)
  then show ?thesis
  proof cases
    case 2
    then show ?thesis using utf8_byte [of c0] by (simp add: Cons)
  next
    case (3 c1 q')
    then show ?thesis using utf8_rune2 [of c0 c1] by (simp add: Cons)
  next
    case (4 c1 c2 q')
    then show ?thesis using utf8_rune3 [of c0 c1 c2] by (simp add: Cons)
  next
    case (5 c1 c2 c3 q')
    then show ?thesis using utf8_rune4 [of c0 c1 c2 c3] by (simp add: Cons)
  qed (simp add: Cons)
qed

end
