(* ===== verification/Utf8_Runes.thy ===== *)
theory Utf8_Runes
  imports Utf8
begin

text \<open>
  The sequence of runes of a byte string: the decoder of the runtime against that of the
  package, repeated decoding forwards (\<open>runes\<close>), decoding backwards and rune counts.
\<close>

unbundle bit_operations_syntax

section \<open>The decoder of the runtime\<close>

lemma horner_mod: "0 \<le> b \<Longrightarrow> b < 64 \<Longrightarrow> 0 \<le> m \<Longrightarrow> (c * 64 + b) mod (64 * m) = c mod m * 64 + b" for b c m :: int
  by (simp add: zmod_zmult2_eq)

lemma and_masks: "x AND 0x7FF = x mod 2048" "x AND 0xFFFF = x mod 65536" "x AND 0x1FFFFF = x mod 2097152" for x :: int
  using take_bit_eq_mask [of 11 x] take_bit_eq_mask [of 16 x] take_bit_eq_mask [of 21 x]
  by (simp_all add: mask_eq_exp_minus_1 take_bit_eq_mod)

lemma horner_mods:
  "0 \<le> b \<Longrightarrow> b < 64 \<Longrightarrow> (c * 64 + b) mod 512 = c mod 8 * 64 + b"
  "0 \<le> b \<Longrightarrow> b < 64 \<Longrightarrow> (c * 64 + b) mod 1024 = c mod 16 * 64 + b"
  "0 \<le> b \<Longrightarrow> b < 64 \<Longrightarrow> (c * 64 + b) mod 2048 = c mod 32 * 64 + b"
  "0 \<le> b \<Longrightarrow> b < 64 \<Longrightarrow> (c * 64 + b) mod 32768 = c mod 512 * 64 + b"
  "0 \<le> b \<Longrightarrow> b < 64 \<Longrightarrow> (c * 64 + b) mod 65536 = c mod 1024 * 64 + b"
  "0 \<le> b \<Longrightarrow> b < 64 \<Longrightarrow> (c * 64 + b) mod 2097152 = c mod 32768 * 64 + b" for b c :: int
  by (rule horner_mod [of b 8 c, simplified] horner_mod [of b 16 c, simplified] horner_mod [of b 32 c, simplified]
      horner_mod [of b 512 c, simplified] horner_mod [of b 1024 c, simplified]
      horner_mod [of b 32768 c, simplified]; assumption)+

lemma shift_runes:
  "(push_bit 6 x0 OR x1 mod 64) AND 0x7FF = rune2 x0 x1"
  "(push_bit 6 (push_bit 6 x0 OR x1 mod 64) OR x2 mod 64) AND 0xFFFF = rune3 x0 x1 x2"
  "(push_bit 6 (push_bit 6 (push_bit 6 x0 OR x1 mod 64) OR x2 mod 64) OR x3 mod 64) AND 0x1FFFFF = rune4 x0 x1 x2 x3"
  by (simp_all only: or_shift [OF mod_64] and_masks horner_mods [OF mod_64] rune2_def rune3_def rune4_def)

lemma cont_xor:
  "(uint b XOR 0x80) AND 0xC0 \<noteq> 0 \<longleftrightarrow> uint b < 0x80 \<or> 0xC0 \<le> uint b" for b :: byte
  using byte_top(1) [of b] by auto

lemma charntorune_Cons:
  "charntorune (c0 # p) =
     (let x0 = uint c0 in
      if x0 < 0x80 then (x0, 1) else
      (case p of [] \<Rightarrow> (RuneError, 1) | c1 # p \<Rightarrow> let x1 = uint c1 in
      if x1 < 0x80 \<or> 0xC0 \<le> x1 then (RuneError, 1) else
      if x0 < 0xE0 then
        (if x0 < 0xC0 then (RuneError, 1) else
         let r = rune2 x0 x1 in if r \<le> 0x7F then (RuneError, 1) else (r, 2)) else
      (case p of [] \<Rightarrow> (RuneError, 1) | c2 # p \<Rightarrow> let x2 = uint c2 in
      if x2 < 0x80 \<or> 0xC0 \<le> x2 then (RuneError, 1) else
      if x0 < 0xF0 then
        (let r = rune3 x0 x1 x2 in if r \<le> 0x7FF then (RuneError, 1) else (r, 3)) else
      (case p of [] \<Rightarrow> (RuneError, 1) | c3 # p \<Rightarrow> let x3 = uint c3 in
      if x3 < 0x80 \<or> 0xC0 \<le> x3 then (RuneError, 1) else
      if x0 < 0xF8 then
        (let r = rune4 x0 x1 x2 x3 in if r \<le> 0xFFFF \<or> r > 0x10FFFF then (RuneError, 1) else (r, 4)) else
      (RuneError, 1)))))"
proof -
  have c: "(if uint b < 0x80 \<or> 0xC0 \<le> uint b then x else f (uint b XOR 0x80)) =
      (if uint b < 0x80 \<or> 0xC0 \<le> uint b then x else f (uint b mod 64))" for b :: byte and x :: "int \<times> int" and f
    using byte_top(2) [of b] by auto
  note unf = charntorune_def Let_def cont_xor
  consider "p = []" | c1 where "p = [c1]" | c1 c2 where "p = [c1, c2]" | c1 c2 c3 q where "p = c1 # c2 # c3 # q"
    by (cases p; cases "tl p"; cases "tl (tl p)") auto
  then show ?thesis
  proof cases
    case 1
    show ?thesis unfolding 1 unf by simp
  next
    case (2 c1)
    show ?thesis unfolding 2 unf using byte_top(2) [of c1] by (simp add: shift_runes del: push_bit_or)
  next
    case (3 c1 c2)
    show ?thesis unfolding 3 unf using byte_top(2) [of c1] byte_top(2) [of c2] by (simp add: shift_runes del: push_bit_or)
  next
    case (4 c1 c2 c3)
    show ?thesis unfolding 4 unf using byte_top(2) [of c1] byte_top(2) [of c2] byte_top(2) [of c3]
      by (simp add: shift_runes del: push_bit_or)
  qed
qed

lemma rune_bounds: "rune2 x0 x1 \<le> 0x7FF" "rune3 x0 x1 x2 \<le> 0xFFFF"
proof -
  have "x0 mod 32 \<le> 31" "x0 mod 16 \<le> 15" "x1 mod 64 \<le> 63" "x2 mod 64 \<le> 63"
    using pos_mod_bound [of 32 x0] pos_mod_bound [of 16 x0] pos_mod_bound [of 64 x1] pos_mod_bound [of 64 x2] by simp_all
  note m = this
  define y where "y = x0 mod 16 * 64 + x1 mod 64"
  have "y \<le> 1023" using m unfolding y_def by linarith
  then show "rune3 x0 x1 x2 \<le> 0xFFFF" using m unfolding rune3_def y_def [symmetric] by linarith
  show "rune2 x0 x1 \<le> 0x7FF" using m unfolding rune2_def by linarith
qed

text \<open>The runtime rejects values above \<open>MaxRune\<close>, which the package accepts; they agree on the rest.\<close>

lemma charntorune_DecodeRune:
  assumes "p \<noteq> []"
  shows "charntorune p = (case DecodeRune p of (r, n) \<Rightarrow> if MaxRune < r then (RuneError, 1) else (r, n))"
proof -
  obtain c0 q where p: "p = c0 # q" using assms by (cases p) auto
  have b: "\<not> MaxRune < rune2 x0 x1" "\<not> MaxRune < rune3 x0 x1 x2" "\<not> MaxRune < uint (c :: byte)" for x0 x1 x2 c
    using rune_bounds(1) [of x0 x1] rune_bounds(2) [of x0 x1 x2] uint_bounded [of c] by auto
  show ?thesis
    unfolding p DecodeRune_def charntorune_Cons decode_Cons
    by (auto simp: Let_def b split: list.split)
qed

section \<open>Segmentation\<close>

text \<open>The sequence of runes and widths that repeated decoding yields.\<close>

lemma DecodeRune_pos: "(r, n) = DecodeRune p \<Longrightarrow> p \<noteq> [] \<Longrightarrow> 0 < n"
  using DecodeRune_size [of r n 0 p] by simp

function runes :: "byte list \<Rightarrow> (int \<times> int) list" where
  "runes p = (if p = [] then [] else case DecodeRune p of (r, n) \<Rightarrow> (r, n) # runes (drop (nat n) p))"
  by pat_completeness auto
termination
  by (relation "measure length") (auto dest: DecodeRune_pos)

declare runes.simps [simp del]

lemma runes_Nil [simp]: "runes [] = []"
  by (simp add: runes.simps)

lemma runes_step: "p \<noteq> [] \<Longrightarrow> DecodeRune p = (r, n) \<Longrightarrow> runes p = (r, n) # runes (drop (nat n) p)"
  by (subst runes.simps) simp

lemma DecodeRune_cases:
  assumes "p \<noteq> []"
  obtains (error) "DecodeRune p = (RuneError, 1)"
    | (rune) r rest where "p = utf8 r @ rest" "0 \<le> r" "r \<le> rune4Max" "DecodeRune p = (r, int (length (utf8 r)))"
proof -
  obtain r n short where d: "decodeRuneInternal p = (r, n, short)" by (cases "decodeRuneInternal p")
  then have D: "DecodeRune p = (r, n)" by (simp add: DecodeRune_def)
  from decode_sound [OF d] show thesis
  proof
    assume "r = RuneError \<and> n = (if p = [] then 0 else 1)"
    with D assms show thesis by (intro that(1)) simp
  next
    assume "\<exists>rest. p = utf8 r @ rest \<and> 0 \<le> r \<and> r \<le> rune4Max \<and> n = int (length (utf8 r)) \<and> \<not> short"
    with D show thesis using that(2) by blast
  qed
qed

lemma RuneStart_iff: "RuneStart b \<longleftrightarrow> \<not> (0x80 \<le> uint b \<and> uint b < 0xC0)"
proof -
  have "b AND 0xC0 = 0x80 \<longleftrightarrow> uint (b AND 0xC0) = uint (0x80 :: byte)" by (rule word_uint_eq_iff)
  also have "\<dots> \<longleftrightarrow> uint b AND 0xC0 = 0x80" by (simp add: unsigned_and_eq)
  also have "\<dots> \<longleftrightarrow> 0x80 \<le> uint b \<and> uint b < 0xC0" by (rule byte_top(3))
  finally show ?thesis by (simp add: RuneStart_def)
qed

lemma utf8_bytes:
  assumes "0 \<le> r" "r \<le> rune4Max"
  shows "\<exists>b bs. utf8 r = b # bs \<and> RuneStart b \<and> (\<forall>c \<in> set bs. \<not> RuneStart c) \<and> length bs \<le> 3 \<and>
    (bs = [] \<longrightarrow> uint b < 0x80) \<and> (bs \<noteq> [] \<longrightarrow> 0xC0 \<le> uint b)"
  using assms
proof (cases r rule: rune_cases)
  case 1
  then show ?thesis using assms by (simp add: utf8_def utf8_ints_def RuneStart_iff uint_byte)
next
  case (2 a b)
  then have "utf8_ints r = [0xC0 + a, 0x80 + b]" by (simp only: utf8_ints2)
  then show ?thesis using 2(1-4) by (simp add: utf8_def RuneStart_iff uint_byte del: of_int_add)
next
  case (3 a b c)
  then have "utf8_ints r = [0xE0 + a, 0x80 + b, 0x80 + c]" by (simp only: utf8_ints3)
  then show ?thesis using 3(1-6) by (simp add: utf8_def RuneStart_iff uint_byte del: of_int_add)
next
  case (4 a b c d)
  then have "utf8_ints r = [0xF0 + a, 0x80 + b, 0x80 + c, 0x80 + d]" by (simp only: utf8_ints4)
  then show ?thesis using 4(1-8) by (simp add: utf8_def RuneStart_iff uint_byte del: of_int_add)
qed

text \<open>A byte that can start a rune does start one: decoding never skips over it.\<close>

lemma runes_split:
  "k < length p \<Longrightarrow> RuneStart (p ! k) \<Longrightarrow> \<exists>xs. runes p = xs @ runes (drop k p)"
proof (induction "length p" arbitrary: p k rule: less_induct)
  case less
  show ?case
  proof (cases "k = 0")
    case False
    have ne: "p \<noteq> []" using less.prems by auto
    obtain r n where d: "DecodeRune p = (r, n)" by (cases "DecodeRune p")
    have n: "0 < n" using DecodeRune_size [of r n 0 p] ne d by simp
    have "nat n \<le> k"
      using ne
    proof (cases p rule: DecodeRune_cases)
      case error
      with d False show ?thesis by simp
    next
      case (rune r' rest)
      with utf8_bytes [of r'] obtain b bs where u: "utf8 r' = b # bs" "\<forall>c \<in> set bs. \<not> RuneStart c" by auto
      show ?thesis
      proof (rule ccontr)
        assume "\<not> nat n \<le> k"
        moreover have "nat n = Suc (length bs)" using rune(4) d u(1) by auto
        ultimately have "k < Suc (length bs)" by simp
        then have "p ! k \<in> set bs" using rune(1) u(1) False by (auto simp: nth_append nth_Cons')
        with u(2) less.prems(2) show False by simp
      qed
    qed
    moreover have "k - nat n < length p - nat n"
      using \<open>nat n \<le> k\<close> less.prems(1) by linarith
    ultimately obtain xs where "runes (drop (nat n) p) = xs @ runes (drop (k - nat n) (drop (nat n) p))"
      using less.hyps [of "drop (nat n) p" "k - nat n"] less.prems n ne by auto
    with runes_step [OF ne d] \<open>nat n \<le> k\<close> show ?thesis by (auto intro: exI [of _ "(r, n) # xs"])
  qed simp
qed

lemma DecodeRune_multi:
  assumes "p \<noteq> []" "DecodeRune p = (r, n)" "n \<noteq> 1"
  shows "RuneStart (p ! 0) \<and> 2 \<le> n \<and> n \<le> 4 \<and> n \<le> int (length p) \<and> (\<forall>i. 0 < i \<and> i < nat n \<longrightarrow> \<not> RuneStart (p ! i))"
  using assms(1)
proof (cases p rule: DecodeRune_cases)
  case (rune r' rest)
  with utf8_bytes [of r'] obtain b bs where u: "utf8 r' = b # bs" "RuneStart b" "\<forall>c \<in> set bs. \<not> RuneStart c" "length bs \<le> 3"
    by auto
  have n: "n = int (Suc (length bs))" using rune(4) assms(2) u(1) by simp
  have "p ! i \<in> set bs" if "0 < i" "i < nat n" for i
    using that rune(1) u(1) n by (auto simp: nth_append nth_Cons')
  moreover have "bs \<noteq> []" using n assms(3) by auto
  ultimately show ?thesis using u n rune(1) by (auto simp: Suc_le_eq)
qed (use assms in simp)

lemma runes_last: "runes p = xs @ [(r, n)] \<Longrightarrow> 0 < n \<and> n \<le> int (length p) \<and>
    DecodeRune (drop (length p - nat n) p) = (r, n)"
proof (induction p arbitrary: xs rule: runes.induct)
  case (1 p)
  have ne: "p \<noteq> []" using 1(2) by auto
  obtain r' n' where d: "DecodeRune p = (r', n')" by (cases "DecodeRune p")
  have n': "0 < n'" "n' \<le> int (length p)"
    using DecodeRune_pos [of r' n' p] d ne DecodeRune_multi [OF ne d] by (cases "n' = 1"; cases p; auto)+
  have s: "(r', n') # runes (drop (nat n') p) = xs @ [(r, n)]" using 1(2) runes_step [OF ne d] by simp
  show ?case
  proof (cases "runes (drop (nat n') p)" rule: rev_cases)
    case Nil
    then have "drop (nat n') p = []" by (subst (asm) runes.simps) (auto split: if_splits prod.splits)
    with Nil s d n' show ?thesis by auto
  next
    case (snoc ys y)
    with s have "y = (r, n)" by (metis append_is_Nil_conv append1_eq_conv append_Cons list.distinct(1))
    with 1(1) [OF ne d [symmetric], of ys] snoc have *: "0 < n" "n \<le> int (length (drop (nat n') p))"
        "DecodeRune (drop (length (drop (nat n') p) - nat n) (drop (nat n') p)) = (r, n)"
      by blast+
    have "length (drop (nat n') p) - nat n + nat n' = length p - nat n" using * n' by auto
    with *(3) have "DecodeRune (drop (length p - nat n) p) = (r, n)" by (simp add: add.commute)
    moreover have "n \<le> int (length p)" using *(2) by simp
    ultimately show ?thesis using *(1) by simp
  qed
qed

lemma lastStart_found:
  assumes "0 \<le> lim" "lim \<le> k" "k \<le> start" "RuneStart (p ! nat k)" "\<And>i. k < i \<Longrightarrow> i \<le> start \<Longrightarrow> \<not> RuneStart (p ! nat i)"
  shows "lastStart p start lim = k"
  using assms(3,5)
proof (induction "nat (start - k)" arbitrary: start)
  case 0
  with assms show ?case by (subst lastStart.simps) simp
next
  case (Suc m)
  then have "k < start" by simp
  with Suc assms(1,2) have "lastStart p start lim = lastStart p (start - 1) lim"
    by (subst lastStart.simps) simp
  also have "\<dots> = k" using Suc \<open>k < start\<close> by (intro Suc.hyps) auto
  finally show ?case .
qed

lemma lastStart_le: "lastStart p start lim \<le> start"
  by (induction p start lim rule: lastStart.induct) (subst lastStart.simps, auto)

lemma runes_ne: "p \<noteq> [] \<Longrightarrow> runes p \<noteq> []"
  by (subst runes.simps) (auto split: prod.splits)

text \<open>The position from which \<open>DecodeLastRune\<close> decodes.\<close>

definition lastPos :: "byte list \<Rightarrow> int" where
  "lastPos p = (let e = int (length p); s = lastStart p (e - 2) (if e - 4 < 0 then 0 else e - 4) in
     if s < 0 then 0 else s)"

lemma lastPos_range: "p \<noteq> [] \<Longrightarrow> 0 \<le> lastPos p \<and> nat (lastPos p) < length p"
proof -
  assume "p \<noteq> []"
  moreover have "lastStart p (int (length p) - 2) lim < int (length p)" for lim
    using lastStart_le [of p "int (length p) - 2" lim] by linarith
  ultimately show ?thesis by (auto simp: lastPos_def Let_def nat_less_iff)
qed

lemma DecodeLastRune_unfold:
  assumes "p \<noteq> []"
  shows "DecodeLastRune p = (if uint (p ! (length p - 1)) < 0x80 then (uint (p ! (length p - 1)), 1)
      else case DecodeRune (drop (nat (lastPos p)) p) of (r, n) \<Rightarrow>
        if lastPos p + n \<noteq> int (length p) then (RuneError, 1) else (r, n))"
proof -
  define e where "e = int (length p)"
  have "1 \<le> e" "nat (e - 1) = length p - 1" using assms by (auto simp: e_def Suc_le_eq)
  then show ?thesis
    unfolding e_def [symmetric] by (simp add: DecodeLastRune_def Let_def lastPos_def e_def [symmetric])
qed

lemma DecodeLastRune_single:
  assumes ne: "p \<noteq> []" and rs: "runes p = xs @ [(r, 1)]"
  shows "DecodeLastRune p = (r, 1)"
proof -
  let ?c = "p ! (length p - 1)"
  have dr: "drop (length p - 1) p = [?c]" using ne by (simp add: Cons_nth_drop_Suc [symmetric])
  then have d: "DecodeRune [?c] = (r, 1)" using runes_last [OF rs] by simp
  obtain r' n' where d': "DecodeRune (drop (nat (lastPos p)) p) = (r', n')"
    by (cases "DecodeRune (drop (nat (lastPos p)) p)")
  have eq: "(r', n') = (r, 1)" if kn: "lastPos p + n' = int (length p)"
  proof (cases "n' = 1")
    case True
    then have "nat (lastPos p) = length p - 1" using kn by simp
    with d' d True dr show ?thesis by simp
  next
    case False
    have q: "drop (nat (lastPos p)) p \<noteq> []" "nat (lastPos p) < length p" using lastPos_range [OF ne] by auto
    have "runes (drop (nat n') (drop (nat (lastPos p)) p)) = []" using kn lastPos_range [OF ne] by simp
    with runes_step [OF q(1) d'] have "runes (drop (nat (lastPos p)) p) = [(r', n')]" by simp
    moreover have "RuneStart (p ! nat (lastPos p))"
      using DecodeRune_multi [OF q(1) d' False] q(2) by (simp add: nth_drop)
    ultimately show ?thesis using runes_split [OF q(2)] rs by auto
  qed
  show ?thesis
  proof (cases "uint ?c < 0x80")
    case True
    with d show ?thesis unfolding DecodeLastRune_unfold [OF ne] by (simp add: DecodeRune_def decode_Cons)
  next
    case False
    then have "r = RuneError" using d by (auto simp: DecodeRune_def decode_Cons Let_def split: if_splits)
    with eq d' False show ?thesis unfolding DecodeLastRune_unfold [OF ne] by auto
  qed
qed

lemma DecodeLastRune_multi:
  assumes ne: "p \<noteq> []" and rs: "runes p = xs @ [(r, n)]" and n1: "n \<noteq> 1"
  shows "DecodeLastRune p = (r, n)"
proof -
  define e where "e = int (length p)"
  note L = runes_last [OF rs]
  let ?q = "drop (length p - nat n) p" and ?lim = "if e - 4 < 0 then 0 else e - 4"
  have q: "?q \<noteq> []" "DecodeRune ?q = (r, n)" using L by auto
  note M = DecodeRune_multi [OF q n1]
  have at: "?q ! i = p ! (length p - nat n + i)" for i using L by (simp add: nth_drop)
  have "\<not> RuneStart (p ! (length p - nat n + (nat n - 1)))" using M at [of "nat n - 1"] by auto
  moreover have "length p - nat n + (nat n - 1) = length p - 1" using L by auto
  ultimately have c: "\<not> uint (p ! (length p - 1)) < 0x80" by (auto simp: RuneStart_iff)
  have "lastStart p (e - 2) ?lim = e - n"
  proof (rule lastStart_found)
    show "RuneStart (p ! nat (e - n))" using M at [of 0] L by (simp add: e_def nat_diff_distrib)
    show "\<not> RuneStart (p ! nat i)" if "e - n < i" "i \<le> e - 2" for i
    proof -
      define j where "j = nat (i - (e - n))"
      have j: "length p - nat n + j = nat i" "0 < j" "j < nat n" using that L by (auto simp: e_def j_def)
      have "\<not> RuneStart (?q ! j)" using M j(2,3) by blast
      then show ?thesis unfolding at j(1) .
    qed
  qed (use M L in \<open>auto simp: e_def\<close>)
  then have k: "lastPos p = e - n" using L by (simp add: lastPos_def e_def [symmetric] Let_def)
  then have "nat (lastPos p) = length p - nat n" using L by (simp add: e_def nat_diff_distrib)
  with q(2) c k show ?thesis unfolding DecodeLastRune_unfold [OF ne] e_def by simp
qed

lemma DecodeLastRune_spec: "p \<noteq> [] \<Longrightarrow> DecodeLastRune p = last (runes p)"
proof -
  assume ne: "p \<noteq> []"
  obtain xs r n where rs: "runes p = xs @ [(r, n)]" using runes_ne [OF ne] by (metis rev_exhaust surj_pair)
  with DecodeLastRune_single [OF ne, of xs r] DecodeLastRune_multi [OF ne rs] show ?thesis
    by (cases "n = 1") auto
qed

lemma runeCountLoop_runes:
  "0 \<le> i \<Longrightarrow> runeCountLoop p i n = n + int (length (runes (drop (nat i) p)))"
proof (induction p i n rule: runeCountLoop.induct)
  case (1 p i n)
  show ?case
  proof (cases "i < int (length p)")
    case True
    then have ne: "drop (nat i) p \<noteq> []" using 1(3) by auto
    obtain r k where d: "DecodeRune (drop (nat i) p) = (r, k)" by (cases "DecodeRune (drop (nat i) p)")
    have k: "0 < k" using DecodeRune_pos [OF d [symmetric] ne] .
    have c: "0 \<le> i \<and> i < int (length p)" using True 1(3) by simp
    have "drop (nat i) p = p ! nat i # drop (Suc (nat i)) p" using ne by (metis Cons_nth_drop_Suc drop_eq_Nil not_le)
    with d have "p ! nat i < tx \<Longrightarrow> k = 1" by (simp add: DecodeRune_def decode_Cons byte_cmp)
    then have "runeCountLoop p i n = runeCountLoop p (i + k) (n + 1)"
      using c d by (subst runeCountLoop.simps) auto
    also have "\<dots> = n + 1 + int (length (runes (drop (nat (i + k)) p)))"
      using 1(1) [OF c] 1(2) [OF c _ d [symmetric]] \<open>p ! nat i < tx \<Longrightarrow> k = 1\<close> k 1(3)
      by (cases "p ! nat i < tx") auto
    finally show ?thesis
      using runes_step [OF ne d] k 1(3) by (simp add: nat_add_distrib add.commute)
  next
    case False
    with 1(3) show ?thesis by (subst runeCountLoop.simps) simp
  qed
qed

lemma RuneCount_runes: "RuneCount p = int (length (runes p))"
  using runeCountLoop_runes [of 0 p 0] by (simp add: RuneCount_def)

lemma rangeRunes_runes: "\<forall>(r, n) \<in> set (runes p). r \<le> MaxRune \<Longrightarrow> rangeRunes p = runes p"
proof (induction p rule: runes.induct)
  case (1 p)
  show ?case
  proof (cases "p = []")
    case False
    obtain r n where d: "DecodeRune p = (r, n)" by (cases "DecodeRune p")
    with 1(2) runes_step [OF False d] have "r \<le> MaxRune" "\<forall>(r, n) \<in> set (runes (drop (nat n) p)). r \<le> MaxRune" by auto
    with 1(1) [OF False d [symmetric]] charntorune_DecodeRune [OF False] d False runes_step [OF False d]
    show ?thesis by (subst rangeRunes.simps) auto
  qed (simp add: rangeRunes.simps)
qed

end
