(* ===== verification/Utf8_Correct.thy ===== *)
theory Utf8_Correct
  imports Utf8_Runes
begin

text \<open>
  Correctness of \<open>EncodeRune\<close>, and the properties of package \<open>utf8\<close>: encoding and decoding
  of runes, backward decoding, rune counts, and agreement with the decoder of the runtime.
\<close>

unbundle bit_operations_syntax

section \<open>\<open>EncodeRune\<close>\<close>

lemma tag_or:
  fixes x :: byte
  shows "uint x < 32 \<Longrightarrow> 0xC0 OR x = word_of_int (0xC0 + uint x)"
    and "uint x < 16 \<Longrightarrow> 0xE0 OR x = word_of_int (0xE0 + uint x)"
    and "uint x < 8 \<Longrightarrow> 0xF0 OR x = word_of_int (0xF0 + uint x)"
    and "uint x < 64 \<Longrightarrow> 0x80 OR x = word_of_int (0x80 + uint x)"
proof -
  have w: "t OR x = word_of_int (uint t OR uint x)" for t :: byte
    by (simp add: unsigned_or_eq [symmetric])
  show "uint x < 32 \<Longrightarrow> 0xC0 OR x = word_of_int (0xC0 + uint x)"
    and "uint x < 16 \<Longrightarrow> 0xE0 OR x = word_of_int (0xE0 + uint x)"
    and "uint x < 8 \<Longrightarrow> 0xF0 OR x = word_of_int (0xF0 + uint x)"
    and "uint x < 64 \<Longrightarrow> 0x80 OR x = word_of_int (0x80 + uint x)"
    using or_add [of "uint x" 5 6] or_add [of "uint x" 4 14] or_add [of "uint x" 3 30] or_add [of "uint x" 6 2]
    by (simp_all add: w del: of_int_add)
qed

lemma uint_ucast_shift: "uint (ucast (drop_bit k r) :: byte) = uint r div 2 ^ k mod 256" for r :: uint32
proof -
  have "uint (ucast (drop_bit k r) :: byte) = take_bit 8 (uint (drop_bit k r))"
    by (simp add: unsigned_ucast_eq)
  also have "uint (drop_bit k r) = drop_bit k (uint r)"
    using uint_bounded [of r] by (subst unsigned_drop_bit_eq) (simp add: take_bit_int_eq_self)
  finally show ?thesis by (simp add: take_bit_eq_mod drop_bit_eq_div)
qed

lemma uint_ucast_byte: "uint (ucast r :: byte) = uint r mod 256" for r :: uint32
  using uint_ucast_shift [of 0 r] by simp

lemma mod_256_64: "x mod 256 mod 64 = x mod 64" for x :: int
  by (rule mod_mod_cancel) simp

text \<open>The tail bytes, and the lead bytes of a rune of the right size.\<close>

lemma tail_byte: "tx OR ucast r AND maskx = word_of_int (0x80 + uint r mod 64)" for r :: uint32
  by (simp only: tag_or(4) uint_ands mod_64 uint_ucast_byte mod_256_64)

lemma tail_byte_shift:
  "tx OR ucast (drop_bit k r) AND maskx = word_of_int (0x80 + uint r div 2 ^ k mod 64)" for r :: uint32
  by (simp only: tag_or(4) uint_ands mod_64 uint_ucast_shift mod_256_64)

lemma div_lt: "x div m < n" if "x < n * m" "0 < m" for x m n :: int
proof (rule ccontr)
  assume "\<not> x div m < n"
  then have "n * m \<le> x div m * m" using that by (intro mult_right_mono) auto
  also have "\<dots> \<le> x" using that div_mult_mod_eq [of x m] pos_mod_sign [of m x] by linarith
  finally show False using that by simp
qed

lemma lead_byte:
  fixes r :: uint32
  shows "uint r \<le> 0x7FF \<Longrightarrow> t2 OR ucast (drop_bit 6 r) = word_of_int (0xC0 + uint r div 64)"
    and "uint r \<le> 0xFFFF \<Longrightarrow> t3 OR ucast (drop_bit 12 r) = word_of_int (0xE0 + uint r div 4096)"
    and "uint r \<le> 0x1FFFFF \<Longrightarrow> t4 OR ucast (drop_bit 18 r) = word_of_int (0xF0 + uint r div 262144)"
proof -
  have d: "uint (ucast (drop_bit k r) :: byte) = uint r div 2 ^ k" if "uint r < n * 2 ^ k" "n \<le> 256" for k n
  proof -
    have "uint r div 2 ^ k < n" using that by (intro div_lt) simp_all
    then show ?thesis
      using that uint_ge_0 [of r] by (simp add: uint_ucast_shift pos_imp_zdiv_nonneg_iff)
  qed
  have l: "uint r div 2 ^ k < n" if "uint r < n * 2 ^ k" for k n
    using that by (intro div_lt) simp_all
  show "t2 OR ucast (drop_bit 6 r) = word_of_int (0xC0 + uint r div 64)" if "uint r \<le> 0x7FF"
    using d [of 32 6] l [of 32 6] that by (simp add: tag_or del: of_int_add)
  show "t3 OR ucast (drop_bit 12 r) = word_of_int (0xE0 + uint r div 4096)" if "uint r \<le> 0xFFFF"
    using d [of 16 12] l [of 16 12] that by (simp add: tag_or del: of_int_add)
  show "t4 OR ucast (drop_bit 18 r) = word_of_int (0xF0 + uint r div 262144)" if "uint r \<le> 0x1FFFFF"
    using d [of 8 18] l [of 8 18] that by (simp add: tag_or del: of_int_add)
qed

lemma slice_put_Suc: "0 \<le> i \<Longrightarrow> slice_put (x # xs) (i + 1) v = map_option ((#) x) (slice_put xs i v)"
  by (auto simp: slice_put_def nat_add_distrib)

lemma slice_puts:
  "slice_put [] i v = None" "slice_put (x # xs) 0 v = Some (v # xs)"
  "slice_put (x # xs) 1 v = map_option ((#) x) (slice_put xs 0 v)"
  "slice_put (x # xs) 2 v = map_option ((#) x) (slice_put xs 1 v)"
  "slice_put (x # xs) 3 v = map_option ((#) x) (slice_put xs 2 v)"
  using slice_put_Suc [of 0] slice_put_Suc [of 1] slice_put_Suc [of 2] by (simp_all add: slice_put_def)

text \<open>The rune that is written: values out of range become the error rune.\<close>

definition effective :: "int \<Rightarrow> int" where
  "effective rune = (if 0 \<le> rune \<and> rune \<le> MaxRune then rune else RuneError)"

lemma uint_effective:
  assumes "- (2 ^ 31) \<le> rune" "rune < 2 ^ 31"
  shows "effective rune = (if uint (word_of_int rune :: uint32) \<le> MaxRune
    then uint (word_of_int rune :: uint32) else RuneError)"
proof -
  have u: "uint (word_of_int rune :: uint32) = rune mod 2 ^ 32"
    by (simp add: uint_word_of_int_eq take_bit_eq_mod)
  show ?thesis
  proof (cases "0 \<le> rune")
    case True
    with assms have "rune mod 2 ^ 32 = rune" by simp
    with True show ?thesis unfolding u effective_def by simp
  next
    case False
    have "(rune + 2 ^ 32) mod 2 ^ 32 = rune mod 2 ^ 32" by simp
    moreover have "(rune + 2 ^ 32) mod 2 ^ 32 = rune + 2 ^ 32" using False assms by (intro mod_pos_pos_trivial) simp_all
    ultimately show ?thesis using False assms unfolding u effective_def by simp
  qed
qed

lemma length_cases:
  "1 \<le> length p \<Longrightarrow> \<exists>a q. p = a # q"
  "2 \<le> length p \<Longrightarrow> \<exists>a b q. p = a # b # q"
  "3 \<le> length p \<Longrightarrow> \<exists>a b c q. p = a # b # c # q"
  "4 \<le> length p \<Longrightarrow> \<exists>a b c d q. p = a # b # c # d # q"
  by (auto simp: Suc_le_length_iff numeral_eq_Suc)

lemma EncodeRune_word:
  fixes w :: uint32
  defines "x \<equiv> uint w"
  defines "e \<equiv> (if x \<le> MaxRune then x else RuneError)"
  assumes w: "word_of_int rune = w" and p: "length (utf8 e) \<le> length p"
  shows "EncodeRune p rune = Some (utf8 e @ drop (length (utf8 e)) p, int (length (utf8 e)))"
proof -
  have le: "w \<le> 0x7F \<longleftrightarrow> x \<le> 0x7F" "w \<le> 0x7FF \<longleftrightarrow> x \<le> 0x7FF" "0x10FFFF < w \<longleftrightarrow> MaxRune < x"
    "w \<le> 0xFFFF \<longleftrightarrow> x \<le> 0xFFFF"
    by (simp_all add: x_def word_le_def word_less_def)
  note lead = lead_byte [of w, folded x_def] and tail = tail_byte [of w, folded x_def] tail_byte_shift [of _ w, folded x_def]
  consider "x \<le> 0x7F" | "0x7F < x" "x \<le> 0x7FF" | "0x7FF < x" "x \<le> 0xFFFF" | "0xFFFF < x" "x \<le> MaxRune"
    | "MaxRune < x" by linarith
  then show ?thesis
  proof cases
    case 1
    then have u: "utf8 e = [ucast w]" "length (utf8 e) = 1"
      by (simp_all add: e_def utf8_def utf8_ints_def x_def)
    with p length_cases(1) [of p] 1 show ?thesis
      by (auto simp: EncodeRune_def w Let_def le slice_puts)
  next
    case 2
    then have u: "utf8 e = map word_of_int [0xC0 + x div 64, 0x80 + x mod 64]"
      by (simp add: e_def utf8_def utf8_ints_def)
    with p length_cases(2) [of p] 2 lead tail show ?thesis
      by (auto simp: EncodeRune_def w Let_def le slice_puts simp del: of_int_add)
  next
    case 3
    then have u: "utf8 e = map word_of_int [0xE0 + x div 4096, 0x80 + x div 64 mod 64, 0x80 + x mod 64]"
      by (simp add: e_def utf8_def utf8_ints_def)
    with p length_cases(3) [of p] 3 lead tail(1) tail(2) [of 6] show ?thesis
      by (auto simp: EncodeRune_def w Let_def le slice_puts simp del: of_int_add)
  next
    case 4
    then have u: "utf8 e = map word_of_int
        [0xF0 + x div 262144, 0x80 + x div 4096 mod 64, 0x80 + x div 64 mod 64, 0x80 + x mod 64]"
      by (simp add: e_def utf8_def utf8_ints_def)
    with p length_cases(4) [of p] 4 lead tail(1) tail(2) [of 6] tail(2) [of 12] show ?thesis
      by (auto simp: EncodeRune_def w Let_def le slice_puts simp del: of_int_add)
  next
    case 5
    then have u: "utf8 e = [0xEF, 0xBF, 0xBD]" by (simp add: e_def utf8_def utf8_ints_def)
    moreover have "t3 OR ucast (drop_bit 12 (0xFFFD :: uint32)) = (0xEF :: byte)"
      "tx OR ucast (drop_bit 6 (0xFFFD :: uint32)) AND maskx = (0xBF :: byte)"
      "tx OR ucast (0xFFFD :: uint32) AND maskx = (0xBD :: byte)"
      by simp_all
    ultimately show ?thesis
      using p length_cases(3) [of p] 5 by (auto simp: EncodeRune_def w Let_def le slice_puts)
  qed
qed

lemma EncodeRune_spec:
  assumes "- (2 ^ 31) \<le> rune" "rune < 2 ^ 31" "length (utf8 (effective rune)) \<le> length p"
  shows "EncodeRune p rune =
    Some (utf8 (effective rune) @ drop (length (utf8 (effective rune))) p, int (length (utf8 (effective rune))))"
  using EncodeRune_word [OF refl, of rune p] assms(3) unfolding uint_effective [OF assms(1,2)] by simp

section \<open>Properties\<close>

text \<open>
  C10. Round trip: \<open>EncodeRune\<close> writes into a buffer with room for four bytes an encoding from
  which \<open>DecodeRune\<close> reads the rune back, with the returned width, and leaves the rest of
  the buffer alone; a value that is no code point is written as U+FFFD.
\<close>

theorem EncodeRune_DecodeRune:
  assumes "- (2 ^ 31) \<le> rune" "rune < 2 ^ 31" "4 \<le> length p"
  shows "\<exists>p' n. EncodeRune p rune = Some (p', n) \<and> DecodeRune p' = (effective rune, n) \<and> FullRune p' \<and>
    drop (nat n) p' = drop (nat n) p \<and> (0 \<le> rune \<and> rune \<le> MaxRune \<longrightarrow> n = RuneLen rune)"
proof -
  let ?u = "utf8 (effective rune)"
  have e: "0 \<le> effective rune" "effective rune \<le> rune4Max" by (simp_all add: effective_def)
  have "length ?u \<le> 4" by (simp add: utf8_def utf8_ints_def)
  then have "EncodeRune p rune = Some (?u @ drop (length ?u) p, int (length ?u))"
    using assms by (intro EncodeRune_spec) auto
  moreover have "decodeRuneInternal (?u @ drop (length ?u) p) = (effective rune, int (length ?u), False)"
    by (rule decode_utf8 [OF e])
  moreover have "0 \<le> rune \<and> rune \<le> MaxRune \<longrightarrow> int (length ?u) = RuneLen rune"
    by (simp add: effective_def utf8_def utf8_ints_def RuneLen_def)
  ultimately show ?thesis by (simp add: DecodeRune_def FullRune_def)
qed

theorem EncodeRune_DecodeRune_witness:
  "\<exists>p' n. EncodeRune [0, 0, 0, 0, 7] 0x20AC = Some (p', n) \<and> DecodeRune p' = (0x20AC, n) \<and> n = 3"
  using EncodeRune_DecodeRune [of "0x20AC" "[0, 0, 0, 0, 7]"] by (auto simp: effective_def RuneLen_def)

text \<open>
  C11. \<open>DecodeRune\<close> accepts exactly the shortest encodings. Whatever follows it, the encoding of every rune up to
  \<open>0x1FFFFF\<close> is decoded to that rune, with its width; every other string, such as an overlong or a truncated form or a stray
  byte, gives U+FFFD and width 1, and the empty string U+FFFD and width 0.
\<close>

theorem DecodeRune_canonical:
  "(0 \<le> r \<and> r \<le> rune4Max \<longrightarrow> DecodeRune (utf8 r @ rest) = (r, int (length (utf8 r)))) \<and>
   (p \<noteq> [] \<and> (\<nexists>q qs. 0 \<le> q \<and> q \<le> rune4Max \<and> p = utf8 q @ qs) \<longrightarrow> DecodeRune p = (RuneError, 1)) \<and>
   DecodeRune [] = (RuneError, 0)"
proof (intro conjI impI)
  show "DecodeRune (utf8 r @ rest) = (r, int (length (utf8 r)))" if "0 \<le> r \<and> r \<le> rune4Max"
    using decode_utf8 [of r rest] that by (simp add: DecodeRune_def)
  show "DecodeRune p = (RuneError, 1)" if p: "p \<noteq> [] \<and> (\<nexists>q qs. 0 \<le> q \<and> q \<le> rune4Max \<and> p = utf8 q @ qs)"
    using conjunct1 [OF p] by (cases p rule: DecodeRune_cases) (use p in blast)+
  show "DecodeRune [] = (RuneError, 0)" by (simp add: DecodeRune_def decodeRuneInternal_def)
qed

theorem DecodeRune_canonical_witness:
  "DecodeRune [0xC3, 0xA9, 0x21] = (0xE9, 2) \<and> DecodeRune [0xC3] = (RuneError, 1)"
proof -
  have u: "utf8 0xE9 @ [0x21] = [0xC3, 0xA9, 0x21]" by (simp add: utf8_def utf8_ints_def)
  have "\<nexists>q qs. 0 \<le> q \<and> q \<le> rune4Max \<and> [0xC3] = utf8 q @ qs"
    by (auto dest!: utf8_bytes)
  then show ?thesis
    using DecodeRune_canonical [of "0xE9" "[0x21]" "[0xC3]"] unfolding u by (simp add: utf8_def utf8_ints_def)
qed

text \<open>
  C12. Decoding backwards agrees with decoding forwards: \<open>DecodeLastRune\<close> returns the last rune
  and width of the forward segmentation, for valid and invalid input alike, and \<open>RuneCount\<close>
  is the length of that segmentation.
\<close>

theorem DecodeLastRune_forward:
  "(p \<noteq> [] \<longrightarrow> DecodeLastRune p = last (runes p)) \<and> RuneCount p = int (length (runes p))"
  using DecodeLastRune_spec [of p] RuneCount_runes [of p] by simp

theorem DecodeLastRune_forward_witness:
  "DecodeLastRune [0x61, 0xC3, 0xA9] = last (runes [0x61, 0xC3, 0xA9])"
  using DecodeLastRune_forward [of "[0x61, 0xC3, 0xA9]"] by simp

text \<open>
  C13. On text whose runes do not exceed \<open>MaxRune\<close>, \<open>for range\<close> and the package agree: the same
  runes with the same widths, and \<open>RuneCountInString\<close> equals \<open>RuneCount\<close>.
\<close>

theorem range_agrees:
  assumes "\<forall>(r, n) \<in> set (runes p). r \<le> MaxRune"
  shows "rangeRunes p = runes p \<and> RuneCountInString p = RuneCount p"
  using rangeRunes_runes [OF assms] by (simp add: RuneCountInString_def RuneCount_runes)

theorem range_agrees_witness: "RuneCountInString [0x61, 0x62] = RuneCount [0x61, 0x62]"
proof -
  have "runes [0x61, 0x62] = [(0x61, 1), (0x62, 1)]"
    by (simp add: runes.simps DecodeRune_def decode_Cons)
  with range_agrees [of "[0x61, 0x62]"] show ?thesis by simp
qed

text \<open>
  Above \<open>MaxRune\<close> they differ: the package decodes the bytes F7 BF BF BF as one rune of four
  bytes, the runtime as four errors, so \<open>RuneCountInString\<close> and \<open>RuneCount\<close> disagree.
\<close>

theorem RuneCountInString_differs:
  "RuneCount [0xF7, 0xBF, 0xBF, 0xBF] = 1 \<and> RuneCountInString [0xF7, 0xBF, 0xBF, 0xBF] = 4"
proof -
  have "runes [0xF7, 0xBF, 0xBF, 0xBF] = [(0x1FFFFF, 4)]"
    by (simp add: runes.simps DecodeRune_def decode_Cons rune4_def)
  moreover have "length (rangeRunes [0xF7, 0xBF, 0xBF, 0xBF]) = 4"
    by (simp add: rangeRunes.simps charntorune_Cons rune4_def)
  ultimately show ?thesis by (simp add: RuneCount_runes RuneCountInString_def)
qed

text \<open>\<open>RuneLen\<close> is not the number of bytes that \<open>EncodeRune\<close> writes for values that are no code points.\<close>

lemma RuneLen_differs:
  "RuneLen (- 1) = 1 \<and> map_option snd (EncodeRune [0, 0, 0, 0] (- 1)) = Some 3"
  "RuneLen 0x110000 = 4 \<and> map_option snd (EncodeRune [0, 0, 0, 0] 0x110000) = Some 3"
  using EncodeRune_spec [of "- 1" "[0, 0, 0, 0]"] EncodeRune_spec [of "0x110000" "[0, 0, 0, 0]"]
  by (simp_all add: RuneLen_def effective_def utf8_def utf8_ints_def)

end
