(* ===== verification/Go_Memory.thy ===== *)
theory Go_Memory
  imports Go_Bytes
begin

text \<open>
  Counted loops, and memory shared between slices. A function that reads one caller's slice and
  writes another may be given overlapping slices; where the source allows that, the slices are ranges
  of one memory and the loop of the source reads and writes that memory in its order.
\<close>

section \<open>Counted loops\<close>

text \<open>\<open>forLoop body is s\<close> runs the body for the indices \<open>is\<close> in their order; \<open>None\<close> is a panic.\<close>

fun forLoop :: "(nat \<Rightarrow> 's \<Rightarrow> 's option) \<Rightarrow> nat list \<Rightarrow> 's \<Rightarrow> 's option" where
  "forLoop body [] s = Some s"
| "forLoop body (i # is) s = body i s \<bind> forLoop body is"

lemma forLoop_append: "forLoop body (is @ js) s = forLoop body is s \<bind> forLoop body js"
  by (induction "is" arbitrary: s) (auto split: Option.bind_splits)

lemma forLoop_snoc: "forLoop body [0..<Suc n] s = forLoop body [0..<n] s \<bind> body n"
  by (auto simp: forLoop_append split: Option.bind_splits)

lemma forLoop_inv:
  assumes "P 0 s" and "\<And>i s. i < n \<Longrightarrow> P i s \<Longrightarrow> \<exists>s'. body i s = Some s' \<and> P (Suc i) s'"
  shows "\<exists>s'. forLoop body [0..<n] s = Some s' \<and> P n s'"
  using assms(2)
proof (induction n)
  case 0
  then show ?case using assms(1) by simp
next
  case (Suc n)
  obtain s' where s': "forLoop body [0..<n] s = Some s'" "P n s'"
    using Suc.IH Suc.prems by (meson less_SucI)
  then show ?case
    using Suc.prems [of n s'] unfolding forLoop_snoc s'(1) by simp
qed

lemma forLoop_None: "i \<in> set is \<Longrightarrow> (\<And>s. body i s = None) \<Longrightarrow> forLoop body is s = None"
  by (induction "is" arbitrary: s) (auto split: Option.bind_splits)

lemma forLoop_pure: "forLoop (\<lambda>i s. Some (f i s)) is s = Some (fold f is s)"
  by (induction "is" arbitrary: s) auto

lemma slice_at_nat [simp]: "slice_at xs (int i) = (if i < length xs then Some (xs ! i) else None)"
  by (simp add: slice_at_def)

lemma slice_put_nat [simp]: "slice_put xs (int i) v = (if i < length xs then Some (xs[i := v]) else None)"
  by (simp add: slice_put_def)

lemma slice_at_0 [simp]: "slice_at xs 0 = (if xs = [] then None else Some (xs ! 0))"
  using slice_at_nat [of xs 0] by simp

lemma slice_put_0 [simp]: "slice_put xs 0 v = (if xs = [] then None else Some (xs[0 := v]))"
  using slice_put_nat [of xs 0 v] by simp

lemma slice_at_numeral [simp]:
  "slice_at xs 1 = (if 1 < length xs then Some (xs ! 1) else None)"
  "slice_at xs (numeral k) = (if numeral k < length xs then Some (xs ! numeral k) else None)"
  using slice_at_nat [of xs 1] slice_at_nat [of xs "numeral k"] by simp_all

lemma slice_put_numeral [simp]:
  "slice_put xs 1 v = (if 1 < length xs then Some (xs[1 := v]) else None)"
  "slice_put xs (numeral k) v = (if numeral k < length xs then Some (xs[numeral k := v]) else None)"
  using slice_put_nat [of xs 1 v] slice_put_nat [of xs "numeral k" v] by simp_all

section \<open>Memory\<close>

type_synonym mem = "nat \<Rightarrow> byte"

text \<open>A slice of the memory is its first address and its length.\<close>

type_synonym mslice = "nat \<times> nat"

definition mload :: "mem \<Rightarrow> mslice \<Rightarrow> nat \<Rightarrow> byte option" where
  "mload m s i = (if i < snd s then Some (m (fst s + i)) else None)"

definition mstore :: "mem \<Rightarrow> mslice \<Rightarrow> nat \<Rightarrow> byte \<Rightarrow> mem option" where
  "mstore m s i v = (if i < snd s then Some (m(fst s + i := v)) else None)"

text \<open>The slice expressions \<open>s[k:]\<close> and \<open>s[:k]\<close>; the latter as the list of its bytes.\<close>

definition mdrop :: "nat \<Rightarrow> mslice \<Rightarrow> mslice option" where
  "mdrop k s = (if k \<le> snd s then Some (fst s + k, snd s - k) else None)"

definition mread :: "mem \<Rightarrow> nat \<Rightarrow> nat \<Rightarrow> byte list" where
  "mread m a n = map (\<lambda>i. m (a + i)) [0..<n]"

definition mwrite :: "mem \<Rightarrow> nat \<Rightarrow> byte list \<Rightarrow> mem" where
  "mwrite m a bs = (\<lambda>k. if a \<le> k \<and> k < a + length bs then bs ! (k - a) else m k)"

lemma length_mread [simp]: "length (mread m a n) = n"
  by (simp add: mread_def)

lemma nth_mread [simp]: "i < n \<Longrightarrow> mread m a n ! i = m (a + i)"
  by (simp add: mread_def)

lemma mread_0 [simp]: "mread m a 0 = []"
  by (simp add: mread_def)

lemma mread_append: "mread m a (n + k) = mread m a n @ mread m (a + n) k"
  by (rule nth_equalityI) (auto simp: nth_append)

lemma mread_Suc: "mread m a (Suc n) = m a # mread m (Suc a) n"
  using mread_append [of m a 1 n] by (simp add: mread_def)

lemma take_mread [simp]: "n \<le> k \<Longrightarrow> take n (mread m a k) = mread m a n"
  by (rule nth_equalityI) auto

lemma drop_mread [simp]: "drop n (mread m a k) = mread m (a + n) (k - n)"
  by (rule nth_equalityI) (auto simp: add.assoc)

lemma mread_cong: "(\<And>k. a \<le> k \<Longrightarrow> k < a + n \<Longrightarrow> m k = m' k) \<Longrightarrow> mread m a n = mread m' a n"
  by (rule nth_equalityI) auto

lemma mwrite_Nil [simp]: "mwrite m a [] = m"
  by (auto simp: mwrite_def fun_eq_iff)

lemma mwrite_mwrite: "b = a + length bs \<Longrightarrow> mwrite (mwrite m a bs) b cs = mwrite m a (bs @ cs)"
  by (auto simp: mwrite_def fun_eq_iff nth_append)

lemma mwrite_upd: "mwrite m a (b # bs) = mwrite (m(a := b)) (Suc a) bs"
proof -
  have "mwrite m a [b] = m(a := b)" by (auto simp: mwrite_def fun_eq_iff)
  then show ?thesis using mwrite_mwrite [of "Suc a" a "[b]" m bs] by simp
qed

lemma mwrite_snoc: "mwrite m a (bs @ [b]) = (mwrite m a bs)(a + length bs := b)"
  by (auto simp: mwrite_def nth_append fun_eq_iff)

lemma mread_mwrite [simp]: "n = length bs \<Longrightarrow> mread (mwrite m a bs) a n = bs"
  by (rule nth_equalityI) (auto simp: mwrite_def)

lemma mread_mwrite_other:
  "b + n \<le> a \<or> a + length bs \<le> b \<Longrightarrow> mread (mwrite m a bs) b n = mread m b n"
  by (rule mread_cong) (auto simp: mwrite_def)

section \<open>Byte loops\<close>

text \<open>
  \<open>for i := 0; i < len(src); i++ { dst[i] = body(src[i]) }\<close> with a state threaded through the body.
\<close>

definition byteLoop :: "('s \<Rightarrow> byte \<Rightarrow> ('s \<times> byte) option) \<Rightarrow> 's \<Rightarrow> mem \<Rightarrow> mslice \<Rightarrow> mslice \<Rightarrow> ('s \<times> mem) option" where
  "byteLoop body x m dst src = forLoop (\<lambda>i (x, m). do {
     c \<leftarrow> mload m src i;
     (x, v) \<leftarrow> body x c;
     m \<leftarrow> mstore m dst i v;
     Some (x, m) }) [0..<snd src] (x, m)"

text \<open>The same on a list of bytes.\<close>

fun run :: "('s \<Rightarrow> byte \<Rightarrow> ('s \<times> byte) option) \<Rightarrow> 's \<Rightarrow> byte list \<Rightarrow> ('s \<times> byte list) option" where
  "run body x [] = Some (x, [])"
| "run body x (c # cs) = do {
     (x, v) \<leftarrow> body x c;
     (x, vs) \<leftarrow> run body x cs;
     Some (x, v # vs) }"

lemma run_append:
  "run body x (bs @ cs) = do { (x, us) \<leftarrow> run body x bs; (x, vs) \<leftarrow> run body x cs; Some (x, us @ vs) }"
  by (induction bs arbitrary: x) (auto split: prod.splits Option.bind_splits)

lemma run_length: "run body x cs = Some (x', vs) \<Longrightarrow> length vs = length cs"
  by (induction cs arbitrary: x x' vs) (auto split: prod.splits Option.bind_splits)

lemma run_total: "(\<And>x c. I x \<Longrightarrow> \<exists>x' v. body x c = Some (x', v) \<and> I x') \<Longrightarrow> I x \<Longrightarrow>
  \<exists>x' vs. run body x cs = Some (x', vs) \<and> I x' \<and> length vs = length cs"
proof (induction cs arbitrary: x)
  case (Cons c cs)
  obtain x' v where "body x c = Some (x', v)" "I x'" using Cons.prems by blast
  moreover obtain x'' vs where "run body x' cs = Some (x'', vs)" "I x''" "length vs = length cs"
    using Cons.IH [OF Cons.prems(1) \<open>I x'\<close>] by blast
  ultimately show ?case by simp
qed simp

text \<open>
  The memory loop computes the list function whenever the written range is not ahead of the bytes
  still to be read: the two slices start at the same address, the destination is below, or they are
  disjoint.
\<close>

definition safe_overlap :: "mslice \<Rightarrow> mslice \<Rightarrow> bool" where
  "safe_overlap dst src \<longleftrightarrow> fst dst \<le> fst src \<or> fst src + snd src \<le> fst dst"

lemma byteLoop_run:
  assumes "safe_overlap dst src" and "snd src \<le> snd dst"
  shows "byteLoop body x m dst src =
    map_option (\<lambda>(x', vs). (x', mwrite m (fst dst) vs)) (run body x (mread m (fst src) (snd src)))"
proof -
  obtain d dn s sn where [simp]: "dst = (d, dn)" "src = (s, sn)" by (metis surj_pair)
  have "n \<le> sn \<Longrightarrow> forLoop (\<lambda>i (x, m). do {
     c \<leftarrow> mload m src i; (x, v) \<leftarrow> body x c; m \<leftarrow> mstore m dst i v; Some (x, m) }) [0..<n] (x, m) =
    map_option (\<lambda>(x', vs). (x', mwrite m d vs)) (run body x (mread m s n))" for n
  proof (induction n)
    case (Suc n)
    have *: "mwrite m d vs (s + n) = m (s + n)" if "run body x (mread m s n) = Some (x', vs)" for x' vs
      using run_length [OF that] assms(1) Suc.prems by (auto simp: mwrite_def safe_overlap_def)
    have l: "length vs = n" if "run body x (mread m s n) = Some (x', vs)" for x' vs
      using run_length [OF that] by simp
    have "mread m s (Suc n) = mread m s n @ [m (s + n)]"
      using mread_append [of m s n 1] by (simp add: mread_Suc)
    then show ?case
      using Suc assms(2) unfolding forLoop_snoc
      by (auto simp: run_append mload_def mstore_def * l mwrite_snoc split: prod.splits Option.bind_splits option.splits)
  qed simp
  then show ?thesis by (simp add: byteLoop_def)
qed

lemma byteLoop_short: "snd dst < snd src \<Longrightarrow> byteLoop body x m dst src = None"
proof -
  assume *: "snd dst < snd src"
  then have "[0..<snd src] = [0..<snd dst] @ snd dst # [Suc (snd dst)..<snd src]"
    using upt_add_eq_append [of 0 "snd dst" "snd src - snd dst"] by (simp add: upt_conv_Cons)
  then show ?thesis
    using * by (auto simp: byteLoop_def forLoop_append mstore_def split: prod.splits Option.bind_splits)
qed

text \<open>
  A caller that passes its data in pieces: one call for each number of bytes in the list, every call with the
  rest of the destination and the next piece of the source. The calls have the effect of one call on the whole.
\<close>

fun inPieces :: "('x \<Rightarrow> mem \<Rightarrow> mslice \<Rightarrow> mslice \<Rightarrow> ('x \<times> mem) option) \<Rightarrow> 'x \<Rightarrow> mem \<Rightarrow> mslice \<Rightarrow> nat \<Rightarrow> nat list \<Rightarrow> ('x \<times> mem) option" where
  "inPieces call x m dst s [] = Some (x, m)"
| "inPieces call x m dst s (k # ks) = do {
     (x, m) \<leftarrow> call x m dst (s, k);
     dst \<leftarrow> mdrop k dst;
     inPieces call x m dst (s + k) ks }"

lemma inPieces_run:
  assumes "safe_overlap (d, dn) (s, sum_list ks)" and "sum_list ks \<le> dn"
  shows "inPieces (byteLoop body) x m (d, dn) s ks =
    map_option (\<lambda>(x', vs). (x', mwrite m d vs)) (run body x (mread m s (sum_list ks)))"
  using assms
proof (induction ks arbitrary: x m d dn s)
  case (Cons k ks)
  have o: "safe_overlap (d, dn) (s, k)" "safe_overlap (d + k, dn - k) (s + k, sum_list ks)" "k \<le> dn" "sum_list ks \<le> dn - k"
    using Cons.prems by (auto simp: safe_overlap_def)
  have r: "mread (mwrite m d vs) (s + k) (sum_list ks) = mread m (s + k) (sum_list ks)" if "length vs = k" for vs
    using that Cons.prems by (auto simp: safe_overlap_def intro!: mread_mwrite_other mread_cong) (auto simp: mwrite_def)
  show ?case
  proof (cases "run body x (mread m s k)")
    case None
    then show ?thesis using o by (simp add: byteLoop_run mread_append run_append)
  next
    case (Some p)
    obtain x' us where p: "run body x (mread m s k) = Some (x', us)" using Some by (cases p) auto
    then have l: "length us = k" using run_length by fastforce
    have "inPieces (byteLoop body) x m (d, dn) s (k # ks) = inPieces (byteLoop body) x' (mwrite m d us) (d + k, dn - k) (s + k) ks"
      using o p by (simp add: byteLoop_run mdrop_def)
    then show ?thesis using Cons.IH [OF o(2,4)] p l
      by (auto simp: mread_append run_append r mwrite_mwrite split: prod.splits Option.bind_splits option.splits)
  qed
qed simp

lemma inPieces_byteLoop:
  "safe_overlap (d, dn) (s, sum_list ks) \<Longrightarrow> sum_list ks \<le> dn \<Longrightarrow>
    inPieces (byteLoop body) x m (d, dn) s ks = byteLoop body x m (d, dn) (s, sum_list ks)"
  by (simp add: inPieces_run byteLoop_run)

end
