(* ===== verification/Cipher.thy ===== *)
theory Cipher
  imports Go_Memory
begin

text \<open>
  crypto/cipher: the interface \<open>Block\<close>, the modes CBC, CFB, OFB, CTR and OpenPGP's CFB, and the
  adapters of io.go.

  A \<open>Block\<close> is the table of its methods; \<open>Encrypt dst src\<close> is the new contents of \<open>dst\<close>, and
  \<open>None\<close> where the method panics. The buffers a mode owns (its copy of the initialisation
  vector, the last output block) are lists. The caller's slices are ranges of the memory
  of Go_Memory, since a caller may pass the same memory as source and destination.

  A constructor that returns a nil stream for an argument of the wrong length is
  \<open>Some None\<close>; a panic is \<open>None\<close>.
\<close>

section \<open>cipher.go\<close>

record Block =
  BlockSize :: nat
  Encrypt :: "byte list \<Rightarrow> byte list \<Rightarrow> byte list option"
  Decrypt :: "byte list \<Rightarrow> byte list \<Rightarrow> byte list option"

definition shift1_step :: "byte list \<Rightarrow> nat \<Rightarrow> byte list \<times> byte \<Rightarrow> (byte list \<times> byte) option" where
  "shift1_step src i = (\<lambda>(dst, b). do {
     c \<leftarrow> slice_at src (int i);
     dst \<leftarrow> slice_put dst (int i) (push_bit 1 c OR b);
     Some (dst, drop_bit 7 c) })"

definition shift1 :: "byte list \<Rightarrow> byte list \<Rightarrow> (byte list \<times> byte) option" where
  "shift1 dst src = forLoop (shift1_step src) (rev [0..<length src]) (dst, 0)"

definition dup :: "byte list \<Rightarrow> byte list" where
  "dup p = (let q = replicate (length p) 0 in take (length q) p @ drop (length p) q)"

section \<open>cbc.go\<close>

record cbc =
  cbc_b :: Block
  cbc_blockSize :: nat
  cbc_iv :: "byte list"
  cbc_tmp :: "byte list"

definition newCBC :: "Block \<Rightarrow> byte list \<Rightarrow> cbc" where
  "newCBC b iv = \<lparr>cbc_b = b, cbc_blockSize = BlockSize b, cbc_iv = dup iv, cbc_tmp = replicate (BlockSize b) 0\<rparr>"

text \<open>The two inner loops of \<open>cbcEncrypter.CryptBlocks\<close>: the vector absorbs a block, and is stored.\<close>

definition cbcXorIv :: "nat \<Rightarrow> mem \<Rightarrow> mslice \<Rightarrow> byte list \<Rightarrow> byte list option" where
  "cbcXorIv n m src iv = forLoop (\<lambda>i iv. do {
     v \<leftarrow> slice_at iv (int i);
     c \<leftarrow> mload m src i;
     slice_put iv (int i) (v XOR c) }) [0..<n] iv"

definition cbcCopy :: "nat \<Rightarrow> byte list \<Rightarrow> mslice \<Rightarrow> mem \<Rightarrow> mem option" where
  "cbcCopy n iv dst m = forLoop (\<lambda>i m. do {
     v \<leftarrow> slice_at iv (int i);
     mstore m dst i v }) [0..<n] m"

partial_function (option) cbcEncrypter_CryptBlocks :: "cbc \<Rightarrow> mem \<Rightarrow> mslice \<Rightarrow> mslice \<Rightarrow> (cbc \<times> mem) option" where
  "cbcEncrypter_CryptBlocks x m dst src =
     (if snd src = 0 then Some (x, m)
      else do {
        iv \<leftarrow> cbcXorIv (cbc_blockSize x) m src (cbc_iv x);
        iv \<leftarrow> Encrypt (cbc_b x) iv iv;
        m \<leftarrow> cbcCopy (cbc_blockSize x) iv dst m;
        src \<leftarrow> mdrop (cbc_blockSize x) src;
        dst \<leftarrow> mdrop (cbc_blockSize x) dst;
        cbcEncrypter_CryptBlocks (x\<lparr>cbc_iv := iv\<rparr>) m dst src })"

text \<open>The inner loop of \<open>cbcDecrypter.CryptBlocks\<close>, over the buffers \<open>tmp\<close> and \<open>iv\<close> and the memory.\<close>

definition cbcDecryptInner :: "nat \<Rightarrow> mslice \<Rightarrow> mslice \<Rightarrow> byte list \<times> byte list \<times> mem \<Rightarrow> (byte list \<times> byte list \<times> mem) option" where
  "cbcDecryptInner n dst src s = forLoop (\<lambda>i (tmp, iv, m). do {
     t \<leftarrow> slice_at tmp (int i);
     v \<leftarrow> slice_at iv (int i);
     tmp \<leftarrow> slice_put tmp (int i) (t XOR v);
     c \<leftarrow> mload m src i;
     iv \<leftarrow> slice_put iv (int i) c;
     t \<leftarrow> slice_at tmp (int i);
     m \<leftarrow> mstore m dst i t;
     Some (tmp, iv, m) }) [0..<n] s"

partial_function (option) cbcDecrypter_CryptBlocks :: "cbc \<Rightarrow> mem \<Rightarrow> mslice \<Rightarrow> mslice \<Rightarrow> (cbc \<times> mem) option" where
  "cbcDecrypter_CryptBlocks x m dst src =
     (if snd src = 0 then Some (x, m)
      else if snd src < cbc_blockSize x then None
      else do {
        tmp \<leftarrow> Decrypt (cbc_b x) (cbc_tmp x) (mread m (fst src) (cbc_blockSize x));
        (tmp, iv, m) \<leftarrow> cbcDecryptInner (cbc_blockSize x) dst src (tmp, cbc_iv x, m);
        src \<leftarrow> mdrop (cbc_blockSize x) src;
        dst \<leftarrow> mdrop (cbc_blockSize x) dst;
        cbcDecrypter_CryptBlocks (x\<lparr>cbc_tmp := tmp, cbc_iv := iv\<rparr>) m dst src })"

section \<open>cfb.go\<close>

record cfb =
  cfb_b :: Block
  cfb_out :: "byte list"
  cfb_outUsed :: nat
  cfb_decrypt :: bool

definition newCFB :: "Block \<Rightarrow> byte list \<Rightarrow> bool \<Rightarrow> cfb option option" where
  "newCFB block iv decrypt =
     (if length iv \<noteq> BlockSize block then Some None
      else do {
        out \<leftarrow> Encrypt block (replicate (BlockSize block) 0) iv;
        Some (Some \<lparr>cfb_b = block, cfb_out = out, cfb_outUsed = 0, cfb_decrypt = decrypt\<rparr>) })"

definition NewCFBEncrypter :: "Block \<Rightarrow> byte list \<Rightarrow> cfb option option" where
  "NewCFBEncrypter block iv = newCFB block iv False"

definition NewCFBDecrypter :: "Block \<Rightarrow> byte list \<Rightarrow> cfb option option" where
  "NewCFBDecrypter block iv = newCFB block iv True"

definition cfb_step :: "cfb \<Rightarrow> byte \<Rightarrow> (cfb \<times> byte) option" where
  "cfb_step x c = do {
     x \<leftarrow> (if cfb_outUsed x = length (cfb_out x)
          then do { out \<leftarrow> Encrypt (cfb_b x) (cfb_out x) (cfb_out x); Some (x\<lparr>cfb_out := out, cfb_outUsed := 0\<rparr>) }
          else Some x);
     k \<leftarrow> slice_at (cfb_out x) (int (cfb_outUsed x));
     if cfb_decrypt x
     then do {
       out \<leftarrow> slice_put (cfb_out x) (int (cfb_outUsed x)) c;
       Some (x\<lparr>cfb_out := out, cfb_outUsed := cfb_outUsed x + 1\<rparr>, c XOR k) }
     else do {
       out \<leftarrow> slice_put (cfb_out x) (int (cfb_outUsed x)) (k XOR c);
       Some (x\<lparr>cfb_out := out, cfb_outUsed := cfb_outUsed x + 1\<rparr>, k XOR c) } }"

definition cfb_XORKeyStream :: "cfb \<Rightarrow> mem \<Rightarrow> mslice \<Rightarrow> mslice \<Rightarrow> (cfb \<times> mem) option" where
  "cfb_XORKeyStream = byteLoop cfb_step"

section \<open>ofb.go\<close>

record ofb =
  ofb_b :: Block
  ofb_out :: "byte list"
  ofb_outUsed :: nat

definition NewOFB :: "Block \<Rightarrow> byte list \<Rightarrow> ofb option option" where
  "NewOFB b iv =
     (if length iv \<noteq> BlockSize b then Some None
      else do {
        out \<leftarrow> Encrypt b (replicate (BlockSize b) 0) iv;
        Some (Some \<lparr>ofb_b = b, ofb_out = out, ofb_outUsed = 0\<rparr>) })"

definition ofb_step :: "ofb \<Rightarrow> byte \<Rightarrow> (ofb \<times> byte) option" where
  "ofb_step x s = do {
     x \<leftarrow> (if ofb_outUsed x = length (ofb_out x)
          then do { out \<leftarrow> Encrypt (ofb_b x) (ofb_out x) (ofb_out x); Some (x\<lparr>ofb_out := out, ofb_outUsed := 0\<rparr>) }
          else Some x);
     k \<leftarrow> slice_at (ofb_out x) (int (ofb_outUsed x));
     Some (x\<lparr>ofb_outUsed := ofb_outUsed x + 1\<rparr>, s XOR k) }"

definition ofb_XORKeyStream :: "ofb \<Rightarrow> mem \<Rightarrow> mslice \<Rightarrow> mslice \<Rightarrow> (ofb \<times> mem) option" where
  "ofb_XORKeyStream = byteLoop ofb_step"

section \<open>ctr.go\<close>

record ctr =
  ctr_b :: Block
  ctr_ctr :: "byte list"
  ctr_out :: "byte list"
  ctr_outUsed :: nat

definition NewCTR :: "Block \<Rightarrow> byte list \<Rightarrow> ctr option" where
  "NewCTR block iv =
     (if length iv \<noteq> BlockSize block then None
      else Some \<lparr>ctr_b = block, ctr_ctr = dup iv, ctr_out = replicate (length iv) 0, ctr_outUsed = length iv\<rparr>)"

text \<open>The inner loop that increments the counter, from index \<open>i - 1\<close> downwards.\<close>

fun ctrIncr :: "nat \<Rightarrow> byte list \<Rightarrow> byte list" where
  "ctrIncr 0 c = c"
| "ctrIncr (Suc i) c = (let c = c[i := c ! i + 1] in if c ! i \<noteq> 0 then c else ctrIncr i c)"

definition ctr_step :: "ctr \<Rightarrow> byte \<Rightarrow> (ctr \<times> byte) option" where
  "ctr_step x c = do {
     x \<leftarrow> (if ctr_outUsed x = length (ctr_ctr x)
          then do {
            out \<leftarrow> Encrypt (ctr_b x) (ctr_out x) (ctr_ctr x);
            Some (x\<lparr>ctr_out := out, ctr_outUsed := 0, ctr_ctr := ctrIncr (length (ctr_ctr x)) (ctr_ctr x)\<rparr>) }
          else Some x);
     k \<leftarrow> slice_at (ctr_out x) (int (ctr_outUsed x));
     Some (x\<lparr>ctr_outUsed := ctr_outUsed x + 1\<rparr>, c XOR k) }"

definition ctr_XORKeyStream :: "ctr \<Rightarrow> mem \<Rightarrow> mslice \<Rightarrow> mslice \<Rightarrow> (ctr \<times> mem) option" where
  "ctr_XORKeyStream = byteLoop ctr_step"

section \<open>ocfb.go\<close>

record ocfb =
  ocfb_b :: Block
  ocfb_fre :: "byte list"
  ocfb_outUsed :: nat

text \<open>The loops \<open>prefix[i] = randData[i] ^ x.fre[i]\<close> and \<open>prefixCopy[i] ^= x.fre[i]\<close>.\<close>

definition ocfbXorLoop :: "nat \<Rightarrow> byte list \<Rightarrow> byte list \<Rightarrow> byte list \<Rightarrow> byte list option" where
  "ocfbXorLoop n fre src dst = forLoop (\<lambda>i dst. do {
     c \<leftarrow> slice_at src (int i);
     k \<leftarrow> slice_at fre (int i);
     slice_put dst (int i) (c XOR k) }) [0..<n] dst"

text \<open>
  The end of both constructors: the register for the data is either resynchronised with the last
  block of ciphertext, or keeps the two bytes of ciphertext at its front.
\<close>

definition ocfbResync :: "Block \<Rightarrow> bool \<Rightarrow> byte list \<Rightarrow> byte list \<Rightarrow> (byte list \<times> nat) option" where
  "ocfbResync block resync prefix fre =
     (if resync then do { fre \<leftarrow> Encrypt block fre (drop 2 prefix); Some (fre, 0) }
      else do {
        p0 \<leftarrow> slice_at prefix (int (BlockSize block));
        fre \<leftarrow> slice_put fre 0 p0;
        p1 \<leftarrow> slice_at prefix (int (BlockSize block + 1));
        fre \<leftarrow> slice_put fre 1 p1;
        Some (fre, 2) })"

definition NewOCFBEncrypter :: "Block \<Rightarrow> byte list \<Rightarrow> bool \<Rightarrow> (ocfb \<times> byte list) option option" where
  "NewOCFBEncrypter block randData resync =
     (let blockSize = BlockSize block in
      if length randData \<noteq> blockSize then Some None
      else do {
        let fre = replicate blockSize 0;
        let prefix = replicate (blockSize + 2) 0;
        fre \<leftarrow> Encrypt block fre fre;
        prefix \<leftarrow> ocfbXorLoop blockSize fre randData prefix;
        fre \<leftarrow> Encrypt block fre (take blockSize prefix);
        k0 \<leftarrow> slice_at fre 0;
        r0 \<leftarrow> slice_at randData (int blockSize - 2);
        prefix \<leftarrow> slice_put prefix (int blockSize) (k0 XOR r0);
        k1 \<leftarrow> slice_at fre 1;
        r1 \<leftarrow> slice_at randData (int blockSize - 1);
        prefix \<leftarrow> slice_put prefix (int blockSize + 1) (k1 XOR r1);
        (fre, outUsed) \<leftarrow> ocfbResync block resync prefix fre;
        Some (Some (\<lparr>ocfb_b = block, ocfb_fre = fre, ocfb_outUsed = outUsed\<rparr>, prefix)) })"

definition ocfb_refill :: "ocfb \<Rightarrow> ocfb option" where
  "ocfb_refill x =
     (if ocfb_outUsed x = length (ocfb_fre x)
      then do { fre \<leftarrow> Encrypt (ocfb_b x) (ocfb_fre x) (ocfb_fre x); Some (x\<lparr>ocfb_fre := fre, ocfb_outUsed := 0\<rparr>) }
      else Some x)"

definition ocfbEncrypter_step :: "ocfb \<Rightarrow> byte \<Rightarrow> (ocfb \<times> byte) option" where
  "ocfbEncrypter_step x c = do {
     x \<leftarrow> ocfb_refill x;
     k \<leftarrow> slice_at (ocfb_fre x) (int (ocfb_outUsed x));
     fre \<leftarrow> slice_put (ocfb_fre x) (int (ocfb_outUsed x)) (k XOR c);
     Some (x\<lparr>ocfb_fre := fre, ocfb_outUsed := ocfb_outUsed x + 1\<rparr>, k XOR c) }"

definition ocfbEncrypter_XORKeyStream :: "ocfb \<Rightarrow> mem \<Rightarrow> mslice \<Rightarrow> mslice \<Rightarrow> (ocfb \<times> mem) option" where
  "ocfbEncrypter_XORKeyStream = byteLoop ocfbEncrypter_step"

text \<open>
  The decrypter checks the two repeated bytes and returns nil when they differ; on success it also
  replaces the caller's prefix by its decryption, the second component of the result.
\<close>

definition NewOCFBDecrypter :: "Block \<Rightarrow> byte list \<Rightarrow> bool \<Rightarrow> (ocfb \<times> byte list) option option" where
  "NewOCFBDecrypter block prefix resync =
     (let blockSize = BlockSize block in
      if length prefix \<noteq> blockSize + 2 then Some None
      else do {
        let fre = replicate blockSize 0;
        fre \<leftarrow> Encrypt block fre fre;
        prefixCopy \<leftarrow> ocfbXorLoop blockSize fre prefix prefix;
        fre \<leftarrow> Encrypt block fre (take blockSize prefix);
        p0 \<leftarrow> slice_at prefixCopy (int blockSize);
        k0 \<leftarrow> slice_at fre 0;
        prefixCopy \<leftarrow> slice_put prefixCopy (int blockSize) (p0 XOR k0);
        p1 \<leftarrow> slice_at prefixCopy (int blockSize + 1);
        k1 \<leftarrow> slice_at fre 1;
        prefixCopy \<leftarrow> slice_put prefixCopy (int blockSize + 1) (p1 XOR k1);
        a0 \<leftarrow> slice_at prefixCopy (int blockSize - 2);
        b0 \<leftarrow> slice_at prefixCopy (int blockSize);
        a1 \<leftarrow> slice_at prefixCopy (int blockSize - 1);
        b1 \<leftarrow> slice_at prefixCopy (int blockSize + 1);
        if a0 \<noteq> b0 \<or> a1 \<noteq> b1 then Some None
        else do {
          (fre, outUsed) \<leftarrow> ocfbResync block resync prefix fre;
          Some (Some (\<lparr>ocfb_b = block, ocfb_fre = fre, ocfb_outUsed = outUsed\<rparr>, prefixCopy)) } })"

definition ocfbDecrypter_step :: "ocfb \<Rightarrow> byte \<Rightarrow> (ocfb \<times> byte) option" where
  "ocfbDecrypter_step x c = do {
     x \<leftarrow> ocfb_refill x;
     k \<leftarrow> slice_at (ocfb_fre x) (int (ocfb_outUsed x));
     fre \<leftarrow> slice_put (ocfb_fre x) (int (ocfb_outUsed x)) c;
     Some (x\<lparr>ocfb_fre := fre, ocfb_outUsed := ocfb_outUsed x + 1\<rparr>, k XOR c) }"

definition ocfbDecrypter_XORKeyStream :: "ocfb \<Rightarrow> mem \<Rightarrow> mslice \<Rightarrow> mslice \<Rightarrow> (ocfb \<times> mem) option" where
  "ocfbDecrypter_XORKeyStream = byteLoop ocfbDecrypter_step"

section \<open>io.go\<close>

text \<open>
  A stream is its method \<open>XORKeyStream\<close> on a state. The reader and the writer below the adapters
  are functions on their own state; the reader returns the bytes it has put at the front of the
  destination. Both adapters have value receivers, so that the assignment to \<open>w.Err\<close> in
  \<open>StreamWriter.Write\<close> changes a copy only: the field is the same after the call.
\<close>

type_synonym 's stream = "'s \<Rightarrow> mem \<Rightarrow> mslice \<Rightarrow> mslice \<Rightarrow> ('s \<times> mem) option"

definition StreamReader_Read ::
  "'s stream \<Rightarrow> ('r \<Rightarrow> nat \<Rightarrow> 'r \<times> byte list \<times> 'e option) \<Rightarrow> 's \<Rightarrow> 'r \<Rightarrow> mem \<Rightarrow> mslice \<Rightarrow> ('s \<times> 'r \<times> mem \<times> nat \<times> 'e option) option" where
  "StreamReader_Read xks rd s r m dst = do {
     let (r, bs, err) = rd r (snd dst);
     let n = length bs;
     if n > snd dst then None
     else do {
       (s, m) \<leftarrow> xks s (mwrite m (fst dst) bs) (fst dst, n) (fst dst, n);
       Some (s, r, m, n, err) } }"

record ('s, 'w, 'e) StreamWriter =
  sw_S :: 's
  sw_W :: 'w
  sw_Err :: "'e option"

text \<open>The source at address 0 and the fresh buffer \<open>c\<close> behind it.\<close>

definition streamCopy :: "'s stream \<Rightarrow> 's \<Rightarrow> byte list \<Rightarrow> ('s \<times> byte list) option" where
  "streamCopy xks s src = do {
     let n = length src;
     (s, m) \<leftarrow> xks s (mwrite (\<lambda>_. 0) 0 src) (n, n) (0, n);
     Some (s, mread m n n) }"

definition StreamWriter_Write ::
  "'s stream \<Rightarrow> ('w \<Rightarrow> byte list \<Rightarrow> 'w \<times> nat \<times> 'e option) \<Rightarrow> 'e \<Rightarrow> ('s, 'w, 'e) StreamWriter \<Rightarrow> byte list \<Rightarrow>
   (('s, 'w, 'e) StreamWriter \<times> nat \<times> 'e option) option" where
  "StreamWriter_Write xks wr ErrShortWrite w src =
     (if sw_Err w \<noteq> None then Some (w, 0, sw_Err w)
      else do {
        (s, c) \<leftarrow> streamCopy xks (sw_S w) src;
        let (w', n, err) = wr (sw_W w) c;
        let err = (if n \<noteq> length src \<and> err = None then Some ErrShortWrite else err);
        Some (w\<lparr>sw_S := s, sw_W := w'\<rparr>, n, err) })"

end
