(* ===== verification/Cipher_Block.thy ===== *)
theory Cipher_Block
  imports Cipher
begin

text \<open>
  The contract of the interface \<open>Block\<close>, and cipher block chaining over any block cipher that
  keeps it. \<open>block_contract\<close> names the permutation \<open>E\<close> of blocks that \<open>Encrypt\<close> computes and its
  inverse \<open>D\<close>: the methods transform the first block of \<open>src\<close>, write it to the front of \<open>dst\<close>
  and panic on a short slice.
\<close>

section \<open>The contract of a block cipher\<close>

locale block_contract =
  fixes b :: Block and E D :: "byte list \<Rightarrow> byte list"
  assumes pos: "0 < BlockSize b"
    and Encrypt_eq: "Encrypt b dst src = (if BlockSize b \<le> length src \<and> BlockSize b \<le> length dst
      then Some (E (take (BlockSize b) src) @ drop (BlockSize b) dst) else None)"
    and Decrypt_eq: "Decrypt b dst src = (if BlockSize b \<le> length src \<and> BlockSize b \<le> length dst
      then Some (D (take (BlockSize b) src) @ drop (BlockSize b) dst) else None)"
    and length_E: "length x = BlockSize b \<Longrightarrow> length (E x) = BlockSize b"
    and length_D: "length x = BlockSize b \<Longrightarrow> length (D x) = BlockSize b"
    and D_E: "length x = BlockSize b \<Longrightarrow> D (E x) = x"
    and E_D: "length x = BlockSize b \<Longrightarrow> E (D x) = x"
begin

lemma Encrypt_block: "length src = BlockSize b \<Longrightarrow> length dst = BlockSize b \<Longrightarrow> Encrypt b dst src = Some (E src)"
  by (simp add: Encrypt_eq)

lemma Decrypt_block: "length src = BlockSize b \<Longrightarrow> length dst = BlockSize b \<Longrightarrow> Decrypt b dst src = Some (D src)"
  by (simp add: Decrypt_eq)

end

section \<open>Blocks of bytes\<close>

definition xors :: "byte list \<Rightarrow> byte list \<Rightarrow> byte list" where
  "xors a b = map2 (XOR) a b"

lemma length_xors [simp]: "length (xors a b) = min (length a) (length b)"
  by (simp add: xors_def)

lemma nth_xors [simp]: "i < length a \<Longrightarrow> i < length b \<Longrightarrow> xors a b ! i = a ! i XOR b ! i"
  by (simp add: xors_def)

lemma xors_xors: "length a = length b \<Longrightarrow> xors (xors a b) a = b"
  by (rule nth_equalityI) (auto simp: ac_simps)

lemma dup_id [simp]: "dup p = p"
  by (simp add: dup_def)

lemma list_update_prefix: "i < length xs \<Longrightarrow> length ys = i \<Longrightarrow> (ys @ drop i xs)[i := v] = (ys @ [v]) @ drop (Suc i) xs"
  by (simp add: list_update_append Cons_nth_drop_Suc [symmetric])

lemma nth_prefix: "i < length xs \<Longrightarrow> length ys = i \<Longrightarrow> (ys @ drop i xs) ! i = xs ! i"
  by (simp add: nth_append)

section \<open>The inner loops\<close>

lemma cbcXorIv_eq:
  assumes "length iv = n" "n \<le> snd src"
  shows "cbcXorIv n m src iv = Some (xors iv (mread m (fst src) n))"
proof -
  let ?r = "xors iv (mread m (fst src) n)"
  have "\<exists>s. cbcXorIv n m src iv = Some s \<and> s = take n ?r @ drop n iv"
    unfolding cbcXorIv_def
    by (rule forLoop_inv [where P = "\<lambda>i s. s = take i ?r @ drop i iv"])
      (use assms in \<open>auto simp: mload_def nth_prefix list_update_prefix take_Suc_conv_app_nth\<close>)
  then show ?thesis using assms by simp
qed

lemma cbcCopy_eq:
  assumes "length iv = n" "n \<le> snd dst"
  shows "cbcCopy n iv dst m = Some (mwrite m (fst dst) iv)"
proof -
  have "\<exists>s. cbcCopy n iv dst m = Some s \<and> s = mwrite m (fst dst) (take n iv)"
    unfolding cbcCopy_def
    by (rule forLoop_inv [where P = "\<lambda>i s. s = mwrite m (fst dst) (take i iv)"])
      (use assms in \<open>auto simp: mstore_def take_Suc_conv_app_nth mwrite_snoc\<close>)
  then show ?thesis using assms by simp
qed

lemma cbcDecryptInner_eq:
  assumes "length tmp = n" "length iv = n" "n \<le> snd src" "n \<le> snd dst" "safe_overlap dst src"
  shows "cbcDecryptInner n dst src (tmp, iv, m) =
    Some (xors tmp iv, mread m (fst src) n, mwrite m (fst dst) (xors tmp iv))"
proof -
  let ?t = "xors tmp iv" and ?v = "mread m (fst src) n"
  have t: "length ?t = n" using assms by simp
  have "\<exists>s. cbcDecryptInner n dst src (tmp, iv, m) = Some s \<and>
      s = (take n ?t @ drop n tmp, take n ?v @ drop n iv, mwrite m (fst dst) (take n ?t))"
    unfolding cbcDecryptInner_def
  proof (rule forLoop_inv [where P = "\<lambda>i s. s = (take i ?t @ drop i tmp, take i ?v @ drop i iv, mwrite m (fst dst) (take i ?t))"])
    fix i and s :: "byte list \<times> byte list \<times> mem"
    assume i: "i < n" and s: "s = (take i ?t @ drop i tmp, take i ?v @ drop i iv, mwrite m (fst dst) (take i ?t))"
    have m: "mwrite m (fst dst) (take i ?t) (fst src + i) = m (fst src + i)"
      using i t assms by (auto simp: mwrite_def safe_overlap_def)
    have "take i ?v = mread m (fst src) i" using i by simp
    show "\<exists>s'. (case s of (tmp, iv, m) \<Rightarrow> do {
        t \<leftarrow> slice_at tmp (int i); v \<leftarrow> slice_at iv (int i); tmp \<leftarrow> slice_put tmp (int i) (t XOR v);
        c \<leftarrow> mload m src i; iv \<leftarrow> slice_put iv (int i) c; t \<leftarrow> slice_at tmp (int i);
        m \<leftarrow> mstore m dst i t; Some (tmp, iv, m) }) = Some s' \<and>
      s' = (take (Suc i) ?t @ drop (Suc i) tmp, take (Suc i) ?v @ drop (Suc i) iv, mwrite m (fst dst) (take (Suc i) ?t))"
      using i assms m t unfolding s
      by (auto simp: mload_def mstore_def nth_prefix list_update_prefix take_Suc_conv_app_nth mwrite_snoc nth_append
        simp del: take_mread)
  qed simp
  then show ?thesis using assms t by simp
qed

section \<open>Chaining on lists\<close>

text \<open>
  The mode as the standard defines it, on \<open>k\<close> blocks of \<open>n\<close> bytes: the result and the vector for
  the next call.
\<close>

fun cbc_chain :: "(byte list \<Rightarrow> byte list) \<Rightarrow> nat \<Rightarrow> nat \<Rightarrow> byte list \<Rightarrow> byte list \<Rightarrow> byte list \<times> byte list" where
  "cbc_chain E n 0 iv p = ([], iv)"
| "cbc_chain E n (Suc k) iv p =
     (let c = E (xors iv (take n p)); (cs, iv') = cbc_chain E n k c (drop n p) in (c @ cs, iv'))"

fun cbc_unchain :: "(byte list \<Rightarrow> byte list) \<Rightarrow> nat \<Rightarrow> nat \<Rightarrow> byte list \<Rightarrow> byte list \<Rightarrow> byte list \<times> byte list" where
  "cbc_unchain D n 0 iv c = ([], iv)"
| "cbc_unchain D n (Suc k) iv c =
     (let (ps, iv') = cbc_unchain D n k (take n c) (drop n c) in (xors (D (take n c)) iv @ ps, iv'))"

lemma mread_behind:
  "d \<le> s \<or> s + n + k \<le> d \<Longrightarrow> length c = n \<Longrightarrow> mread (mwrite m d c) (s + n) k = mread m (s + n) k"
  by (rule mread_mwrite_other) auto

lemma safe_overlap_step:
  "safe_overlap dst src \<Longrightarrow> n \<le> snd src \<Longrightarrow> n \<le> snd dst \<Longrightarrow>
   safe_overlap (fst dst + n, snd dst - n) (fst src + n, snd src - n)"
  by (auto simp: safe_overlap_def)

lemma safe_overlap_cases:
  "safe_overlap dst src \<Longrightarrow> n \<le> snd src \<Longrightarrow> fst dst \<le> fst src \<or> fst src + n + (snd src - n) \<le> fst dst"
  by (auto simp: safe_overlap_def)

context block_contract
begin

abbreviation "n \<equiv> BlockSize b"

lemma length_cbc_chain: "length p = k * n \<Longrightarrow> length iv = n \<Longrightarrow>
  length (fst (cbc_chain E n k iv p)) = k * n \<and> length (snd (cbc_chain E n k iv p)) = n"
proof (induction k arbitrary: iv p)
  case (Suc k)
  have "length (E (xors iv (take n p))) = n" using Suc.prems by (intro length_E) simp
  then show ?case using Suc.IH [of "drop n p" "E (xors iv (take n p))"] Suc.prems
    by (auto simp: Let_def split: prod.splits)
qed simp

lemma cbc_unchain_chain: "length p = k * n \<Longrightarrow> length iv = n \<Longrightarrow>
  cbc_unchain D n k iv (fst (cbc_chain E n k iv p)) = (p, snd (cbc_chain E n k iv p))"
proof (induction k arbitrary: iv p)
  case (Suc k)
  let ?x = "xors iv (take n p)"
  have x: "length ?x = n" using Suc.prems by simp
  have "cbc_unchain D n k (E ?x) (fst (cbc_chain E n k (E ?x) (drop n p))) =
      (drop n p, snd (cbc_chain E n k (E ?x) (drop n p)))"
    using Suc.prems length_E [OF x] by (intro Suc.IH) auto
  moreover have "xors ?x iv = take n p" using Suc.prems by (intro xors_xors) simp
  ultimately show ?case using length_E [OF x] D_E [OF x]
    by (auto simp: Let_def split: prod.splits)
qed simp

lemma cbcEncrypter_eq:
  assumes "cbc_b x = b" "cbc_blockSize x = n" "length (cbc_iv x) = n"
    "snd src = k * n" "k * n \<le> snd dst" "safe_overlap dst src"
  shows "cbcEncrypter_CryptBlocks x m dst src =
    (let (c, iv) = cbc_chain E n k (cbc_iv x) (mread m (fst src) (snd src)) in Some (x\<lparr>cbc_iv := iv\<rparr>, mwrite m (fst dst) c))"
  using assms
proof (induction k arbitrary: x m dst src)
  case 0
  then show ?case by (simp add: cbcEncrypter_CryptBlocks.simps)
next
  case (Suc k)
  let ?s = "mread m (fst src) (snd src)"
  let ?iv = "xors (cbc_iv x) (take n ?s)"
  let ?m = "mwrite m (fst dst) (E ?iv)"
  have iv: "length ?iv = n" "length (E ?iv) = n" using Suc.prems length_E by auto
  have fits: "n \<le> snd src" "n \<le> snd dst" "snd src \<noteq> 0" using Suc.prems pos by auto
  have "cbcEncrypter_CryptBlocks x m dst src =
      cbcEncrypter_CryptBlocks (x\<lparr>cbc_iv := E ?iv\<rparr>) ?m (fst dst + n, snd dst - n) (fst src + n, snd src - n)"
    using Suc.prems fits iv pos
    by (subst cbcEncrypter_CryptBlocks.simps) (simp add: cbcXorIv_eq Encrypt_block cbcCopy_eq mdrop_def)
  also have "\<dots> = (let (c, iv) = cbc_chain E n k (E ?iv) (mread ?m (fst src + n) (snd src - n)) in
      Some (x\<lparr>cbc_iv := iv\<rparr>, mwrite ?m (fst dst + n) c))"
    using Suc.prems fits iv by (subst Suc.IH) (auto simp: Let_def safe_overlap_def)
  also have "mread ?m (fst src + n) (snd src - n) = drop n ?s"
    using mread_behind [OF safe_overlap_cases [OF Suc.prems(6) fits(1)] iv(2)] by simp
  finally show ?case
    using iv by (auto simp: Let_def mwrite_mwrite split: prod.splits)
qed

lemma cbcDecrypter_eq:
  assumes "cbc_b x = b" "cbc_blockSize x = n" "length (cbc_iv x) = n" "length (cbc_tmp x) = n"
    "snd src = k * n" "k * n \<le> snd dst" "safe_overlap dst src"
  shows "\<exists>x'. cbcDecrypter_CryptBlocks x m dst src =
    (let (p, iv) = cbc_unchain D n k (cbc_iv x) (mread m (fst src) (snd src)) in Some (x\<lparr>cbc_tmp := x', cbc_iv := iv\<rparr>, mwrite m (fst dst) p))
    \<and> length x' = n"
  using assms
proof (induction k arbitrary: x m dst src)
  case 0
  then show ?case by (auto simp: cbcDecrypter_CryptBlocks.simps intro!: exI [of _ "cbc_tmp x"])
next
  case (Suc k)
  let ?s = "mread m (fst src) (snd src)"
  let ?t = "xors (D (take n ?s)) (cbc_iv x)"
  let ?m = "mwrite m (fst dst) ?t"
  let ?x = "x\<lparr>cbc_tmp := ?t, cbc_iv := take n ?s\<rparr>"
  have fits: "n \<le> snd src" "n \<le> snd dst" "snd src \<noteq> 0" using Suc.prems pos by auto
  have t: "length (D (take n ?s)) = n" "length ?t = n" using Suc.prems length_D fits by auto
  define src' dst' where d: "src' = (fst src + n, snd src - n)" "dst' = (fst dst + n, snd dst - n)"
  have "cbcDecrypter_CryptBlocks x m dst src = cbcDecrypter_CryptBlocks ?x ?m dst' src'"
    using Suc.prems fits t pos unfolding d
    by (subst cbcDecrypter_CryptBlocks.simps) (simp add: Decrypt_block cbcDecryptInner_eq mdrop_def)
  moreover have "\<exists>x'. cbcDecrypter_CryptBlocks ?x ?m dst' src' =
      (let (p, iv) = cbc_unchain D n k (cbc_iv ?x) (mread ?m (fst src') (snd src')) in
        Some (?x\<lparr>cbc_tmp := x', cbc_iv := iv\<rparr>, mwrite ?m (fst dst') p)) \<and> length x' = n"
    using Suc.prems fits t pos by (intro Suc.IH) (auto simp: safe_overlap_def d)
  moreover have "mread ?m (fst src') (snd src') = drop n ?s"
    using mread_behind [OF safe_overlap_cases [OF Suc.prems(7) fits(1)] t(2)] by (simp add: d)
  moreover have "mwrite ?m (fst dst') p = mwrite m (fst dst) (?t @ p)" for p
    using t by (intro mwrite_mwrite) (simp add: d)
  ultimately show ?case
    by (auto simp: Let_def split: prod.splits)
qed

lemma cbcXorIv_short: "snd src < n \<Longrightarrow> cbcXorIv n m src iv = None"
  unfolding cbcXorIv_def
  by (rule forLoop_None [of "snd src"]) (auto simp: mload_def split: Option.bind_splits)

lemma cbcEncrypter_partial_block:
  "cbc_blockSize x = n \<Longrightarrow> snd src mod n \<noteq> 0 \<Longrightarrow> cbcEncrypter_CryptBlocks x m dst src = None"
proof (induction "snd src" arbitrary: x m dst src rule: less_induct)
  case less
  show ?case
  proof (cases "n \<le> snd src")
    case True
    have *: "snd (fst src + n, snd src - n) < snd src" "snd (fst src + n, snd src - n) mod n \<noteq> 0"
      using True less.prems pos by (auto simp: le_mod_geq)
    show ?thesis using less.hyps [OF *(1) _ *(2)] less.prems True pos
      by (subst cbcEncrypter_CryptBlocks.simps) (auto simp: mdrop_def split: Option.bind_splits)
  next
    case False
    then show ?thesis using less.prems cbcXorIv_short [of src] pos
      by (subst cbcEncrypter_CryptBlocks.simps) (auto)
  qed
qed

lemma cbcDecrypter_partial_block:
  "cbc_blockSize x = n \<Longrightarrow> snd src mod n \<noteq> 0 \<Longrightarrow> cbcDecrypter_CryptBlocks x m dst src = None"
proof (induction "snd src" arbitrary: x m dst src rule: less_induct)
  case less
  show ?case
  proof (cases "n \<le> snd src")
    case True
    have *: "snd (fst src + n, snd src - n) < snd src" "snd (fst src + n, snd src - n) mod n \<noteq> 0"
      using True less.prems pos by (auto simp: le_mod_geq)
    show ?thesis using less.hyps [OF *(1) _ *(2)] less.prems True pos
      by (subst cbcDecrypter_CryptBlocks.simps) (auto simp: mdrop_def split: Option.bind_splits)
  next
    case False
    then show ?thesis using less.prems pos
      by (subst cbcDecrypter_CryptBlocks.simps) (auto)
  qed
qed

lemma cbc_roundtrip:
  assumes "length iv = n" "len = k * n" "len \<le> dn" "len \<le> en" "safe_overlap (d, dn) (s, len)" "safe_overlap (e, en) (d, len)"
  shows "\<exists>x m' y m''. cbcEncrypter_CryptBlocks (newCBC b iv) m (d, dn) (s, len) = Some (x, m') \<and>
    mread m' d len = fst (cbc_chain E n k iv (mread m s len)) \<and>
    cbcDecrypter_CryptBlocks (newCBC b iv) m' (e, en) (d, len) = Some (y, m'') \<and>
    mread m'' e len = mread m s len"
proof -
  obtain c iv' where c: "cbc_chain E n k iv (mread m s len) = (c, iv')" by fastforce
  let ?x = "(newCBC b iv)\<lparr>cbc_iv := iv'\<rparr>" and ?m = "mwrite m d c"
  have l: "length c = len" using length_cbc_chain [of "mread m s len" k iv] assms c by simp
  have "cbc_unchain D n k iv c = (mread m s len, iv')"
    using cbc_unchain_chain [of "mread m s len" k iv] assms c by simp
  moreover have "mread ?m d len = c" using l by simp
  ultimately have "\<exists>t. cbcDecrypter_CryptBlocks (newCBC b iv) ?m (e, en) (d, len) =
      Some ((newCBC b iv)\<lparr>cbc_tmp := t, cbc_iv := iv'\<rparr>, mwrite ?m e (mread m s len))"
    using cbcDecrypter_eq [of "newCBC b iv" "(d, len)" k "(e, en)" ?m] assms by (auto simp: newCBC_def)
  moreover have "cbcEncrypter_CryptBlocks (newCBC b iv) m (d, dn) (s, len) = Some (?x, ?m)"
    using cbcEncrypter_eq [of "newCBC b iv" "(s, len)" k "(d, dn)" m] assms c by (simp add: newCBC_def)
  ultimately show ?thesis using l c by auto
qed

end

end
