(* ===== verification/Cipher_Streams.thy ===== *)
theory Cipher_Streams
  imports Cipher_Block
begin

text \<open>
  The stream modes of crypto/cipher over any block cipher that keeps its contract. \<open>stream_pair\<close>
  is the contract of an encrypting and a decrypting step: a relation between their states under which
  the decrypter returns the byte the encrypter was given. Its lemmas lift that to whole slices of the
  memory, overlapping ones included; CFB, OFB, CTR and OCFB are instances.
\<close>

section \<open>Pairs of streams\<close>

locale stream_pair =
  fixes enc :: "'x \<Rightarrow> byte \<Rightarrow> ('x \<times> byte) option" and dec :: "'y \<Rightarrow> byte \<Rightarrow> ('y \<times> byte) option"
    and R :: "'x \<Rightarrow> 'y \<Rightarrow> bool"
  assumes step: "R x y \<Longrightarrow> \<exists>x' v y'. enc x c = Some (x', v) \<and> dec y v = Some (y', c) \<and> R x' y'"
begin

lemma run_pair: "R x y \<Longrightarrow> \<exists>x' vs y'. run enc x cs = Some (x', vs) \<and> run dec y vs = Some (y', cs) \<and> R x' y'"
proof (induction cs arbitrary: x y)
  case (Cons c cs)
  obtain x' v y' where s: "enc x c = Some (x', v)" "dec y v = Some (y', c)" "R x' y'"
    using step [OF Cons.prems] by blast
  then show ?case using Cons.IH [OF s(3)] by force
qed auto

text \<open>Encrypting from \<open>s\<close> to \<open>d\<close> and decrypting from there to \<open>e\<close> restores the bytes.\<close>

lemma loop_pair:
  assumes "R x y" "len \<le> dn" "len \<le> en" "safe_overlap (d, dn) (s, len)" "safe_overlap (e, en) (d, len)"
  shows "\<exists>x' m' y' m''. byteLoop enc x m (d, dn) (s, len) = Some (x', m') \<and>
    byteLoop dec y m' (e, en) (d, len) = Some (y', m'') \<and> mread m'' e len = mread m s len \<and> R x' y'"
proof -
  obtain x' vs y' where r: "run enc x (mread m s len) = Some (x', vs)" "run dec y vs = Some (y', mread m s len)" "R x' y'"
    using run_pair [OF assms(1)] by blast
  have l: "length vs = len" using run_length [OF r(1)] by simp
  have "byteLoop enc x m (d, dn) (s, len) = Some (x', mwrite m d vs)"
    using assms(2,4) r(1) by (simp add: byteLoop_run)
  moreover have "byteLoop dec y (mwrite m d vs) (e, en) (d, len) = Some (y', mwrite (mwrite m d vs) e (mread m s len))"
    using assms(3,5) r(2) l by (simp add: byteLoop_run)
  ultimately show ?thesis using r(3) by simp
qed

text \<open>The data may be cut into pieces, differently on the two sides.\<close>

lemma pieces_pair:
  assumes "R x y" "sum_list ks = len" "sum_list ls = len" "len \<le> dn" "len \<le> en"
    "safe_overlap (d, dn) (s, len)" "safe_overlap (e, en) (d, len)"
  shows "\<exists>x' m' y' m''. byteLoop enc x m (d, dn) (s, len) = Some (x', m') \<and> inPieces (byteLoop enc) x m (d, dn) s ks = Some (x', m') \<and>
    byteLoop dec y m' (e, en) (d, len) = Some (y', m'') \<and> inPieces (byteLoop dec) y m' (e, en) d ls = Some (y', m'') \<and>
    mread m'' e len = mread m s len"
  using loop_pair [OF assms(1,4-7), of m] assms inPieces_byteLoop [of d dn s ks enc] inPieces_byteLoop [of e en d ls dec]
  by auto

end

section \<open>The modes\<close>

text \<open>States that a mode reaches: the register has the block size and the position is inside it.\<close>

definition cfb_ok :: "Block \<Rightarrow> cfb \<Rightarrow> bool" where
  "cfb_ok b x \<longleftrightarrow> cfb_b x = b \<and> length (cfb_out x) = BlockSize b \<and> cfb_outUsed x \<le> BlockSize b"

definition cfb_rel :: "Block \<Rightarrow> cfb \<Rightarrow> cfb \<Rightarrow> bool" where
  "cfb_rel b x y \<longleftrightarrow> cfb_ok b x \<and> \<not> cfb_decrypt x \<and> y = x\<lparr>cfb_decrypt := True\<rparr>"

definition ofb_rel :: "Block \<Rightarrow> ofb \<Rightarrow> ofb \<Rightarrow> bool" where
  "ofb_rel b x y \<longleftrightarrow> ofb_b x = b \<and> length (ofb_out x) = BlockSize b \<and> ofb_outUsed x \<le> BlockSize b \<and> y = x"

definition ctr_rel :: "Block \<Rightarrow> ctr \<Rightarrow> ctr \<Rightarrow> bool" where
  "ctr_rel b x y \<longleftrightarrow> ctr_b x = b \<and> length (ctr_ctr x) = BlockSize b \<and> length (ctr_out x) = BlockSize b \<and>
     ctr_outUsed x \<le> BlockSize b \<and> y = x"

definition ocfb_rel :: "Block \<Rightarrow> ocfb \<Rightarrow> ocfb \<Rightarrow> bool" where
  "ocfb_rel b x y \<longleftrightarrow> ocfb_b x = b \<and> length (ocfb_fre x) = BlockSize b \<and> ocfb_outUsed x \<le> BlockSize b \<and> y = x"

lemma xor_cancel [simp]: "(k XOR c) XOR k = c" "(c XOR k) XOR k = c" "k XOR (k XOR c) = c" for c k :: byte
  by (rule bit_word_eqI; auto simp: bit_simps)+

lemma length_ctrIncr [simp]: "length (ctrIncr i c) = length c"
  by (induction i arbitrary: c) (auto simp: Let_def)

sublocale block_contract \<subseteq> cfb: stream_pair cfb_step cfb_step "cfb_rel b"
proof
  fix x y :: cfb and c :: byte
  assume R: "cfb_rel b x y"
  define x1 where "x1 = (if cfb_outUsed x = BlockSize b then x\<lparr>cfb_out := E (cfb_out x), cfb_outUsed := 0\<rparr> else x)"
  define k where "k = cfb_out x1 ! cfb_outUsed x1"
  define x' where "x' = x1\<lparr>cfb_out := (cfb_out x1)[cfb_outUsed x1 := k XOR c], cfb_outUsed := cfb_outUsed x1 + 1\<rparr>"
  have x1: "cfb_ok b x1" "cfb_outUsed x1 < BlockSize b" "\<not> cfb_decrypt x1"
    using R pos length_E by (auto simp: cfb_rel_def cfb_ok_def x1_def)
  have "cfb_step x c = Some (x', k XOR c)"
    using R x1 by (auto simp: cfb_step_def cfb_rel_def cfb_ok_def Encrypt_block x'_def k_def x1_def)
  moreover have "cfb_step y (k XOR c) = Some (x'\<lparr>cfb_decrypt := True\<rparr>, c)"
    using R x1 by (auto simp: cfb_step_def cfb_rel_def cfb_ok_def Encrypt_block x'_def k_def x1_def)
  moreover have "cfb_rel b x' (x'\<lparr>cfb_decrypt := True\<rparr>)"
    using x1 by (auto simp: cfb_rel_def cfb_ok_def x'_def)
  ultimately show "\<exists>x' v y'. cfb_step x c = Some (x', v) \<and> cfb_step y v = Some (y', c) \<and> cfb_rel b x' y'"
    by blast
qed

sublocale block_contract \<subseteq> ofb: stream_pair ofb_step ofb_step "ofb_rel b"
proof
  fix x y :: ofb and c :: byte
  assume "ofb_rel b x y"
  then show "\<exists>x' v y'. ofb_step x c = Some (x', v) \<and> ofb_step y v = Some (y', c) \<and> ofb_rel b x' y'"
    using pos by (auto simp: ofb_step_def ofb_rel_def Encrypt_block length_E)
qed

sublocale block_contract \<subseteq> ctr: stream_pair ctr_step ctr_step "ctr_rel b"
proof
  fix x y :: ctr and c :: byte
  assume "ctr_rel b x y"
  then show "\<exists>x' v y'. ctr_step x c = Some (x', v) \<and> ctr_step y v = Some (y', c) \<and> ctr_rel b x' y'"
    using pos by (auto simp: ctr_step_def ctr_rel_def Encrypt_block length_E)
qed

sublocale block_contract \<subseteq> ocfb: stream_pair ocfbEncrypter_step ocfbDecrypter_step "ocfb_rel b"
proof
  fix x y :: ocfb and c :: byte
  assume "ocfb_rel b x y"
  then show "\<exists>x' v y'. ocfbEncrypter_step x c = Some (x', v) \<and> ocfbDecrypter_step y v = Some (y', c) \<and> ocfb_rel b x' y'"
    using pos by (auto simp: ocfbEncrypter_step_def ocfbDecrypter_step_def ocfb_refill_def ocfb_rel_def Encrypt_block length_E)
qed

section \<open>The constructors\<close>

lemma slice_at_step [simp]:
  "slice_at xs (1 + int i) = (if Suc i < length xs then Some (xs ! Suc i) else None)"
  "slice_at xs (int i + 1) = (if Suc i < length xs then Some (xs ! Suc i) else None)"
  using slice_at_nat [of xs "Suc i"] by (simp_all add: add.commute)

lemma slice_put_step [simp]:
  "slice_put xs (1 + int i) v = (if Suc i < length xs then Some (xs[Suc i := v]) else None)"
  "slice_put xs (int i + 1) v = (if Suc i < length xs then Some (xs[Suc i := v]) else None)"
  using slice_put_nat [of xs "Suc i"] by (simp_all add: add.commute)

lemma drop_zeros: "drop n (0 # 0 # replicate n 0) = [0, 0]"
  by (induction n) simp_all

lemma ocfbXorLoop_eq:
  assumes "n \<le> length fre" "n \<le> length src" "n \<le> length dst"
  shows "ocfbXorLoop n fre src dst = Some (xors (take n src) (take n fre) @ drop n dst)"
proof -
  let ?r = "xors (take n src) (take n fre)"
  have "\<exists>s. ocfbXorLoop n fre src dst = Some s \<and> s = take n ?r @ drop n dst"
    unfolding ocfbXorLoop_def
    by (rule forLoop_inv [where P = "\<lambda>i s. s = take i ?r @ drop i dst"])
      (use assms in \<open>auto simp: list_update_prefix take_Suc_conv_app_nth\<close>)
  then show ?thesis using assms by simp
qed

context block_contract
begin

lemma NewCFB_pair: "length iv = n \<Longrightarrow>
  \<exists>x y. NewCFBEncrypter b iv = Some (Some x) \<and> NewCFBDecrypter b iv = Some (Some y) \<and> cfb_rel b x y"
  by (simp add: NewCFBEncrypter_def NewCFBDecrypter_def newCFB_def Encrypt_block cfb_rel_def cfb_ok_def length_E)

lemma NewOFB_pair: "length iv = n \<Longrightarrow> \<exists>x. NewOFB b iv = Some (Some x) \<and> ofb_rel b x x"
  by (simp add: NewOFB_def Encrypt_block ofb_rel_def length_E)

lemma NewCTR_pair: "length iv = n \<Longrightarrow> \<exists>x. NewCTR b iv = Some x \<and> ctr_rel b x x"
  by (simp add: NewCTR_def ctr_rel_def)

lemma NewOCFB_pair:
  assumes "length randData = n" "2 \<le> n"
  shows "\<exists>x prefix p. NewOCFBEncrypter b randData resync = Some (Some (x, prefix)) \<and>
    NewOCFBDecrypter b prefix resync = Some (Some (x, p)) \<and> ocfb_rel b x x \<and>
    p = randData @ drop (n - 2) randData"
proof -
  define K where "K = E (replicate n 0)"
  define P where "P = xors randData K"
  define F where "F = E P"
  define q where "q = P @ [F ! 0 XOR randData ! (n - 2), F ! 1 XOR randData ! (n - 1)]"
  have l: "length K = n" "length P = n" "length F = n" "length q = n + 2"
    using assms length_E by (simp_all add: K_def P_def F_def q_def)
  define fre where "fre = (if resync then E (drop 2 q) else F[0 := q ! n, 1 := q ! (n + 1)])"
  define used where "used = (if resync then 0 else 2 :: nat)"
  define x where "x = \<lparr>ocfb_b = b, ocfb_fre = fre, ocfb_outUsed = used\<rparr>"
  have F: "F \<noteq> []" "1 < length F" "take n q = P" using l assms by (auto simp: q_def)
  have idx: "slice_at randData (int n - 2) = Some (randData ! (n - 2))" "slice_at randData (int n - 1) = Some (randData ! (n - 1))"
    using assms by (auto simp: slice_at_def nat_diff_distrib)
  have resync: "ocfbResync b resync q F = Some (fre, used)"
    using l F by (auto simp: ocfbResync_def fre_def used_def Encrypt_block)
  have q: "(P @ [0, 0])[n := F ! 0 XOR randData ! (n - 2), Suc n := F ! 1 XOR randData ! (n - 1)] = q"
    using l by (simp add: q_def list_update_append)
  have enc: "NewOCFBEncrypter b randData resync = Some (Some (x, q))"
    using assms l F idx q resync
    by (simp add: NewOCFBEncrypter_def Let_def Encrypt_block ocfbXorLoop_eq drop_zeros K_def [symmetric] P_def [symmetric] F_def [symmetric] x_def)
  have two: "drop (n - 2) randData = [randData ! (n - 2), randData ! (n - 1)]"
    using assms by (intro nth_equalityI) (auto simp: less_Suc_eq numeral_2_eq_2)
  have "xors P K = randData"
    using assms l by (intro nth_equalityI) (simp_all add: P_def)
  moreover have "slice_at (randData @ c) (int n - 2) = Some (randData ! (n - 2))"
      "slice_at (randData @ c) (int n - 1) = Some (randData ! (n - 1))" for c
    using assms by (auto simp: slice_at_def nat_diff_distrib nth_append)
  moreover have "drop n q = [F ! 0 XOR randData ! (n - 2), F ! 1 XOR randData ! (n - 1)]"
    using l by (simp add: q_def)
  ultimately have "NewOCFBDecrypter b q resync = Some (Some (x, randData @ drop (n - 2) randData))"
    using assms l F resync
    by (simp add: NewOCFBDecrypter_def Let_def Encrypt_block ocfbXorLoop_eq K_def [symmetric] F_def [symmetric] x_def two
      list_update_append nth_append)
  moreover have "ocfb_rel b x x"
    using l assms length_E by (auto simp: ocfb_rel_def x_def fre_def used_def)
  ultimately show ?thesis using enc by blast
qed

end

section \<open>The counter\<close>

text \<open>The counter block as a big-endian number; the increment loop adds one modulo its size.\<close>

definition be_val :: "byte list \<Rightarrow> nat" where
  "be_val c = foldl (\<lambda>v b. v * 256 + unat b) 0 c"

lemma be_val_snoc: "be_val (c @ [b]) = be_val c * 256 + unat b"
  by (simp add: be_val_def)

lemma ctrIncr_append: "i \<le> length c \<Longrightarrow> ctrIncr i (c @ d) = ctrIncr i c @ d"
  by (induction i arbitrary: c) (auto simp: Let_def list_update_append nth_append)

lemma be_val_less: "be_val c < 256 ^ length c"
proof (induction c rule: rev_induct)
  case (snoc b c)
  then have "be_val c * 256 + unat b < (be_val c + 1) * 256" using byte_less [of b] by simp
  also have "\<dots> \<le> 256 ^ length c * 256" using snoc by (intro mult_right_mono) simp_all
  finally show ?case by (simp add: be_val_snoc mult.commute)
qed (simp add: be_val_def)

lemma ctrIncr_val: "be_val (ctrIncr (length c) c) = (be_val c + 1) mod 256 ^ length c"
proof (induction c rule: rev_induct)
  case Nil
  then show ?case by (simp add: be_val_def)
next
  case (snoc b c)
  have incr: "ctrIncr (length (c @ [b])) (c @ [b]) =
      (if b + 1 \<noteq> 0 then c @ [b + 1] else ctrIncr (length c) c @ [b + 1])"
    by (simp add: Let_def list_update_append ctrIncr_append)
  show ?case
  proof (cases "b + 1 = 0")
    case True
    then have "b = - 1" by (metis add.inverse_unique add.commute)
    then have "unat b = 255" by (simp add: unsigned_minus_1_eq_mask mask_eq_exp_minus_1)
    then have "(be_val (c @ [b]) + 1) mod 256 ^ length (c @ [b]) = ((be_val c + 1) * 256) mod (256 ^ length c * 256)"
      by (simp add: be_val_snoc mult.commute)
    also have "\<dots> = (be_val c + 1) mod 256 ^ length c * 256" by (rule mod_mult_mult2)
    finally show ?thesis using True snoc by (simp add: incr be_val_snoc del: length_append)
  next
    case False
    then have "unat (b + 1) = unat b + 1" using unatSuc [of b] by (simp add: add.commute)
    moreover from this have "be_val (c @ [b]) + 1 < 256 ^ length (c @ [b])"
      using be_val_less [of "c @ [b + 1]"] by (simp add: be_val_snoc)
    ultimately show ?thesis using False by (simp add: incr be_val_snoc del: length_append)
  qed
qed

text \<open>A counter block is determined by its number.\<close>

lemma be_val_inj: "length c = length d \<Longrightarrow> be_val c = be_val d \<Longrightarrow> c = d"
proof (induction c arbitrary: d rule: rev_induct)
  case (snoc b c)
  obtain d' a where d: "d = d' @ [a]" using snoc.prems(1) by (cases d rule: rev_cases) auto
  have eq: "be_val c * 256 + unat b = be_val d' * 256 + unat a" using snoc.prems(2) by (simp add: d be_val_snoc)
  have "(be_val c * 256 + unat b) mod 256 = unat b" "(be_val d' * 256 + unat a) mod 256 = unat a"
    using byte_less [of a] byte_less [of b] by simp_all
  then have "a = b" using eq by (metis unsigned_word_eqI)
  moreover from this have "be_val c = be_val d'" using eq by simp
  ultimately show ?case using snoc.IH [of d'] snoc.prems(1) by (simp add: d)
qed simp

text \<open>
  The key stream of CTR: byte \<open>i\<close> is byte \<open>i mod n\<close> of the encryption of the initial counter advanced by
  \<open>i div n\<close>. After \<open>i\<close> bytes the mode has produced \<open>q\<close> blocks, the least number that covers them.
\<close>

definition ctr_inv :: "(byte list \<Rightarrow> byte list) \<Rightarrow> Block \<Rightarrow> byte list \<Rightarrow> nat \<Rightarrow> ctr \<Rightarrow> bool" where
  "ctr_inv E b iv i x \<longleftrightarrow> ctr_rel b x x \<and> (\<exists>q. i + BlockSize b = q * BlockSize b + ctr_outUsed x \<and>
     ctr_ctr x = ((\<lambda>c. ctrIncr (length c) c) ^^ q) iv \<and>
     (0 < q \<longrightarrow> ctr_out x = E (((\<lambda>c. ctrIncr (length c) c) ^^ (q - 1)) iv)))"

definition ctr_key :: "(byte list \<Rightarrow> byte list) \<Rightarrow> nat \<Rightarrow> byte list \<Rightarrow> nat \<Rightarrow> byte" where
  "ctr_key E n iv i = E (((\<lambda>c. ctrIncr (length c) c) ^^ (i div n)) iv) ! (i mod n)"

lemma length_counter [simp]: "length (((\<lambda>c. ctrIncr (length c) c) ^^ q) iv) = length iv"
  by (induction q) simp_all

lemma counter_val: "be_val (((\<lambda>c. ctrIncr (length c) c) ^^ q) iv) = (be_val iv + q) mod 256 ^ length iv"
proof (induction q)
  case 0
  then show ?case using be_val_less [of iv] by simp
next
  case (Suc q)
  then show ?case by (simp add: ctrIncr_val mod_Suc_eq del: length_counter) (simp add: mod_Suc_eq)
qed

context block_contract
begin

lemma ctr_inv_step:
  assumes "ctr_inv E b iv i x"
  shows "\<exists>x'. ctr_step x c = Some (x', c XOR ctr_key E n iv i) \<and> ctr_inv E b iv (Suc i) x'"
proof -
  let ?f = "\<lambda>c. ctrIncr (length c) c"
  obtain q where q: "i + n = q * n + ctr_outUsed x" "ctr_ctr x = (?f ^^ q) iv"
      "0 < q \<Longrightarrow> ctr_out x = E ((?f ^^ (q - 1)) iv)" and ok: "ctr_rel b x x"
    using assms by (auto simp: ctr_inv_def)
  show ?thesis
  proof (cases "ctr_outUsed x = n")
    case True
    then have "i = q * n" using q(1) by simp
    then have i: "i div n = q" "i mod n = 0" using pos by simp_all
    have "ctr_step x c = Some (x\<lparr>ctr_out := E (ctr_ctr x), ctr_outUsed := 1, ctr_ctr := ?f (ctr_ctr x)\<rparr>, c XOR E (ctr_ctr x) ! 0)"
      using ok True pos by (auto simp: ctr_step_def ctr_rel_def Encrypt_block length_E)
    then show ?thesis
      using ok q i True pos by (auto simp: ctr_inv_def ctr_rel_def ctr_key_def length_E intro!: exI [of _ "Suc q"])
  next
    case False
    then have u: "ctr_outUsed x < n" using ok by (simp add: ctr_rel_def)
    then obtain q' where q': "q = Suc q'" using q(1) by (cases q) auto
    then have "i = q' * n + ctr_outUsed x" using q(1) by simp
    then have i: "i div n = q'" "i mod n = ctr_outUsed x" using u by simp_all
    have "ctr_step x c = Some (x\<lparr>ctr_outUsed := ctr_outUsed x + 1\<rparr>, c XOR ctr_out x ! ctr_outUsed x)"
      using ok u by (auto simp: ctr_step_def ctr_rel_def)
    then show ?thesis
      using ok q q' i u by (auto simp: ctr_inv_def ctr_rel_def ctr_key_def intro!: exI [of _ q])
  qed
qed

lemma ctr_run_key:
  "ctr_inv E b iv i x \<Longrightarrow> \<exists>x'. run ctr_step x cs = Some (x', map (\<lambda>j. cs ! j XOR ctr_key E n iv (i + j)) [0..<length cs]) \<and>
    ctr_inv E b iv (i + length cs) x'"
proof (induction cs arbitrary: i x)
  case (Cons c cs)
  obtain x' where x': "ctr_step x c = Some (x', c XOR ctr_key E n iv i)" "ctr_inv E b iv (Suc i) x'"
    using ctr_inv_step [OF Cons.prems] by blast
  then show ?case using Cons.IH [OF x'(2)]
    by (auto simp: upt_conv_Cons map_Suc_upt [symmetric] simp del: upt_Suc)
qed simp

lemma ctr_inv_New: "length iv = n \<Longrightarrow> NewCTR b iv = Some x \<Longrightarrow> ctr_inv E b iv 0 x"
  by (auto simp: ctr_inv_def NewCTR_def ctr_rel_def)

text \<open>The round trips of fresh streams.\<close>

lemma XORKeyStream_byteLoop:
  "cfb_XORKeyStream = byteLoop cfb_step" "ofb_XORKeyStream = byteLoop ofb_step" "ctr_XORKeyStream = byteLoop ctr_step"
  by (intro ext; simp add: cfb_XORKeyStream_def ofb_XORKeyStream_def ctr_XORKeyStream_def)+

lemma cfb_roundtrip:
  assumes "length iv = n" "sum_list ks = len" "sum_list ls = len" "len \<le> dn" "len \<le> en"
    "safe_overlap (d, dn) (s, len)" "safe_overlap (e, en) (d, len)"
  shows "\<exists>x y x' m' y' m''. NewCFBEncrypter b iv = Some (Some x) \<and> NewCFBDecrypter b iv = Some (Some y) \<and>
    cfb_XORKeyStream x m (d, dn) (s, len) = Some (x', m') \<and> inPieces cfb_XORKeyStream x m (d, dn) s ks = Some (x', m') \<and>
    cfb_XORKeyStream y m' (e, en) (d, len) = Some (y', m'') \<and> inPieces cfb_XORKeyStream y m' (e, en) d ls = Some (y', m'') \<and>
    mread m'' e len = mread m s len"
proof -
  obtain x y where "NewCFBEncrypter b iv = Some (Some x)" "NewCFBDecrypter b iv = Some (Some y)" "cfb_rel b x y"
    using NewCFB_pair [OF assms(1)] by blast
  then show ?thesis using cfb.pieces_pair [OF _ assms(2-7)] unfolding XORKeyStream_byteLoop by blast
qed

lemma ofb_roundtrip:
  assumes "length iv = n" "sum_list ks = len" "sum_list ls = len" "len \<le> dn" "len \<le> en"
    "safe_overlap (d, dn) (s, len)" "safe_overlap (e, en) (d, len)"
  shows "\<exists>x x' m' y' m''. NewOFB b iv = Some (Some x) \<and>
    ofb_XORKeyStream x m (d, dn) (s, len) = Some (x', m') \<and> inPieces ofb_XORKeyStream x m (d, dn) s ks = Some (x', m') \<and>
    ofb_XORKeyStream x m' (e, en) (d, len) = Some (y', m'') \<and> inPieces ofb_XORKeyStream x m' (e, en) d ls = Some (y', m'') \<and>
    mread m'' e len = mread m s len"
proof -
  obtain x where "NewOFB b iv = Some (Some x)" "ofb_rel b x x" using NewOFB_pair [OF assms(1)] by blast
  then show ?thesis using ofb.pieces_pair [OF _ assms(2-7)] unfolding XORKeyStream_byteLoop by blast
qed

lemma ctr_roundtrip:
  assumes "length iv = n" "sum_list ks = len" "sum_list ls = len" "len \<le> dn" "len \<le> en"
    "safe_overlap (d, dn) (s, len)" "safe_overlap (e, en) (d, len)"
  shows "\<exists>x x' m' y' m''. NewCTR b iv = Some x \<and>
    ctr_XORKeyStream x m (d, dn) (s, len) = Some (x', m') \<and> inPieces ctr_XORKeyStream x m (d, dn) s ks = Some (x', m') \<and>
    ctr_XORKeyStream x m' (e, en) (d, len) = Some (y', m'') \<and> inPieces ctr_XORKeyStream x m' (e, en) d ls = Some (y', m'') \<and>
    mread m'' e len = mread m s len"
proof -
  obtain x where "NewCTR b iv = Some x" "ctr_rel b x x" using NewCTR_pair [OF assms(1)] by blast
  then show ?thesis using ctr.pieces_pair [OF _ assms(2-7)] unfolding XORKeyStream_byteLoop by blast
qed

lemma ocfb_roundtrip:
  assumes "length randData = n" "2 \<le> n" "len \<le> dn" "len \<le> en" "safe_overlap (d, dn) (s, len)" "safe_overlap (e, en) (d, len)"
  shows "\<exists>x prefix y x' m' y' m''. NewOCFBEncrypter b randData resync = Some (Some (x, prefix)) \<and>
    NewOCFBDecrypter b prefix resync = Some (Some (y, randData @ drop (n - 2) randData)) \<and>
    ocfbEncrypter_XORKeyStream x m (d, dn) (s, len) = Some (x', m') \<and>
    ocfbDecrypter_XORKeyStream y m' (e, en) (d, len) = Some (y', m'') \<and> mread m'' e len = mread m s len"
proof -
  obtain x prefix where "NewOCFBEncrypter b randData resync = Some (Some (x, prefix))"
      "NewOCFBDecrypter b prefix resync = Some (Some (x, randData @ drop (n - 2) randData))" "ocfb_rel b x x"
    using NewOCFB_pair [OF assms(1,2)] by blast
  then show ?thesis using ocfb.loop_pair [OF _ assms(3-6)]
    unfolding ocfbEncrypter_XORKeyStream_def ocfbDecrypter_XORKeyStream_def by blast
qed

lemma ctr_keystream:
  assumes "length iv = n" "len \<le> dn" "safe_overlap (d, dn) (s, len)"
  shows "\<exists>x x' m'. NewCTR b iv = Some x \<and> ctr_XORKeyStream x m (d, dn) (s, len) = Some (x', m') \<and>
    (\<forall>i < len. m' (d + i) = m (s + i) XOR ctr_key E n iv i)"
proof -
  obtain x where x: "NewCTR b iv = Some x" using NewCTR_pair [OF assms(1)] by blast
  let ?vs = "map (\<lambda>j. mread m s len ! j XOR ctr_key E n iv (0 + j)) [0..<length (mread m s len)]"
  obtain x' where "run ctr_step x (mread m s len) = Some (x', ?vs)"
    using ctr_run_key [OF ctr_inv_New [OF assms(1) x], of "mread m s len"] by blast
  then have "ctr_XORKeyStream x m (d, dn) (s, len) = Some (x', mwrite m d ?vs)"
    using assms(2,3) by (simp add: ctr_XORKeyStream_def byteLoop_run)
  moreover have "\<forall>i < len. mwrite m d ?vs (d + i) = m (s + i) XOR ctr_key E n iv i"
    by (simp add: mwrite_def)
  ultimately show ?thesis using x by blast
qed

end

end
