(* ===== verification/Encoding_Binary.thy ===== *)
theory Encoding_Binary
  imports Go_Bytes
begin

text \<open>
  encoding/binary/binary.go, the two implementations of the interface \<open>ByteOrder\<close>. A reader
  takes the first bytes of a slice and a writer replaces them; on a slice that is too short the
  index expression of the source panics, which is \<open>None\<close>. The conversions of the reflection
  based \<open>Read\<close> and \<open>Write\<close> are not modelled.

  \<open>byte_order\<close> is the contract of the interface: every writer is total on a slice that is long
  enough and leaves its tail, and reader and writer are inverse to each other, so that a slice
  holds exactly one number.
\<close>

section \<open>The interface\<close>

record ByteOrder =
  Uint16 :: "byte list \<Rightarrow> uint16 option"
  Uint32 :: "byte list \<Rightarrow> uint32 option"
  Uint64 :: "byte list \<Rightarrow> uint64 option"
  PutUint16 :: "byte list \<Rightarrow> uint16 \<Rightarrow> byte list option"
  PutUint32 :: "byte list \<Rightarrow> uint32 \<Rightarrow> byte list option"
  PutUint64 :: "byte list \<Rightarrow> uint64 \<Rightarrow> byte list option"

section \<open>Little endian\<close>

fun le_Uint16 :: "byte list \<Rightarrow> uint16 option" where
  "le_Uint16 (b0 # b1 # _) = Some (ucast b0 OR push_bit 8 (ucast b1))"
| "le_Uint16 _ = None"

fun le_PutUint16 :: "byte list \<Rightarrow> uint16 \<Rightarrow> byte list option" where
  "le_PutUint16 (_ # _ # b) v = Some (ucast v # ucast (drop_bit 8 v) # b)"
| "le_PutUint16 _ v = None"

fun le_Uint32 :: "byte list \<Rightarrow> uint32 option" where
  "le_Uint32 (b0 # b1 # b2 # b3 # _) =
     Some (ucast b0 OR push_bit 8 (ucast b1) OR push_bit 16 (ucast b2) OR push_bit 24 (ucast b3))"
| "le_Uint32 _ = None"

fun le_PutUint32 :: "byte list \<Rightarrow> uint32 \<Rightarrow> byte list option" where
  "le_PutUint32 (_ # _ # _ # _ # b) v =
     Some (ucast v # ucast (drop_bit 8 v) # ucast (drop_bit 16 v) # ucast (drop_bit 24 v) # b)"
| "le_PutUint32 _ v = None"

fun le_Uint64 :: "byte list \<Rightarrow> uint64 option" where
  "le_Uint64 (b0 # b1 # b2 # b3 # b4 # b5 # b6 # b7 # _) =
     Some (ucast b0 OR push_bit 8 (ucast b1) OR push_bit 16 (ucast b2) OR push_bit 24 (ucast b3) OR
       push_bit 32 (ucast b4) OR push_bit 40 (ucast b5) OR push_bit 48 (ucast b6) OR push_bit 56 (ucast b7))"
| "le_Uint64 _ = None"

fun le_PutUint64 :: "byte list \<Rightarrow> uint64 \<Rightarrow> byte list option" where
  "le_PutUint64 (_ # _ # _ # _ # _ # _ # _ # _ # b) v =
     Some (ucast v # ucast (drop_bit 8 v) # ucast (drop_bit 16 v) # ucast (drop_bit 24 v) #
       ucast (drop_bit 32 v) # ucast (drop_bit 40 v) # ucast (drop_bit 48 v) # ucast (drop_bit 56 v) # b)"
| "le_PutUint64 _ v = None"

definition LittleEndian :: ByteOrder where
  "LittleEndian = \<lparr>Uint16 = le_Uint16, Uint32 = le_Uint32, Uint64 = le_Uint64,
     PutUint16 = le_PutUint16, PutUint32 = le_PutUint32, PutUint64 = le_PutUint64\<rparr>"

section \<open>Big endian\<close>

fun be_Uint16 :: "byte list \<Rightarrow> uint16 option" where
  "be_Uint16 (b0 # b1 # _) = Some (ucast b1 OR push_bit 8 (ucast b0))"
| "be_Uint16 _ = None"

fun be_PutUint16 :: "byte list \<Rightarrow> uint16 \<Rightarrow> byte list option" where
  "be_PutUint16 (_ # _ # b) v = Some (ucast (drop_bit 8 v) # ucast v # b)"
| "be_PutUint16 _ v = None"

fun be_Uint32 :: "byte list \<Rightarrow> uint32 option" where
  "be_Uint32 (b0 # b1 # b2 # b3 # _) =
     Some (ucast b3 OR push_bit 8 (ucast b2) OR push_bit 16 (ucast b1) OR push_bit 24 (ucast b0))"
| "be_Uint32 _ = None"

fun be_PutUint32 :: "byte list \<Rightarrow> uint32 \<Rightarrow> byte list option" where
  "be_PutUint32 (_ # _ # _ # _ # b) v =
     Some (ucast (drop_bit 24 v) # ucast (drop_bit 16 v) # ucast (drop_bit 8 v) # ucast v # b)"
| "be_PutUint32 _ v = None"

fun be_Uint64 :: "byte list \<Rightarrow> uint64 option" where
  "be_Uint64 (b0 # b1 # b2 # b3 # b4 # b5 # b6 # b7 # _) =
     Some (ucast b7 OR push_bit 8 (ucast b6) OR push_bit 16 (ucast b5) OR push_bit 24 (ucast b4) OR
       push_bit 32 (ucast b3) OR push_bit 40 (ucast b2) OR push_bit 48 (ucast b1) OR push_bit 56 (ucast b0))"
| "be_Uint64 _ = None"

fun be_PutUint64 :: "byte list \<Rightarrow> uint64 \<Rightarrow> byte list option" where
  "be_PutUint64 (_ # _ # _ # _ # _ # _ # _ # _ # b) v =
     Some (ucast (drop_bit 56 v) # ucast (drop_bit 48 v) # ucast (drop_bit 40 v) # ucast (drop_bit 32 v) #
       ucast (drop_bit 24 v) # ucast (drop_bit 16 v) # ucast (drop_bit 8 v) # ucast v # b)"
| "be_PutUint64 _ v = None"

definition BigEndian :: ByteOrder where
  "BigEndian = \<lparr>Uint16 = be_Uint16, Uint32 = be_Uint32, Uint64 = be_Uint64,
     PutUint16 = be_PutUint16, PutUint32 = be_PutUint32, PutUint64 = be_PutUint64\<rparr>"

section \<open>The bytes of a word\<close>

text \<open>
  \<open>byte_of v k\<close> is byte \<open>k\<close> of a word from the low end. A word is determined by its bytes, and
  the byte of a disjunction of shifted bytes is one of them.
\<close>

definition byte_of :: "'a::len word \<Rightarrow> nat \<Rightarrow> byte" where
  "byte_of v k = ucast (drop_bit (8 * k) v)"

lemma bit_byte_of: "bit (byte_of v k) n \<longleftrightarrow> n < 8 \<and> bit v (8 * k + n)"
  by (auto simp: byte_of_def bit_simps dest: bit_imp_le_length)

lemma word_eq_bytesI:
  fixes v w :: "'a::len word"
  assumes "\<And>k. 8 * k < LENGTH('a) \<Longrightarrow> byte_of v k = byte_of w k"
  shows "v = w"
proof (rule bit_word_eqI)
  fix n
  assume "n < LENGTH('a)"
  moreover have "n = 8 * (n div 8) + n mod 8" by simp
  ultimately show "bit v n = bit w n"
    using assms [of "n div 8"] bit_byte_of [of v "n div 8" "n mod 8"] bit_byte_of [of w "n div 8" "n mod 8"] by simp
qed

lemma byte_of_or [simp]: "byte_of (v OR w) k = byte_of v k OR byte_of w k"
  by (rule bit_word_eqI) (auto simp: bit_byte_of bit_simps)

lemma byte_of_shift:
  fixes b :: byte
  assumes "8 * j + 8 \<le> LENGTH('a::len)"
  shows "byte_of (push_bit (8 * j) (ucast b :: 'a word)) k = (if k = j then b else 0)"
proof (rule bit_word_eqI)
  fix n
  assume "n < LENGTH(8)"
  then have n: "n < 8" by simp
  show "bit (byte_of (push_bit (8 * j) (ucast b :: 'a word)) k) n = bit (if k = j then b else 0) n"
  proof (cases "k = j")
    case True
    then show ?thesis using n assms by (auto simp: bit_byte_of bit_simps)
  next
    case False
    then have "8 * k + n < 8 * j \<or> 8 * j + 8 \<le> 8 * k + n" using n by linarith
    then show ?thesis using False n by (auto simp: bit_byte_of bit_simps dest: bit_imp_le_length)
  qed
qed

text \<open>The shifts that occur in the source, as rewriting rules.\<close>

named_theorems byte_simps \<open>words as disjunctions of shifted bytes\<close>

lemma byte_of_fold [byte_simps]:
  "ucast v = byte_of v 0" "byte_of (drop_bit 8 v) 0 = byte_of v 1" "byte_of (drop_bit 16 v) 0 = byte_of v 2"
  "byte_of (drop_bit 24 v) 0 = byte_of v 3" "byte_of (drop_bit 32 v) 0 = byte_of v 4" "byte_of (drop_bit 40 v) 0 = byte_of v 5"
  "byte_of (drop_bit 48 v) 0 = byte_of v 6" "byte_of (drop_bit 56 v) 0 = byte_of v 7"
  by (simp_all add: byte_of_def)

lemma byte_of_shift_0 [byte_simps]: "8 \<le> LENGTH('a::len) \<Longrightarrow> byte_of (ucast b :: 'a word) k = (if k = 0 then b else 0)" for b :: byte
  using byte_of_shift [of 0, where ?'a = 'a] by simp

lemmas byte_of_shifts [byte_simps] =
  byte_of_shift [of 1, simplified] byte_of_shift [of 2, simplified] byte_of_shift [of 3, simplified]
  byte_of_shift [of 4, simplified] byte_of_shift [of 5, simplified] byte_of_shift [of 6, simplified]
  byte_of_shift [of 7, simplified]

lemma uint16_eqI:
  assumes "\<And>k. k \<in> {0, 1} \<Longrightarrow> byte_of v k = byte_of w k"
  shows "v = (w :: uint16)"
proof (rule word_eq_bytesI)
  fix k :: nat
  assume "8 * k < LENGTH(16)"
  then have "k \<in> {0, 1}" by auto
  then show "byte_of v k = byte_of w k" by (rule assms)
qed

lemma uint32_eqI:
  assumes "\<And>k. k \<in> {0, 1, 2, 3} \<Longrightarrow> byte_of v k = byte_of w k"
  shows "v = (w :: uint32)"
proof (rule word_eq_bytesI)
  fix k :: nat
  assume "8 * k < LENGTH(32)"
  then have "k \<in> {0, 1, 2, 3}" by auto
  then show "byte_of v k = byte_of w k" by (rule assms)
qed

lemma uint64_eqI:
  assumes "\<And>k. k \<in> {0, 1, 2, 3, 4, 5, 6, 7} \<Longrightarrow> byte_of v k = byte_of w k"
  shows "v = (w :: uint64)"
proof (rule word_eq_bytesI)
  fix k :: nat
  assume "8 * k < LENGTH(64)"
  then have "k \<in> {0, 1, 2, 3, 4, 5, 6, 7}" by auto
  then show "byte_of v k = byte_of w k" by (rule assms)
qed

section \<open>The contract\<close>

text \<open>
  The laws of a reader \<open>get\<close> and a writer \<open>put\<close> of numbers of \<open>w\<close> bytes: the writer replaces the
  first \<open>w\<close> bytes by the image of the number, the reader inverts it, and every \<open>w\<close> bytes are an image.
\<close>

locale fixed_width =
  fixes w :: nat and get :: "byte list \<Rightarrow> 'a option" and put :: "byte list \<Rightarrow> 'a \<Rightarrow> byte list option"
    and image_of :: "'a \<Rightarrow> byte list"
  assumes put_eq: "put b v = (if w \<le> length b then Some (image_of v @ drop w b) else None)"
    and get_short: "length b < w \<Longrightarrow> get b = None"
    and get_image: "get (image_of v @ c) = Some v"
    and length_image: "length (image_of v) = w"
    and image_onto: "length b = w \<Longrightarrow> \<exists>v. b = image_of v"
begin

lemma get_put: "put b v = Some b' \<Longrightarrow> get b' = Some v \<and> length b' = length b \<and> drop w b' = drop w b"
  by (auto simp: put_eq get_image length_image split: if_splits)

lemma put_get: "get b = Some v \<Longrightarrow> put b v = Some b"
proof -
  assume *: "get b = Some v"
  then have w: "w \<le> length b" using get_short [of b] by (metis not_less option.distinct(1))
  then obtain u where "take w b = image_of u" using image_onto [of "take w b"] by auto
  then have "b = image_of u @ drop w b" by (metis append_take_drop_id)
  then show ?thesis using * w by (metis get_image option.inject put_eq)
qed

lemma put_put: "put b v = Some b' \<Longrightarrow> put b' v' = put b v'"
  by (auto simp: put_eq length_image split: if_splits)

lemma total: "w \<le> length b \<longleftrightarrow> get b \<noteq> None" "w \<le> length b \<longleftrightarrow> put b v \<noteq> None"
proof -
  show "w \<le> length b \<longleftrightarrow> put b v \<noteq> None" by (simp add: put_eq)
  show "w \<le> length b \<longleftrightarrow> get b \<noteq> None"
    by (metis get_short get_put not_less option.distinct(1) put_eq length_image get_image image_onto
      append_take_drop_id length_take min.absorb2)
qed

end

text \<open>Slices of at least a given length, by their first bytes.\<close>

lemma split_2: "2 \<le> length b \<Longrightarrow> \<exists>x0 x1 c. b = x0 # x1 # c"
  by (auto simp: numeral_eq_Suc Suc_le_length_iff)

lemma split_4: "4 \<le> length b \<Longrightarrow> \<exists>x0 x1 x2 x3 c. b = x0 # x1 # x2 # x3 # c"
  by (auto simp: numeral_eq_Suc Suc_le_length_iff)

lemma split_8: "8 \<le> length b \<Longrightarrow> \<exists>x0 x1 x2 x3 x4 x5 x6 x7 c. b = x0 # x1 # x2 # x3 # x4 # x5 # x6 # x7 # c"
  by (auto simp: numeral_eq_Suc Suc_le_length_iff)

lemma short_16: "length b < 2 \<Longrightarrow> le_Uint16 b = None \<and> le_PutUint16 b v = None \<and> be_Uint16 b = None \<and> be_PutUint16 b v = None"
  by (cases b rule: le_Uint16.cases) simp_all

lemma short_32: "length b < 4 \<Longrightarrow> le_Uint32 b = None \<and> le_PutUint32 b v = None \<and> be_Uint32 b = None \<and> be_PutUint32 b v = None"
  by (cases b rule: le_Uint32.cases) simp_all

lemma short_64: "length b < 8 \<Longrightarrow> le_Uint64 b = None \<and> le_PutUint64 b v = None \<and> be_Uint64 b = None \<and> be_PutUint64 b v = None"
  by (cases b rule: le_Uint64.cases) simp_all

interpretation le16: fixed_width 2 le_Uint16 le_PutUint16 "\<lambda>v. [byte_of v 0, byte_of v 1]"
proof
  show "le_PutUint16 b v = (if 2 \<le> length b then Some ([byte_of v 0, byte_of v 1] @ drop 2 b) else None)" for b v
    using split_2 [of b] short_16 [of b v] by (auto simp: byte_simps)
  show "le_Uint16 ([byte_of v 0, byte_of v 1] @ c) = Some v" for v c
    by (simp, rule uint16_eqI) (auto simp: byte_simps)
  show "\<exists>v :: uint16. b = [byte_of v 0, byte_of v 1]" if n: "length b = 2" for b
  proof -
    obtain v where "le_Uint16 b = Some v" using split_2 [of b] n by auto
    then have "b = [byte_of v 0, byte_of v 1]" using split_2 [of b] n by (auto simp: byte_simps)
    then show ?thesis by blast
  qed
qed (use short_16 in auto)

interpretation le32: fixed_width 4 le_Uint32 le_PutUint32 "\<lambda>v. [byte_of v 0, byte_of v 1, byte_of v 2, byte_of v 3]"
proof
  show "le_PutUint32 b v = (if 4 \<le> length b then Some ([byte_of v 0, byte_of v 1, byte_of v 2, byte_of v 3] @ drop 4 b) else None)" for b v
    using split_4 [of b] short_32 [of b v] by (auto simp: byte_simps)
  show "le_Uint32 ([byte_of v 0, byte_of v 1, byte_of v 2, byte_of v 3] @ c) = Some v" for v c
    by (simp, rule uint32_eqI) (auto simp: byte_simps)
  show "\<exists>v :: uint32. b = [byte_of v 0, byte_of v 1, byte_of v 2, byte_of v 3]" if n: "length b = 4" for b
  proof -
    obtain v where "le_Uint32 b = Some v" using split_4 [of b] n by auto
    then have "b = [byte_of v 0, byte_of v 1, byte_of v 2, byte_of v 3]" using split_4 [of b] n by (auto simp: byte_simps)
    then show ?thesis by blast
  qed
qed (use short_32 in auto)

interpretation le64: fixed_width 8 le_Uint64 le_PutUint64 "\<lambda>v. [byte_of v 0, byte_of v 1, byte_of v 2, byte_of v 3, byte_of v 4, byte_of v 5, byte_of v 6, byte_of v 7]"
proof
  show "le_PutUint64 b v = (if 8 \<le> length b then Some ([byte_of v 0, byte_of v 1, byte_of v 2, byte_of v 3, byte_of v 4, byte_of v 5, byte_of v 6, byte_of v 7] @ drop 8 b) else None)" for b v
    using split_8 [of b] short_64 [of b v] by (auto simp: byte_simps)
  show "le_Uint64 ([byte_of v 0, byte_of v 1, byte_of v 2, byte_of v 3, byte_of v 4, byte_of v 5, byte_of v 6, byte_of v 7] @ c) = Some v" for v c
    by (simp, rule uint64_eqI) (auto simp: byte_simps)
  show "\<exists>v :: uint64. b = [byte_of v 0, byte_of v 1, byte_of v 2, byte_of v 3, byte_of v 4, byte_of v 5, byte_of v 6, byte_of v 7]" if n: "length b = 8" for b
  proof -
    obtain v where "le_Uint64 b = Some v" using split_8 [of b] n by auto
    then have "b = [byte_of v 0, byte_of v 1, byte_of v 2, byte_of v 3, byte_of v 4, byte_of v 5, byte_of v 6, byte_of v 7]" using split_8 [of b] n by (auto simp: byte_simps)
    then show ?thesis by blast
  qed
qed (use short_64 in auto)

interpretation be16: fixed_width 2 be_Uint16 be_PutUint16 "\<lambda>v. [byte_of v 1, byte_of v 0]"
proof
  show "be_PutUint16 b v = (if 2 \<le> length b then Some ([byte_of v 1, byte_of v 0] @ drop 2 b) else None)" for b v
    using split_2 [of b] short_16 [of b v] by (auto simp: byte_simps)
  show "be_Uint16 ([byte_of v 1, byte_of v 0] @ c) = Some v" for v c
    by (simp, rule uint16_eqI) (auto simp: byte_simps)
  show "\<exists>v :: uint16. b = [byte_of v 1, byte_of v 0]" if n: "length b = 2" for b
  proof -
    obtain v where "be_Uint16 b = Some v" using split_2 [of b] n by auto
    then have "b = [byte_of v 1, byte_of v 0]" using split_2 [of b] n by (auto simp: byte_simps)
    then show ?thesis by blast
  qed
qed (use short_16 in auto)

interpretation be32: fixed_width 4 be_Uint32 be_PutUint32 "\<lambda>v. [byte_of v 3, byte_of v 2, byte_of v 1, byte_of v 0]"
proof
  show "be_PutUint32 b v = (if 4 \<le> length b then Some ([byte_of v 3, byte_of v 2, byte_of v 1, byte_of v 0] @ drop 4 b) else None)" for b v
    using split_4 [of b] short_32 [of b v] by (auto simp: byte_simps)
  show "be_Uint32 ([byte_of v 3, byte_of v 2, byte_of v 1, byte_of v 0] @ c) = Some v" for v c
    by (simp, rule uint32_eqI) (auto simp: byte_simps)
  show "\<exists>v :: uint32. b = [byte_of v 3, byte_of v 2, byte_of v 1, byte_of v 0]" if n: "length b = 4" for b
  proof -
    obtain v where "be_Uint32 b = Some v" using split_4 [of b] n by auto
    then have "b = [byte_of v 3, byte_of v 2, byte_of v 1, byte_of v 0]" using split_4 [of b] n by (auto simp: byte_simps)
    then show ?thesis by blast
  qed
qed (use short_32 in auto)

interpretation be64: fixed_width 8 be_Uint64 be_PutUint64 "\<lambda>v. [byte_of v 7, byte_of v 6, byte_of v 5, byte_of v 4, byte_of v 3, byte_of v 2, byte_of v 1, byte_of v 0]"
proof
  show "be_PutUint64 b v = (if 8 \<le> length b then Some ([byte_of v 7, byte_of v 6, byte_of v 5, byte_of v 4, byte_of v 3, byte_of v 2, byte_of v 1, byte_of v 0] @ drop 8 b) else None)" for b v
    using split_8 [of b] short_64 [of b v] by (auto simp: byte_simps)
  show "be_Uint64 ([byte_of v 7, byte_of v 6, byte_of v 5, byte_of v 4, byte_of v 3, byte_of v 2, byte_of v 1, byte_of v 0] @ c) = Some v" for v c
    by (simp, rule uint64_eqI) (auto simp: byte_simps)
  show "\<exists>v :: uint64. b = [byte_of v 7, byte_of v 6, byte_of v 5, byte_of v 4, byte_of v 3, byte_of v 2, byte_of v 1, byte_of v 0]" if n: "length b = 8" for b
  proof -
    obtain v where "be_Uint64 b = Some v" using split_8 [of b] n by auto
    then have "b = [byte_of v 7, byte_of v 6, byte_of v 5, byte_of v 4, byte_of v 3, byte_of v 2, byte_of v 1, byte_of v 0]" using split_8 [of b] n by (auto simp: byte_simps)
    then show ?thesis by blast
  qed
qed (use short_64 in auto)

section \<open>Properties\<close>

definition inverse_pair :: "nat \<Rightarrow> (byte list \<Rightarrow> 'a option) \<Rightarrow> (byte list \<Rightarrow> 'a \<Rightarrow> byte list option) \<Rightarrow> bool" where
  "inverse_pair w get put \<longleftrightarrow>
     (\<forall>b v b'. put b v = Some b' \<longrightarrow> get b' = Some v \<and> length b' = length b \<and> drop w b' = drop w b) \<and>
     (\<forall>b v. get b = Some v \<longrightarrow> put b v = Some b) \<and>
     (\<forall>b. get b = None \<longleftrightarrow> length b < w) \<and> (\<forall>b v. put b v = None \<longleftrightarrow> length b < w)"

context fixed_width
begin

lemma inverse: "inverse_pair w get put"
  unfolding inverse_pair_def
proof (intro conjI allI)
  show "get b = None \<longleftrightarrow> length b < w" "put b v = None \<longleftrightarrow> length b < w" for b v
    using total(1) [of b] total(2) [of b v] by (auto simp: not_less [symmetric])
qed (use get_put put_get in blast)+

end

text \<open>
  C14. For both byte orders and every width, what a writer stores in a slice its reader returns, the
  writer keeps the length of the slice and the bytes behind the number, writing back the number a slice
  holds changes nothing, and both panic exactly on a slice that is too short.
\<close>

theorem ByteOrder_inverse:
  assumes "bo = LittleEndian \<or> bo = BigEndian"
  shows "inverse_pair 2 (Uint16 bo) (PutUint16 bo) \<and> inverse_pair 4 (Uint32 bo) (PutUint32 bo) \<and>
    inverse_pair 8 (Uint64 bo) (PutUint64 bo)"
  using assms le16.inverse le32.inverse le64.inverse be16.inverse be32.inverse be64.inverse
  by (auto simp: LittleEndian_def BigEndian_def)

theorem ByteOrder_inverse_witness:
  "Uint32 BigEndian [0x12, 0x34, 0x56, 0x78, 0x9A] = Some 0x12345678 \<and>
   PutUint32 BigEndian [0x12, 0x34, 0x56, 0x78, 0x9A] 0x12345678 = Some [0x12, 0x34, 0x56, 0x78, 0x9A]"
proof -
  have "Uint32 BigEndian [0x12, 0x34, 0x56, 0x78, 0x9A] = Some 0x12345678"
    by (simp add: BigEndian_def)
  moreover have "inverse_pair 4 (Uint32 BigEndian) (PutUint32 BigEndian)"
    using ByteOrder_inverse [of BigEndian] by simp
  ultimately show ?thesis
    unfolding inverse_pair_def by blast
qed

end
