(* ===== verification/Cipher_Words.thy ===== *)
theory Cipher_Words
  imports Cipher_Streams Encoding_Binary
begin

text \<open>
  Block ciphers on two 32-bit words. XTEA, Blowfish and CAST5 read a block of eight bytes as two
  big-endian words, transform them and write two words; \<open>word_cipher\<close> is what the transformations
  have to satisfy for the methods to keep the contract of \<open>Block\<close>.
\<close>

section \<open>Words in a block\<close>

text \<open>The expressions with which the packages read and write a word.\<close>

definition be32 :: "byte \<Rightarrow> byte \<Rightarrow> byte \<Rightarrow> byte \<Rightarrow> uint32" where
  "be32 b0 b1 b2 b3 = push_bit 24 (ucast b0) OR push_bit 16 (ucast b1) OR push_bit 8 (ucast b2) OR ucast b3"

definition put32 :: "uint32 \<Rightarrow> byte list" where
  "put32 v = [ucast (drop_bit 24 v), ucast (drop_bit 16 v), ucast (drop_bit 8 v), ucast v]"

lemma length_put32 [simp]: "length (put32 v) = 4"
  by (simp add: put32_def)

lemma put32_bytes: "put32 v = [byte_of v 3, byte_of v 2, byte_of v 1, byte_of v 0]"
  by (simp add: put32_def byte_simps)

lemma be32_bytes [simp]: "be32 (byte_of v 3) (byte_of v 2) (byte_of v (Suc 0)) (byte_of v 0) = v"
  by (rule uint32_eqI) (auto simp: be32_def byte_simps)

lemma byte_of_be32 [simp]:
  "byte_of (be32 b0 b1 b2 b3) 3 = b0" "byte_of (be32 b0 b1 b2 b3) 2 = b1"
  "byte_of (be32 b0 b1 b2 b3) 1 = b2" "byte_of (be32 b0 b1 b2 b3) (Suc 0) = b2" "byte_of (be32 b0 b1 b2 b3) 0 = b3"
  by (simp_all add: be32_def byte_simps)

section \<open>Transforming a block\<close>

text \<open>On a finite type a left inverse is a right inverse.\<close>

lemma finite_inverse:
  fixes f g :: "'a::finite \<Rightarrow> 'a"
  assumes "\<And>p. g (f p) = p"
  shows "f (g p) = p"
proof -
  have "inj f" using assms by (metis injI)
  then have "surj f" by (simp add: finite_UNIV_inj_surj)
  then obtain q where "p = f q" by (metis surjD)
  then show ?thesis using assms by simp
qed

fun crypt8 :: "(uint32 \<times> uint32 \<Rightarrow> uint32 \<times> uint32) \<Rightarrow> byte list \<Rightarrow> byte list" where
  "crypt8 f [b0, b1, b2, b3, b4, b5, b6, b7] =
     (let (l, r) = f (be32 b0 b1 b2 b3, be32 b4 b5 b6 b7) in put32 l @ put32 r)"
| "crypt8 f _ = []"

lemma length_8: "length x = 8 \<longleftrightarrow> (\<exists>b0 b1 b2 b3 b4 b5 b6 b7. x = [b0, b1, b2, b3, b4, b5, b6, b7])"
  by (auto simp: numeral_eq_Suc length_Suc_conv)

lemma length_crypt8: "length x = 8 \<Longrightarrow> length (crypt8 f x) = 8"
  by (auto simp: length_8 put32_def split: prod.splits)

lemma crypt8_inverse: "(\<And>p. g (f p) = p) \<Longrightarrow> length x = 8 \<Longrightarrow> crypt8 g (crypt8 f x) = x"
proof -
  assume inv: "\<And>p. g (f p) = p" and "length x = 8"
  then obtain b0 b1 b2 b3 b4 b5 b6 b7 where x: "x = [b0, b1, b2, b3, b4, b5, b6, b7]"
    unfolding length_8 by blast
  obtain l r where "f (be32 b0 b1 b2 b3, be32 b4 b5 b6 b7) = (l, r)" by fastforce
  moreover from this have "g (l, r) = (be32 b0 b1 b2 b3, be32 b4 b5 b6 b7)" using inv by metis
  ultimately show "crypt8 g (crypt8 f x) = x" unfolding x by (simp add: put32_bytes)
qed

text \<open>Reading the two words of a block, and writing them; \<open>None\<close> is an index out of range.\<close>

fun loadWords :: "byte list \<Rightarrow> (uint32 \<times> uint32) option" where
  "loadWords (b0 # b1 # b2 # b3 # b4 # b5 # b6 # b7 # _) = Some (be32 b0 b1 b2 b3, be32 b4 b5 b6 b7)"
| "loadWords _ = None"

fun storeWords :: "uint32 \<Rightarrow> uint32 \<Rightarrow> byte list \<Rightarrow> byte list option" where
  "storeWords v0 v1 (_ # _ # _ # _ # _ # _ # _ # _ # dst) = Some (put32 v0 @ put32 v1 @ dst)"
| "storeWords v0 v1 _ = None"

text \<open>Reading, transforming and writing two words is \<open>crypt8\<close> of the transformation.\<close>

lemma loadWords_short: "length src < 8 \<Longrightarrow> loadWords src = None"
  by (cases src rule: loadWords.cases) simp_all

lemma storeWords_short: "length dst < 8 \<Longrightarrow> storeWords v0 v1 dst = None"
  by (cases dst rule: loadWords.cases) simp_all

lemma crypt8_words:
  "do { v \<leftarrow> loadWords src; let (v0, v1) = f v; storeWords v0 v1 dst } =
   (if 8 \<le> length src \<and> 8 \<le> length dst then Some (crypt8 f (take 8 src) @ drop 8 dst) else None)"
proof (cases "8 \<le> length src \<and> 8 \<le> length dst")
  case True
  then show ?thesis using split_8 [of src] split_8 [of dst] by (auto split: prod.splits)
next
  case False
  then show ?thesis
    by (auto simp: not_le loadWords_short storeWords_short split: prod.splits Option.bind_splits)
qed

text \<open>The laws of a cipher on words, and the contract of the block cipher built on it.\<close>

locale word_cipher =
  fixes b :: Block and enc dec :: "uint32 \<times> uint32 \<Rightarrow> uint32 \<times> uint32"
  assumes size: "BlockSize b = 8"
    and Encrypt_words: "Encrypt b dst src = (if 8 \<le> length src \<and> 8 \<le> length dst
      then Some (crypt8 enc (take 8 src) @ drop 8 dst) else None)"
    and Decrypt_words: "Decrypt b dst src = (if 8 \<le> length src \<and> 8 \<le> length dst
      then Some (crypt8 dec (take 8 src) @ drop 8 dst) else None)"
    and dec_enc: "dec (enc p) = p"

sublocale word_cipher \<subseteq> block_contract b "crypt8 enc" "crypt8 dec"
  by unfold_locales (auto simp: size Encrypt_words Decrypt_words length_crypt8 intro!: crypt8_inverse dec_enc finite_inverse [of dec enc, OF dec_enc])

context block_contract
begin

lemma blocks_inverse:
  assumes "n \<le> length src" "n \<le> length dst" "n \<le> length dst'"
  shows "\<exists>c p. Encrypt b dst src = Some c \<and> Decrypt b dst' c = Some (take n src @ drop n dst') \<and>
    Decrypt b dst src = Some p \<and> Encrypt b dst' p = Some (take n src @ drop n dst') \<and>
    drop n c = drop n dst \<and> drop n p = drop n dst"
proof -
  have "length (take n src) = n" using assms by simp
  then show ?thesis using assms length_E length_D D_E E_D by (auto simp: Encrypt_eq Decrypt_eq)
qed

end

section \<open>Rounds\<close>

text \<open>Running the inverses of the rounds in the opposite order undoes the rounds.\<close>

lemma fold_rev_inverse: "(\<And>i s. g i (f i s) = s) \<Longrightarrow> fold g (rev is) (fold f is s) = s"
  by (induction "is" arbitrary: s) simp_all

lemma word_xor_cancel [simp]:
  "(x XOR y) XOR y = x" "(y XOR x) XOR y = x" "y XOR (y XOR x) = x" "y XOR (x XOR y) = x" for x y :: "'a::len word"
  by (rule bit_word_eqI; auto simp: bit_simps)+

text \<open>The indices \<open>0, 2, \<dots>\<close> below \<open>n\<close> of a loop that does two rounds at a time.\<close>

definition evens :: "nat \<Rightarrow> nat list" where
  "evens n = map (\<lambda>k. 2 * k) [0..<n div 2]"

lemma evens_less: "i \<in> set (evens n) \<Longrightarrow> i + 1 < n"
  by (auto simp: evens_def)

text \<open>The error of a key of the wrong length.\<close>

datatype KeySizeError = KeySizeError nat

end
