(* ===== verification/Crypto_Xtea.thy ===== *)
theory Crypto_Xtea
  imports Cipher_Words
begin

text \<open>
  crypto/xtea: block.go and cipher.go. The table of a \<open>Cipher\<close> is an array of 64 words, here a
  list; \<open>initCipher\<close> fills it from a list of 64 zeros, so every index of the source is in range.
\<close>

section \<open>block.go\<close>

definition xtea_numRounds :: nat where
  "xtea_numRounds = 64"

fun blockToUint32 :: "byte list \<Rightarrow> (uint32 \<times> uint32) option" where
  "blockToUint32 (b0 # b1 # b2 # b3 # b4 # b5 # b6 # b7 # _) = Some (be32 b0 b1 b2 b3, be32 b4 b5 b6 b7)"
| "blockToUint32 _ = None"

fun uint32ToBlock :: "uint32 \<Rightarrow> uint32 \<Rightarrow> byte list \<Rightarrow> byte list option" where
  "uint32ToBlock v0 v1 (_ # _ # _ # _ # _ # _ # _ # _ # dst) = Some (put32 v0 @ put32 v1 @ dst)"
| "uint32ToBlock v0 v1 _ = None"

text \<open>The two rounds of one iteration, starting with the table entry \<open>i\<close>.\<close>

definition xtea_encRound :: "uint32 list \<Rightarrow> nat \<Rightarrow> uint32 \<times> uint32 \<Rightarrow> uint32 \<times> uint32" where
  "xtea_encRound table i = (\<lambda>(v0, v1).
     let v0 = v0 + (((push_bit 4 v1 XOR drop_bit 5 v1) + v1) XOR table ! i);
         v1 = v1 + (((push_bit 4 v0 XOR drop_bit 5 v0) + v0) XOR table ! (i + 1))
     in (v0, v1))"

definition xtea_decRound :: "uint32 list \<Rightarrow> nat \<Rightarrow> uint32 \<times> uint32 \<Rightarrow> uint32 \<times> uint32" where
  "xtea_decRound table i = (\<lambda>(v0, v1).
     let v1 = v1 - (((push_bit 4 v0 XOR drop_bit 5 v0) + v0) XOR table ! (i + 1));
         v0 = v0 - (((push_bit 4 v1 XOR drop_bit 5 v1) + v1) XOR table ! i)
     in (v0, v1))"

definition xtea_encryptBlock :: "uint32 list \<Rightarrow> byte list \<Rightarrow> byte list \<Rightarrow> byte list option" where
  "xtea_encryptBlock table dst src = do {
     v \<leftarrow> blockToUint32 src;
     let (v0, v1) = fold (xtea_encRound table) (evens xtea_numRounds) v;
     uint32ToBlock v0 v1 dst }"

definition xtea_decryptBlock :: "uint32 list \<Rightarrow> byte list \<Rightarrow> byte list \<Rightarrow> byte list option" where
  "xtea_decryptBlock table dst src = do {
     v \<leftarrow> blockToUint32 src;
     let (v0, v1) = fold (xtea_decRound table) (rev (evens xtea_numRounds)) v;
     uint32ToBlock v0 v1 dst }"

section \<open>cipher.go\<close>

record xtea_Cipher =
  xtea_table :: "uint32 list"

text \<open>\<open>initCipher\<close>: the four key words, and the table with the running sum.\<close>

definition xtea_keyWords :: "byte list \<Rightarrow> uint32 list" where
  "xtea_keyWords key = map (\<lambda>i. let j = 4 * i in be32 (key ! j) (key ! (j + 1)) (key ! (j + 2)) (key ! (j + 3))) [0..<4]"

definition xtea_delta :: uint32 where
  "xtea_delta = 0x9E3779B9"

definition xtea_tableStep :: "uint32 list \<Rightarrow> nat \<Rightarrow> uint32 \<times> uint32 list \<Rightarrow> uint32 \<times> uint32 list" where
  "xtea_tableStep k i = (\<lambda>(sum, table).
     let table = table[i := sum + k ! unat (sum AND 3)];
         sum = sum + xtea_delta;
         table = table[i + 1 := sum + k ! unat (drop_bit 11 sum AND 3)]
     in (sum, table))"

definition xtea_initCipher :: "xtea_Cipher \<Rightarrow> byte list \<Rightarrow> xtea_Cipher" where
  "xtea_initCipher c key =
     c\<lparr>xtea_table := snd (fold (xtea_tableStep (xtea_keyWords key)) (evens xtea_numRounds) (0, xtea_table c))\<rparr>"

definition xtea_NewCipher :: "byte list \<Rightarrow> KeySizeError + xtea_Cipher" where
  "xtea_NewCipher key =
     (if length key = 16 then Inr (xtea_initCipher \<lparr>xtea_table = replicate 64 0\<rparr> key)
      else Inl (KeySizeError (length key)))"

definition xtea_Reset :: "xtea_Cipher \<Rightarrow> xtea_Cipher" where
  "xtea_Reset c = c\<lparr>xtea_table := fold (\<lambda>i t. t[i := 0]) [0..<length (xtea_table c)] (xtea_table c)\<rparr>"

definition xtea_Block :: "xtea_Cipher \<Rightarrow> Block" where
  "xtea_Block c = \<lparr>BlockSize = 8, Encrypt = xtea_encryptBlock (xtea_table c), Decrypt = xtea_decryptBlock (xtea_table c)\<rparr>"

section \<open>Correctness\<close>

lemma xtea_rounds:
  "xtea_decRound t i (xtea_encRound t i v) = v"
  by (cases v) (simp add: xtea_encRound_def xtea_decRound_def Let_def)

definition xtea_enc :: "xtea_Cipher \<Rightarrow> uint32 \<times> uint32 \<Rightarrow> uint32 \<times> uint32" where
  "xtea_enc c = fold (xtea_encRound (xtea_table c)) (evens xtea_numRounds)"

definition xtea_dec :: "xtea_Cipher \<Rightarrow> uint32 \<times> uint32 \<Rightarrow> uint32 \<times> uint32" where
  "xtea_dec c = fold (xtea_decRound (xtea_table c)) (rev (evens xtea_numRounds))"

lemma xtea_words: "blockToUint32 src = loadWords src" "uint32ToBlock v0 v1 dst = storeWords v0 v1 dst"
  by (cases src rule: blockToUint32.cases; simp) (cases dst rule: blockToUint32.cases; simp)

interpretation xtea: word_cipher "xtea_Block c" "xtea_enc c" "xtea_dec c" for c
proof
  show "xtea_dec c (xtea_enc c p) = p" for p
    unfolding xtea_dec_def xtea_enc_def by (rule fold_rev_inverse) (rule xtea_rounds)
  show "Encrypt (xtea_Block c) dst src = (if 8 \<le> length src \<and> 8 \<le> length dst
      then Some (crypt8 (xtea_enc c) (take 8 src) @ drop 8 dst) else None)" for dst src
    using crypt8_words [of src "xtea_enc c" dst] by (simp add: xtea_Block_def xtea_encryptBlock_def xtea_enc_def xtea_words)
  show "Decrypt (xtea_Block c) dst src = (if 8 \<le> length src \<and> 8 \<le> length dst
      then Some (crypt8 (xtea_dec c) (take 8 src) @ drop 8 dst) else None)" for dst src
    using crypt8_words [of src "xtea_dec c" dst] by (simp add: xtea_Block_def xtea_decryptBlock_def xtea_dec_def xtea_words)
qed (simp add: xtea_Block_def)

lemma length_xtea_table: "length (snd (fold (xtea_tableStep k) is s)) = length (snd s)"
  by (induction "is" arbitrary: s) (auto simp: xtea_tableStep_def Let_def split: prod.splits)

lemma xtea_table_64: "xtea_NewCipher key = Inr c \<Longrightarrow> length (xtea_table c) = 64"
  by (auto simp: xtea_NewCipher_def xtea_initCipher_def length_xtea_table split: if_splits)

lemma xtea_Reset_zero: "xtea_table (xtea_Reset c) = replicate (length (xtea_table c)) 0"
proof -
  have "n \<le> length t \<Longrightarrow> fold (\<lambda>i t. t[i := 0]) [0..<n] t = replicate n 0 @ drop n t" for n and t :: "uint32 list"
    by (induction n) (auto simp: list_update_append Cons_nth_drop_Suc [symmetric] replicate_append_same)
  then show ?thesis by (simp add: xtea_Reset_def)
qed

section \<open>Properties\<close>

text \<open>
  Every key of 16 bytes, and no other, gives a cipher with a table of 64 words, and its methods
  are inverse to each other: decrypting what \<open>Encrypt\<close> wrote, or encrypting what \<open>Decrypt\<close> wrote, gives
  back the block of the source, and neither touches the bytes of the destination behind the block.
\<close>

lemma xtea_inverse:
  assumes "xtea_NewCipher key = Inr c" "8 \<le> length src" "8 \<le> length dst" "8 \<le> length dst'"
  shows "length key = 16 \<and> length (xtea_table c) = 64 \<and>
    (\<exists>e d. Encrypt (xtea_Block c) dst src = Some e \<and> Decrypt (xtea_Block c) dst' e = Some (take 8 src @ drop 8 dst') \<and>
      Decrypt (xtea_Block c) dst src = Some d \<and> Encrypt (xtea_Block c) dst' d = Some (take 8 src @ drop 8 dst') \<and>
      drop 8 e = drop 8 dst \<and> drop 8 d = drop 8 dst)"
proof -
  have "length key = 16" using assms(1) by (simp add: xtea_NewCipher_def split: if_splits)
  then show ?thesis
    using xtea_table_64 [OF assms(1)] xtea.blocks_inverse [of c src dst dst'] assms(2-4) by (simp add: xtea.size)
qed

end
