(* ===== verification/Crypto_Blowfish.thy ===== *)
theory Crypto_Blowfish
  imports Blowfish_Const Cipher_Words
begin

text \<open>
  crypto/blowfish: block.go and cipher.go. The arrays of a \<open>Cipher\<close> are lists of 18 and 256 words;
  an index is a byte or a loop counter below 18, so that every access of the source is in range.
\<close>

section \<open>block.go\<close>

record bf_Cipher =
  bf_p :: "uint32 list"
  bf_s0 :: "uint32 list"
  bf_s1 :: "uint32 list"
  bf_s2 :: "uint32 list"
  bf_s3 :: "uint32 list"

text \<open>The expression that every round of the source repeats.\<close>

definition bf_F :: "bf_Cipher \<Rightarrow> uint32 \<Rightarrow> uint32" where
  "bf_F c x =
     ((bf_s0 c ! unat (ucast (drop_bit 24 x) :: byte) + bf_s1 c ! unat (ucast (drop_bit 16 x) :: byte)) XOR
       bf_s2 c ! unat (ucast (drop_bit 8 x) :: byte)) + bf_s3 c ! unat (ucast x :: byte)"

definition bf_encryptBlock :: "uint32 \<Rightarrow> uint32 \<Rightarrow> bf_Cipher \<Rightarrow> uint32 \<times> uint32" where
  "bf_encryptBlock l r c =
    (let xl = l; xr = r;
         xl = xl XOR bf_p c ! 0;
         xr = xr XOR (bf_F c xl XOR bf_p c ! 1);
         xl = xl XOR (bf_F c xr XOR bf_p c ! 2);
         xr = xr XOR (bf_F c xl XOR bf_p c ! 3);
         xl = xl XOR (bf_F c xr XOR bf_p c ! 4);
         xr = xr XOR (bf_F c xl XOR bf_p c ! 5);
         xl = xl XOR (bf_F c xr XOR bf_p c ! 6);
         xr = xr XOR (bf_F c xl XOR bf_p c ! 7);
         xl = xl XOR (bf_F c xr XOR bf_p c ! 8);
         xr = xr XOR (bf_F c xl XOR bf_p c ! 9);
         xl = xl XOR (bf_F c xr XOR bf_p c ! 10);
         xr = xr XOR (bf_F c xl XOR bf_p c ! 11);
         xl = xl XOR (bf_F c xr XOR bf_p c ! 12);
         xr = xr XOR (bf_F c xl XOR bf_p c ! 13);
         xl = xl XOR (bf_F c xr XOR bf_p c ! 14);
         xr = xr XOR (bf_F c xl XOR bf_p c ! 15);
         xl = xl XOR (bf_F c xr XOR bf_p c ! 16);
         xr = xr XOR bf_p c ! 17
     in (xr, xl))"

definition bf_decryptBlock :: "uint32 \<Rightarrow> uint32 \<Rightarrow> bf_Cipher \<Rightarrow> uint32 \<times> uint32" where
  "bf_decryptBlock l r c =
    (let xl = l; xr = r;
         xl = xl XOR bf_p c ! 17;
         xr = xr XOR (bf_F c xl XOR bf_p c ! 16);
         xl = xl XOR (bf_F c xr XOR bf_p c ! 15);
         xr = xr XOR (bf_F c xl XOR bf_p c ! 14);
         xl = xl XOR (bf_F c xr XOR bf_p c ! 13);
         xr = xr XOR (bf_F c xl XOR bf_p c ! 12);
         xl = xl XOR (bf_F c xr XOR bf_p c ! 11);
         xr = xr XOR (bf_F c xl XOR bf_p c ! 10);
         xl = xl XOR (bf_F c xr XOR bf_p c ! 9);
         xr = xr XOR (bf_F c xl XOR bf_p c ! 8);
         xl = xl XOR (bf_F c xr XOR bf_p c ! 7);
         xr = xr XOR (bf_F c xl XOR bf_p c ! 6);
         xl = xl XOR (bf_F c xr XOR bf_p c ! 5);
         xr = xr XOR (bf_F c xl XOR bf_p c ! 4);
         xl = xl XOR (bf_F c xr XOR bf_p c ! 3);
         xr = xr XOR (bf_F c xl XOR bf_p c ! 2);
         xl = xl XOR (bf_F c xr XOR bf_p c ! 1);
         xr = xr XOR bf_p c ! 0
     in (xr, xl))"

text \<open>
  \<open>expandKey\<close>: the key is read cyclically, four bytes for each word of \<open>p\<close>; then the five arrays are
  overwritten in their order by a chain of encryptions under the arrays as they are at that point.
\<close>

definition bf_keyByte :: "byte list \<Rightarrow> uint32 \<times> nat \<Rightarrow> uint32 \<times> nat" where
  "bf_keyByte key = (\<lambda>(d, j).
     let d = push_bit 8 d OR (ucast (key ! j) AND 0x000000FF); j = j + 1
     in (d, if j \<ge> length key then 0 else j))"

definition bf_keyStep :: "byte list \<Rightarrow> nat \<Rightarrow> bf_Cipher \<times> nat \<Rightarrow> bf_Cipher \<times> nat" where
  "bf_keyStep key i = (\<lambda>(c, j).
     let (d, j) = (bf_keyByte key ^^ 4) (0, j)
     in (c\<lparr>bf_p := (bf_p c)[i := bf_p c ! i XOR d]\<rparr>, j))"

definition bf_chain :: "(nat \<Rightarrow> uint32 \<Rightarrow> uint32 \<Rightarrow> bf_Cipher \<Rightarrow> bf_Cipher) \<Rightarrow> nat \<Rightarrow> uint32 \<times> uint32 \<times> bf_Cipher \<Rightarrow> uint32 \<times> uint32 \<times> bf_Cipher" where
  "bf_chain store i = (\<lambda>(l, r, c). let (l, r) = bf_encryptBlock l r c in (l, r, store i l r c))"

definition bf_expandKey :: "byte list \<Rightarrow> bf_Cipher" where
  "bf_expandKey key =
    (let c = \<lparr>bf_p = blowfish_p, bf_s0 = blowfish_s0, bf_s1 = blowfish_s1, bf_s2 = blowfish_s2, bf_s3 = blowfish_s3\<rparr>;
         (c, j) = fold (bf_keyStep key) [0..<18] (c, 0);
         s = fold (bf_chain (\<lambda>i l r c. c\<lparr>bf_p := (bf_p c)[i := l, i + 1 := r]\<rparr>)) (evens 18) (0, 0, c);
         s = fold (bf_chain (\<lambda>i l r c. c\<lparr>bf_s0 := (bf_s0 c)[i := l, i + 1 := r]\<rparr>)) (evens 256) s;
         s = fold (bf_chain (\<lambda>i l r c. c\<lparr>bf_s1 := (bf_s1 c)[i := l, i + 1 := r]\<rparr>)) (evens 256) s;
         s = fold (bf_chain (\<lambda>i l r c. c\<lparr>bf_s2 := (bf_s2 c)[i := l, i + 1 := r]\<rparr>)) (evens 256) s;
         s = fold (bf_chain (\<lambda>i l r c. c\<lparr>bf_s3 := (bf_s3 c)[i := l, i + 1 := r]\<rparr>)) (evens 256) s
     in snd (snd s))"

definition bf_zero :: "uint32 list \<Rightarrow> uint32 list" where
  "bf_zero x = fold (\<lambda>i x. x[i := 0]) [0..<length x] x"

section \<open>cipher.go\<close>

definition bf_NewCipher :: "byte list \<Rightarrow> KeySizeError + bf_Cipher" where
  "bf_NewCipher key =
     (let k = length key in if k < 4 \<or> k > 56 then Inl (KeySizeError k) else Inr (bf_expandKey key))"

definition bf_Encrypt :: "bf_Cipher \<Rightarrow> byte list \<Rightarrow> byte list \<Rightarrow> byte list option" where
  "bf_Encrypt c dst src = do {
     (l, r) \<leftarrow> loadWords src;
     let (l, r) = bf_encryptBlock l r c;
     storeWords l r dst }"

definition bf_Decrypt :: "bf_Cipher \<Rightarrow> byte list \<Rightarrow> byte list \<Rightarrow> byte list option" where
  "bf_Decrypt c dst src = do {
     (l, r) \<leftarrow> loadWords src;
     let (l, r) = bf_decryptBlock l r c;
     storeWords l r dst }"

definition bf_Reset :: "bf_Cipher \<Rightarrow> bf_Cipher" where
  "bf_Reset c = \<lparr>bf_p = bf_zero (bf_p c), bf_s0 = bf_zero (bf_s0 c), bf_s1 = bf_zero (bf_s1 c),
     bf_s2 = bf_zero (bf_s2 c), bf_s3 = bf_zero (bf_s3 c)\<rparr>"

definition bf_Block :: "bf_Cipher \<Rightarrow> Block" where
  "bf_Block c = \<lparr>BlockSize = 8, Encrypt = bf_Encrypt c, Decrypt = bf_Decrypt c\<rparr>"

section \<open>Correctness\<close>

text \<open>
  The successive values of the two halves under round keys \<open>k\<close>: each is the value before the last,
  masked with the last one. Read backwards, the same equation gives the values of the inverse.
\<close>

fun bf_seq :: "(uint32 \<Rightarrow> uint32) \<Rightarrow> (nat \<Rightarrow> uint32) \<Rightarrow> uint32 \<Rightarrow> uint32 \<Rightarrow> nat \<Rightarrow> uint32" where
  "bf_seq F k l r 0 = r"
| "bf_seq F k l r (Suc 0) = l XOR k 0"
| "bf_seq F k l r (Suc (Suc i)) = bf_seq F k l r i XOR (F (bf_seq F k l r (Suc i)) XOR k (Suc i))"

lemma bf_seq_back: "bf_seq F k l r (Suc (Suc i)) XOR (F (bf_seq F k l r (Suc i)) XOR k (Suc i)) = bf_seq F k l r i"
  by simp

lemma bf_seq_steps:
  "bf_seq F k l r 0 XOR (F (bf_seq F k l r 1) XOR k 1) = bf_seq F k l r 2"
  "bf_seq F k l r 1 XOR (F (bf_seq F k l r 2) XOR k 2) = bf_seq F k l r 3"
  "bf_seq F k l r 2 XOR (F (bf_seq F k l r 3) XOR k 3) = bf_seq F k l r 4"
  "bf_seq F k l r 3 XOR (F (bf_seq F k l r 4) XOR k 4) = bf_seq F k l r 5"
  "bf_seq F k l r 4 XOR (F (bf_seq F k l r 5) XOR k 5) = bf_seq F k l r 6"
  "bf_seq F k l r 5 XOR (F (bf_seq F k l r 6) XOR k 6) = bf_seq F k l r 7"
  "bf_seq F k l r 6 XOR (F (bf_seq F k l r 7) XOR k 7) = bf_seq F k l r 8"
  "bf_seq F k l r 7 XOR (F (bf_seq F k l r 8) XOR k 8) = bf_seq F k l r 9"
  "bf_seq F k l r 8 XOR (F (bf_seq F k l r 9) XOR k 9) = bf_seq F k l r 10"
  "bf_seq F k l r 9 XOR (F (bf_seq F k l r 10) XOR k 10) = bf_seq F k l r 11"
  "bf_seq F k l r 10 XOR (F (bf_seq F k l r 11) XOR k 11) = bf_seq F k l r 12"
  "bf_seq F k l r 11 XOR (F (bf_seq F k l r 12) XOR k 12) = bf_seq F k l r 13"
  "bf_seq F k l r 12 XOR (F (bf_seq F k l r 13) XOR k 13) = bf_seq F k l r 14"
  "bf_seq F k l r 13 XOR (F (bf_seq F k l r 14) XOR k 14) = bf_seq F k l r 15"
  "bf_seq F k l r 14 XOR (F (bf_seq F k l r 15) XOR k 15) = bf_seq F k l r 16"
  "bf_seq F k l r 15 XOR (F (bf_seq F k l r 16) XOR k 16) = bf_seq F k l r 17"
  by (simp_all add: numeral_eq_Suc)

lemma bf_seq_steps_back:
  "bf_seq F k l r 2 XOR (F (bf_seq F k l r 1) XOR k 1) = bf_seq F k l r 0"
  "bf_seq F k l r 3 XOR (F (bf_seq F k l r 2) XOR k 2) = bf_seq F k l r 1"
  "bf_seq F k l r 4 XOR (F (bf_seq F k l r 3) XOR k 3) = bf_seq F k l r 2"
  "bf_seq F k l r 5 XOR (F (bf_seq F k l r 4) XOR k 4) = bf_seq F k l r 3"
  "bf_seq F k l r 6 XOR (F (bf_seq F k l r 5) XOR k 5) = bf_seq F k l r 4"
  "bf_seq F k l r 7 XOR (F (bf_seq F k l r 6) XOR k 6) = bf_seq F k l r 5"
  "bf_seq F k l r 8 XOR (F (bf_seq F k l r 7) XOR k 7) = bf_seq F k l r 6"
  "bf_seq F k l r 9 XOR (F (bf_seq F k l r 8) XOR k 8) = bf_seq F k l r 7"
  "bf_seq F k l r 10 XOR (F (bf_seq F k l r 9) XOR k 9) = bf_seq F k l r 8"
  "bf_seq F k l r 11 XOR (F (bf_seq F k l r 10) XOR k 10) = bf_seq F k l r 9"
  "bf_seq F k l r 12 XOR (F (bf_seq F k l r 11) XOR k 11) = bf_seq F k l r 10"
  "bf_seq F k l r 13 XOR (F (bf_seq F k l r 12) XOR k 12) = bf_seq F k l r 11"
  "bf_seq F k l r 14 XOR (F (bf_seq F k l r 13) XOR k 13) = bf_seq F k l r 12"
  "bf_seq F k l r 15 XOR (F (bf_seq F k l r 14) XOR k 14) = bf_seq F k l r 13"
  "bf_seq F k l r 16 XOR (F (bf_seq F k l r 15) XOR k 15) = bf_seq F k l r 14"
  "bf_seq F k l r 17 XOR (F (bf_seq F k l r 16) XOR k 16) = bf_seq F k l r 15"
  by (simp_all add: numeral_eq_Suc)

lemma bf_encryptBlock_seq:
  "bf_encryptBlock l r c =
     (bf_seq (bf_F c) (\<lambda>i. bf_p c ! i) l r 16 XOR bf_p c ! 17, bf_seq (bf_F c) (\<lambda>i. bf_p c ! i) l r 17)"
proof -
  let ?z = "bf_seq (bf_F c) (\<lambda>i. bf_p c ! i) l r"
  have z: "r = ?z 0" "l XOR bf_p c ! 0 = ?z 1" by simp_all
  show ?thesis
    unfolding bf_encryptBlock_def
    by (subst z(1)) (simp only: Let_def z(2) bf_seq_steps [where k = "\<lambda>i. bf_p c ! i"] cong: let_weak_cong)
qed

lemma bf_decrypt_encrypt:
  assumes "bf_encryptBlock l r c = (l', r')"
  shows "bf_decryptBlock l' r' c = (l, r)"
proof -
  let ?z = "bf_seq (bf_F c) (\<lambda>i. bf_p c ! i) l r"
  have "l' XOR bf_p c ! 17 = ?z 16" "r' = ?z 17" "?z 1 XOR bf_p c ! 0 = l" "?z 0 = r"
    using assms by (auto simp: bf_encryptBlock_seq)
  then show ?thesis
    unfolding bf_decryptBlock_def
    by (simp only: Let_def bf_seq_steps_back [where k = "\<lambda>i. bf_p c ! i"] cong: let_weak_cong)
qed

interpretation blowfish: word_cipher "bf_Block c" "\<lambda>(l, r). bf_encryptBlock l r c" "\<lambda>(l, r). bf_decryptBlock l r c" for c
proof
  show "(case case p of (l, r) \<Rightarrow> bf_encryptBlock l r c of (l, r) \<Rightarrow> bf_decryptBlock l r c) = p" for p
    by (auto simp: bf_decrypt_encrypt split: prod.splits)
  show "Encrypt (bf_Block c) dst src = (if 8 \<le> length src \<and> 8 \<le> length dst
      then Some (crypt8 (\<lambda>(l, r). bf_encryptBlock l r c) (take 8 src) @ drop 8 dst) else None)" for dst src
    unfolding crypt8_words [symmetric] by (auto simp: bf_Block_def bf_Encrypt_def split: Option.bind_splits)
  show "Decrypt (bf_Block c) dst src = (if 8 \<le> length src \<and> 8 \<le> length dst
      then Some (crypt8 (\<lambda>(l, r). bf_decryptBlock l r c) (take 8 src) @ drop 8 dst) else None)" for dst src
    unfolding crypt8_words [symmetric] by (auto simp: bf_Block_def bf_Decrypt_def split: Option.bind_splits)
qed (simp add: bf_Block_def)

section \<open>The shape of a cipher\<close>

definition bf_ok :: "bf_Cipher \<Rightarrow> bool" where
  "bf_ok c \<longleftrightarrow> length (bf_p c) = 18 \<and> length (bf_s0 c) = 256 \<and> length (bf_s1 c) = 256 \<and>
     length (bf_s2 c) = 256 \<and> length (bf_s3 c) = 256"

lemma bf_keyStep_ok: "bf_ok c \<Longrightarrow> bf_ok (fst (fold (bf_keyStep key) is (c, j)))"
proof (induction "is" arbitrary: c j)
  case (Cons i "is")
  obtain c' j' where "bf_keyStep key i (c, j) = (c', j')" by fastforce
  moreover from this have "bf_ok c'" using Cons.prems by (auto simp: bf_keyStep_def bf_ok_def Let_def split: prod.splits)
  ultimately show ?case using Cons.IH by simp
qed simp

lemma bf_chain_ok:
  assumes "\<And>i l r c. bf_ok c \<Longrightarrow> bf_ok (store i l r c)"
  shows "bf_ok (snd (snd s)) \<Longrightarrow> bf_ok (snd (snd (fold (bf_chain store) is s)))"
proof (induction "is" arbitrary: s)
  case (Cons i "is")
  then have "bf_ok (snd (snd (bf_chain store i s)))" by (auto simp: bf_chain_def assms split: prod.splits)
  then show ?case using Cons.IH by simp
qed simp

lemma bf_expandKey_ok: "bf_ok (bf_expandKey key)"
proof -
  let ?c = "\<lparr>bf_p = blowfish_p, bf_s0 = blowfish_s0, bf_s1 = blowfish_s1, bf_s2 = blowfish_s2, bf_s3 = blowfish_s3\<rparr>"
  obtain c j where k: "fold (bf_keyStep key) [0..<18] (?c, 0) = (c, j)" by fastforce
  have "bf_ok c"
    using bf_keyStep_ok [of ?c key "[0..<18]" 0] k by (simp add: bf_ok_def length_blowfish_tables)
  then show ?thesis
    unfolding bf_expandKey_def Let_def k by (simp only: prod.case, intro bf_chain_ok) (auto simp: bf_ok_def)
qed

text \<open>
  The documented meaning of the key loop: word \<open>i\<close> of the array is masked with four successive
  bytes of the key repeated for ever.
\<close>

lemma bf_keyByte_eq:
  "j < length key \<Longrightarrow> bf_keyByte key (d, j) = (push_bit 8 d OR ucast (key ! j), (j + 1) mod length key)"
proof -
  assume "j < length key"
  moreover have "ucast b AND 0xFF = (ucast b :: uint32)" for b :: byte
  proof -
    have "take_bit 8 (ucast b :: uint32) = ucast b"
      by (rule bit_word_eqI) (auto simp: bit_simps dest: bit_imp_le_length)
    then show ?thesis unfolding take_bit_eq_mask by (simp add: mask_eq_exp_minus_1)
  qed
  ultimately show ?thesis by (auto simp: bf_keyByte_def mod_Suc)
qed

lemma bf_keyWord_eq:
  assumes "j < length key"
  shows "(bf_keyByte key ^^ 4) (0, j) =
    (be32 (key ! j) (key ! ((j + 1) mod length key)) (key ! ((j + 2) mod length key)) (key ! ((j + 3) mod length key)),
     (j + 4) mod length key)"
proof -
  have m: "k mod length key < length key" for k using assms by (intro mod_less_divisor) linarith
  show ?thesis
    using assms by (simp add: numeral_eq_Suc bf_keyByte_eq m mod_Suc_eq) (simp add: be32_def numeral_eq_Suc or.assoc)
qed

definition bf_keyMask :: "byte list \<Rightarrow> nat \<Rightarrow> uint32" where
  "bf_keyMask key i = (let b = (\<lambda>k. key ! ((4 * i + k) mod length key)) in be32 (b 0) (b 1) (b 2) (b 3))"

lemma bf_keyLoop:
  assumes "0 < length key" "m \<le> length (bf_p c)"
  shows "fold (bf_keyStep key) [0..<m] (c, 0) =
    (c\<lparr>bf_p := map (\<lambda>i. bf_p c ! i XOR bf_keyMask key i) [0..<m] @ drop m (bf_p c)\<rparr>, 4 * m mod length key)"
  using assms(2)
proof (induction m)
  case (Suc m)
  have "4 * m mod length key < length key" using assms(1) by simp
  from bf_keyWord_eq [OF this] have "(bf_keyByte key ^^ 4) (0, 4 * m mod length key) = (bf_keyMask key m, 4 * Suc m mod length key)"
    by (simp add: bf_keyMask_def Let_def mod_simps add.commute)
  then show ?case using Suc
    by (simp add: bf_keyStep_def list_update_append nth_append Cons_nth_drop_Suc [symmetric])
qed simp

section \<open>Properties\<close>

text \<open>
  Every key of 4 to 56 bytes, and no other, gives a cipher, whose arrays have 18 and 256 words.
  Its methods are inverse to each other: decrypting what \<open>Encrypt\<close> wrote, or encrypting what
  \<open>Decrypt\<close> wrote, gives back the block of the source, and neither touches the bytes of the destination
  behind the block.
\<close>

lemma blowfish_inverse:
  assumes "bf_NewCipher key = Inr c" "8 \<le> length src" "8 \<le> length dst" "8 \<le> length dst'"
  shows "4 \<le> length key \<and> length key \<le> 56 \<and> bf_ok c \<and>
    (\<exists>e d. Encrypt (bf_Block c) dst src = Some e \<and> Decrypt (bf_Block c) dst' e = Some (take 8 src @ drop 8 dst') \<and>
      Decrypt (bf_Block c) dst src = Some d \<and> Encrypt (bf_Block c) dst' d = Some (take 8 src @ drop 8 dst') \<and>
      drop 8 e = drop 8 dst \<and> drop 8 d = drop 8 dst)"
proof -
  have "4 \<le> length key \<and> length key \<le> 56 \<and> bf_ok c"
    using assms(1) bf_expandKey_ok by (auto simp: bf_NewCipher_def Let_def split: if_splits)
  then show ?thesis
    using blowfish.blocks_inverse [of c src dst dst'] assms(2-4) by (simp add: blowfish.size)
qed

end
