(* ===== verification/Crypto_Cast5.thy ===== *)
theory Crypto_Cast5
  imports Cast5_Const Cipher_Words
begin

text \<open>
  crypto/cast5/cast5.go. The arrays \<open>masking\<close> and \<open>rotate\<close> of a \<open>Cipher\<close> are lists of 16 entries;
  every index of the source is a constant, a loop counter or an eight bit value and is in range.
\<close>

section \<open>The round functions\<close>

definition cast5_S :: "nat \<Rightarrow> uint32 \<Rightarrow> uint32" where
  "cast5_S i x = cast5_sBox ! i ! unat x"

definition cast5_rotl :: "uint32 \<Rightarrow> byte \<Rightarrow> uint32" where
  "cast5_rotl t r = push_bit (unat r) t OR drop_bit (32 - unat r) t"

definition cast5_f1 :: "uint32 \<Rightarrow> uint32 \<Rightarrow> byte \<Rightarrow> uint32" where
  "cast5_f1 d m r = (let t = m + d; I = cast5_rotl t r in
     ((cast5_S 0 (drop_bit 24 I) XOR cast5_S 1 (drop_bit 16 I AND 0xff)) - cast5_S 2 (drop_bit 8 I AND 0xff)) +
       cast5_S 3 (I AND 0xff))"

definition cast5_f2 :: "uint32 \<Rightarrow> uint32 \<Rightarrow> byte \<Rightarrow> uint32" where
  "cast5_f2 d m r = (let t = m XOR d; I = cast5_rotl t r in
     ((cast5_S 0 (drop_bit 24 I) - cast5_S 1 (drop_bit 16 I AND 0xff)) + cast5_S 2 (drop_bit 8 I AND 0xff)) XOR
       cast5_S 3 (I AND 0xff))"

definition cast5_f3 :: "uint32 \<Rightarrow> uint32 \<Rightarrow> byte \<Rightarrow> uint32" where
  "cast5_f3 d m r = (let t = m - d; I = cast5_rotl t r in
     ((cast5_S 0 (drop_bit 24 I) + cast5_S 1 (drop_bit 16 I AND 0xff)) XOR cast5_S 2 (drop_bit 8 I AND 0xff)) -
       cast5_S 3 (I AND 0xff))"

section \<open>The cipher\<close>

record cast5_Cipher =
  cast5_masking :: "uint32 list"
  cast5_rotate :: "byte list"

definition cast5_encWords :: "cast5_Cipher \<Rightarrow> uint32 \<times> uint32 \<Rightarrow> uint32 \<times> uint32" where
  "cast5_encWords c = (\<lambda>(l, r).
     let (l, r) = (r, l XOR cast5_f1 r (cast5_masking c ! 0) (cast5_rotate c ! 0));
         (l, r) = (r, l XOR cast5_f2 r (cast5_masking c ! 1) (cast5_rotate c ! 1));
         (l, r) = (r, l XOR cast5_f3 r (cast5_masking c ! 2) (cast5_rotate c ! 2));
         (l, r) = (r, l XOR cast5_f1 r (cast5_masking c ! 3) (cast5_rotate c ! 3));
         (l, r) = (r, l XOR cast5_f2 r (cast5_masking c ! 4) (cast5_rotate c ! 4));
         (l, r) = (r, l XOR cast5_f3 r (cast5_masking c ! 5) (cast5_rotate c ! 5));
         (l, r) = (r, l XOR cast5_f1 r (cast5_masking c ! 6) (cast5_rotate c ! 6));
         (l, r) = (r, l XOR cast5_f2 r (cast5_masking c ! 7) (cast5_rotate c ! 7));
         (l, r) = (r, l XOR cast5_f3 r (cast5_masking c ! 8) (cast5_rotate c ! 8));
         (l, r) = (r, l XOR cast5_f1 r (cast5_masking c ! 9) (cast5_rotate c ! 9));
         (l, r) = (r, l XOR cast5_f2 r (cast5_masking c ! 10) (cast5_rotate c ! 10));
         (l, r) = (r, l XOR cast5_f3 r (cast5_masking c ! 11) (cast5_rotate c ! 11));
         (l, r) = (r, l XOR cast5_f1 r (cast5_masking c ! 12) (cast5_rotate c ! 12));
         (l, r) = (r, l XOR cast5_f2 r (cast5_masking c ! 13) (cast5_rotate c ! 13));
         (l, r) = (r, l XOR cast5_f3 r (cast5_masking c ! 14) (cast5_rotate c ! 14));
         (l, r) = (r, l XOR cast5_f1 r (cast5_masking c ! 15) (cast5_rotate c ! 15))
     in (r, l))"

definition cast5_decWords :: "cast5_Cipher \<Rightarrow> uint32 \<times> uint32 \<Rightarrow> uint32 \<times> uint32" where
  "cast5_decWords c = (\<lambda>(l, r).
     let (l, r) = (r, l XOR cast5_f1 r (cast5_masking c ! 15) (cast5_rotate c ! 15));
         (l, r) = (r, l XOR cast5_f3 r (cast5_masking c ! 14) (cast5_rotate c ! 14));
         (l, r) = (r, l XOR cast5_f2 r (cast5_masking c ! 13) (cast5_rotate c ! 13));
         (l, r) = (r, l XOR cast5_f1 r (cast5_masking c ! 12) (cast5_rotate c ! 12));
         (l, r) = (r, l XOR cast5_f3 r (cast5_masking c ! 11) (cast5_rotate c ! 11));
         (l, r) = (r, l XOR cast5_f2 r (cast5_masking c ! 10) (cast5_rotate c ! 10));
         (l, r) = (r, l XOR cast5_f1 r (cast5_masking c ! 9) (cast5_rotate c ! 9));
         (l, r) = (r, l XOR cast5_f3 r (cast5_masking c ! 8) (cast5_rotate c ! 8));
         (l, r) = (r, l XOR cast5_f2 r (cast5_masking c ! 7) (cast5_rotate c ! 7));
         (l, r) = (r, l XOR cast5_f1 r (cast5_masking c ! 6) (cast5_rotate c ! 6));
         (l, r) = (r, l XOR cast5_f3 r (cast5_masking c ! 5) (cast5_rotate c ! 5));
         (l, r) = (r, l XOR cast5_f2 r (cast5_masking c ! 4) (cast5_rotate c ! 4));
         (l, r) = (r, l XOR cast5_f1 r (cast5_masking c ! 3) (cast5_rotate c ! 3));
         (l, r) = (r, l XOR cast5_f3 r (cast5_masking c ! 2) (cast5_rotate c ! 2));
         (l, r) = (r, l XOR cast5_f2 r (cast5_masking c ! 1) (cast5_rotate c ! 1));
         (l, r) = (r, l XOR cast5_f1 r (cast5_masking c ! 0) (cast5_rotate c ! 0))
     in (r, l))"

definition cast5_Encrypt :: "cast5_Cipher \<Rightarrow> byte list \<Rightarrow> byte list \<Rightarrow> byte list option" where
  "cast5_Encrypt c dst src = do {
     v \<leftarrow> loadWords src;
     let (r, l) = cast5_encWords c v;
     storeWords r l dst }"

definition cast5_Decrypt :: "cast5_Cipher \<Rightarrow> byte list \<Rightarrow> byte list \<Rightarrow> byte list option" where
  "cast5_Decrypt c dst src = do {
     v \<leftarrow> loadWords src;
     let (r, l) = cast5_decWords c v;
     storeWords r l dst }"

definition cast5_Reset :: "cast5_Cipher \<Rightarrow> cast5_Cipher" where
  "cast5_Reset c = fold (\<lambda>i c. c\<lparr>cast5_masking := (cast5_masking c)[i := 0], cast5_rotate := (cast5_rotate c)[i := 0]\<rparr>) [0..<16] c"

section \<open>The key schedule\<close>

text \<open>Byte \<open>x\<close> of the eight words \<open>t\<close>: \<open>(t[x>>2]>>(24-8*(x&3)))&0xff\<close>.\<close>

definition cast5_byte :: "uint32 list \<Rightarrow> nat \<Rightarrow> uint32" where
  "cast5_byte t x = drop_bit (24 - 8 * (x mod 4)) (t ! (x div 4)) AND 0xff"

definition cast5_stepA :: "nat list list \<Rightarrow> nat \<Rightarrow> uint32 list \<Rightarrow> uint32 list" where
  "cast5_stepA rows j t = (let a = rows ! j; x = [6, 7, 4, 5];
     w = t ! (a ! 1);
     w = w XOR cast5_S 4 (cast5_byte t (a ! 2));
     w = w XOR cast5_S 5 (cast5_byte t (a ! 3));
     w = w XOR cast5_S 6 (cast5_byte t (a ! 4));
     w = w XOR cast5_S 7 (cast5_byte t (a ! 5));
     w = w XOR cast5_S (x ! j) (cast5_byte t (a ! 6))
   in t[a ! 0 := w])"

definition cast5_stepB :: "uint32 list \<Rightarrow> nat list list \<Rightarrow> nat \<Rightarrow> uint32 list \<times> nat \<Rightarrow> uint32 list \<times> nat" where
  "cast5_stepB t rows j = (\<lambda>(k, ki). let b = rows ! j;
     w = cast5_S 4 (cast5_byte t (b ! 0));
     w = w XOR cast5_S 5 (cast5_byte t (b ! 1));
     w = w XOR cast5_S 6 (cast5_byte t (b ! 2));
     w = w XOR cast5_S 7 (cast5_byte t (b ! 3));
     w = w XOR cast5_S (4 + j) (cast5_byte t (b ! 4))
   in (k[ki := w], ki + 1))"

definition cast5_round :: "nat list list \<times> nat list list \<Rightarrow> uint32 list \<times> uint32 list \<times> nat \<Rightarrow> uint32 list \<times> uint32 list \<times> nat" where
  "cast5_round rnd = (\<lambda>(t, kki).
     let t = fold (cast5_stepA (fst rnd)) [0..<4] t
     in (t, fold (cast5_stepB t (snd rnd)) [0..<4] kki))"

definition cast5_keySchedule :: "byte list \<Rightarrow> cast5_Cipher" where
  "cast5_keySchedule key =
    (let t = fold (\<lambda>i t. let j = i * 4 in t[i := be32 (key ! j) (key ! (j + 1)) (key ! (j + 2)) (key ! (j + 3))])
           [0..<4] (replicate 8 0);
         (t, k, ki) = fold (\<lambda>half. fold cast5_round cast5_schedule) [0..<2 :: nat] (t, replicate 32 0, 0)
     in fold (\<lambda>i c. c\<lparr>cast5_masking := (cast5_masking c)[i := k ! i],
                     cast5_rotate := (cast5_rotate c)[i := ucast (k ! (16 + i) AND 0x1f)]\<rparr>)
          [0..<16] \<lparr>cast5_masking = replicate 16 0, cast5_rotate = replicate 16 0\<rparr>)"

definition cast5_NewCipher :: "byte list \<Rightarrow> byte list + cast5_Cipher" where
  "cast5_NewCipher key =
     (if length key \<noteq> 16 then Inl (str ''CAST5: keys must be 16 bytes'') else Inr (cast5_keySchedule key))"

definition cast5_Block :: "cast5_Cipher \<Rightarrow> Block" where
  "cast5_Block c = \<lparr>BlockSize = 8, Encrypt = cast5_Encrypt c, Decrypt = cast5_Decrypt c\<rparr>"

section \<open>Correctness\<close>

text \<open>
  The successive halves, where round \<open>i\<close> masks with \<open>f i\<close> of the last one; read backwards the same
  equation gives the halves of the inverse.
\<close>

definition cast5_f :: "cast5_Cipher \<Rightarrow> nat \<Rightarrow> uint32 \<Rightarrow> uint32" where
  "cast5_f c i x =
     (if i mod 3 = 0 then cast5_f1 else if i mod 3 = 1 then cast5_f2 else cast5_f3) x (cast5_masking c ! i) (cast5_rotate c ! i)"

fun feistel_seq :: "(nat \<Rightarrow> uint32 \<Rightarrow> uint32) \<Rightarrow> uint32 \<Rightarrow> uint32 \<Rightarrow> nat \<Rightarrow> uint32" where
  "feistel_seq f l r 0 = l"
| "feistel_seq f l r (Suc 0) = r"
| "feistel_seq f l r (Suc (Suc i)) = feistel_seq f l r i XOR f i (feistel_seq f l r (Suc i))"

lemma feistel_steps:
  "feistel_seq f l r 0 XOR f 0 (feistel_seq f l r 1) = feistel_seq f l r 2"
  "feistel_seq f l r 1 XOR f 1 (feistel_seq f l r 2) = feistel_seq f l r 3"
  "feistel_seq f l r 2 XOR f 2 (feistel_seq f l r 3) = feistel_seq f l r 4"
  "feistel_seq f l r 3 XOR f 3 (feistel_seq f l r 4) = feistel_seq f l r 5"
  "feistel_seq f l r 4 XOR f 4 (feistel_seq f l r 5) = feistel_seq f l r 6"
  "feistel_seq f l r 5 XOR f 5 (feistel_seq f l r 6) = feistel_seq f l r 7"
  "feistel_seq f l r 6 XOR f 6 (feistel_seq f l r 7) = feistel_seq f l r 8"
  "feistel_seq f l r 7 XOR f 7 (feistel_seq f l r 8) = feistel_seq f l r 9"
  "feistel_seq f l r 8 XOR f 8 (feistel_seq f l r 9) = feistel_seq f l r 10"
  "feistel_seq f l r 9 XOR f 9 (feistel_seq f l r 10) = feistel_seq f l r 11"
  "feistel_seq f l r 10 XOR f 10 (feistel_seq f l r 11) = feistel_seq f l r 12"
  "feistel_seq f l r 11 XOR f 11 (feistel_seq f l r 12) = feistel_seq f l r 13"
  "feistel_seq f l r 12 XOR f 12 (feistel_seq f l r 13) = feistel_seq f l r 14"
  "feistel_seq f l r 13 XOR f 13 (feistel_seq f l r 14) = feistel_seq f l r 15"
  "feistel_seq f l r 14 XOR f 14 (feistel_seq f l r 15) = feistel_seq f l r 16"
  "feistel_seq f l r 15 XOR f 15 (feistel_seq f l r 16) = feistel_seq f l r 17"
  by (simp_all add: numeral_eq_Suc)

lemma feistel_steps_back:
  "feistel_seq f l r 2 XOR f 0 (feistel_seq f l r 1) = feistel_seq f l r 0"
  "feistel_seq f l r 3 XOR f 1 (feistel_seq f l r 2) = feistel_seq f l r 1"
  "feistel_seq f l r 4 XOR f 2 (feistel_seq f l r 3) = feistel_seq f l r 2"
  "feistel_seq f l r 5 XOR f 3 (feistel_seq f l r 4) = feistel_seq f l r 3"
  "feistel_seq f l r 6 XOR f 4 (feistel_seq f l r 5) = feistel_seq f l r 4"
  "feistel_seq f l r 7 XOR f 5 (feistel_seq f l r 6) = feistel_seq f l r 5"
  "feistel_seq f l r 8 XOR f 6 (feistel_seq f l r 7) = feistel_seq f l r 6"
  "feistel_seq f l r 9 XOR f 7 (feistel_seq f l r 8) = feistel_seq f l r 7"
  "feistel_seq f l r 10 XOR f 8 (feistel_seq f l r 9) = feistel_seq f l r 8"
  "feistel_seq f l r 11 XOR f 9 (feistel_seq f l r 10) = feistel_seq f l r 9"
  "feistel_seq f l r 12 XOR f 10 (feistel_seq f l r 11) = feistel_seq f l r 10"
  "feistel_seq f l r 13 XOR f 11 (feistel_seq f l r 12) = feistel_seq f l r 11"
  "feistel_seq f l r 14 XOR f 12 (feistel_seq f l r 13) = feistel_seq f l r 12"
  "feistel_seq f l r 15 XOR f 13 (feistel_seq f l r 14) = feistel_seq f l r 13"
  "feistel_seq f l r 16 XOR f 14 (feistel_seq f l r 15) = feistel_seq f l r 14"
  "feistel_seq f l r 17 XOR f 15 (feistel_seq f l r 16) = feistel_seq f l r 15"
  by (simp_all add: numeral_eq_Suc)

lemma cast5_rounds:
  "cast5_f1 x (cast5_masking c ! 0) (cast5_rotate c ! 0) = cast5_f c 0 x"
  "cast5_f2 x (cast5_masking c ! 1) (cast5_rotate c ! 1) = cast5_f c 1 x"
  "cast5_f3 x (cast5_masking c ! 2) (cast5_rotate c ! 2) = cast5_f c 2 x"
  "cast5_f1 x (cast5_masking c ! 3) (cast5_rotate c ! 3) = cast5_f c 3 x"
  "cast5_f2 x (cast5_masking c ! 4) (cast5_rotate c ! 4) = cast5_f c 4 x"
  "cast5_f3 x (cast5_masking c ! 5) (cast5_rotate c ! 5) = cast5_f c 5 x"
  "cast5_f1 x (cast5_masking c ! 6) (cast5_rotate c ! 6) = cast5_f c 6 x"
  "cast5_f2 x (cast5_masking c ! 7) (cast5_rotate c ! 7) = cast5_f c 7 x"
  "cast5_f3 x (cast5_masking c ! 8) (cast5_rotate c ! 8) = cast5_f c 8 x"
  "cast5_f1 x (cast5_masking c ! 9) (cast5_rotate c ! 9) = cast5_f c 9 x"
  "cast5_f2 x (cast5_masking c ! 10) (cast5_rotate c ! 10) = cast5_f c 10 x"
  "cast5_f3 x (cast5_masking c ! 11) (cast5_rotate c ! 11) = cast5_f c 11 x"
  "cast5_f1 x (cast5_masking c ! 12) (cast5_rotate c ! 12) = cast5_f c 12 x"
  "cast5_f2 x (cast5_masking c ! 13) (cast5_rotate c ! 13) = cast5_f c 13 x"
  "cast5_f3 x (cast5_masking c ! 14) (cast5_rotate c ! 14) = cast5_f c 14 x"
  "cast5_f1 x (cast5_masking c ! 15) (cast5_rotate c ! 15) = cast5_f c 15 x"
  by (simp_all add: cast5_f_def)

lemma cast5_encWords_seq: "cast5_encWords c (l, r) = (feistel_seq (cast5_f c) l r 17, feistel_seq (cast5_f c) l r 16)"
proof -
  let ?z = "feistel_seq (cast5_f c) l r"
  have z: "l = ?z 0" "r = ?z 1" by simp_all
  show ?thesis
    unfolding cast5_encWords_def cast5_rounds
    by (subst z(1), subst z(2)) (simp only: Let_def prod.case feistel_steps cong: let_weak_cong)
qed

lemma cast5_dec_enc: "cast5_decWords c (cast5_encWords c p) = p"
proof -
  obtain l r where p: "p = (l, r)" by fastforce
  let ?z = "feistel_seq (cast5_f c) l r"
  have "cast5_decWords c (?z 17, ?z 16) = (?z 0, ?z 1)"
    unfolding cast5_decWords_def cast5_rounds
    by (simp only: Let_def prod.case feistel_steps_back cong: let_weak_cong)
  then show ?thesis by (simp add: p cast5_encWords_seq)
qed

interpretation cast5: word_cipher "cast5_Block c" "cast5_encWords c" "cast5_decWords c" for c
proof
  show "Encrypt (cast5_Block c) dst src = (if 8 \<le> length src \<and> 8 \<le> length dst
      then Some (crypt8 (cast5_encWords c) (take 8 src) @ drop 8 dst) else None)" for dst src
    unfolding crypt8_words [symmetric] by (simp add: cast5_Block_def cast5_Encrypt_def)
  show "Decrypt (cast5_Block c) dst src = (if 8 \<le> length src \<and> 8 \<le> length dst
      then Some (crypt8 (cast5_decWords c) (take 8 src) @ drop 8 dst) else None)" for dst src
    unfolding crypt8_words [symmetric] by (simp add: cast5_Block_def cast5_Decrypt_def)
qed (simp_all add: cast5_Block_def cast5_dec_enc)

text \<open>The rotations a key schedule produces are below 32, so that both shifts of a rotation are defined.\<close>

definition cast5_ok :: "cast5_Cipher \<Rightarrow> bool" where
  "cast5_ok c \<longleftrightarrow> length (cast5_masking c) = 16 \<and> length (cast5_rotate c) = 16 \<and> (\<forall>r \<in> set (cast5_rotate c). r < 32)"

lemma cast5_rotate_less: "ucast (w AND 0x1f :: uint32) < (32 :: byte)"
proof -
  have "w AND 0x1f = take_bit 5 w" by (simp add: take_bit_eq_mask mask_eq_exp_minus_1)
  then have "unat (w AND 0x1f) < 2 ^ 5" by (simp only: unsigned_take_bit_eq take_bit_nat_less_exp)
  then show ?thesis by (simp add: word_less_nat_alt unsigned_ucast_eq take_bit_eq_mod)
qed

lemma cast5_keySchedule_ok: "cast5_ok (cast5_keySchedule key)"
proof -
  let ?z = "\<lparr>cast5_masking = replicate 16 0, cast5_rotate = replicate 16 0\<rparr>"
  let ?f = "\<lambda>k i c. c\<lparr>cast5_masking := (cast5_masking c)[i := k ! i], cast5_rotate := (cast5_rotate c)[i := ucast (k ! (16 + i) AND (0x1f :: uint32))]\<rparr>"
  have step: "cast5_ok c \<Longrightarrow> cast5_ok (?f k i c)" for c k i
    by (auto simp: cast5_ok_def cast5_rotate_less dest!: set_update_subset_insert [THEN subsetD])
  have "cast5_ok c \<Longrightarrow> cast5_ok (fold (?f k) is c)" for c k "is"
    by (induction "is" arbitrary: c) (simp_all add: step)
  moreover have "cast5_ok ?z" by (auto simp: cast5_ok_def)
  ultimately show ?thesis
    by (simp add: cast5_keySchedule_def Let_def split: prod.splits)
qed

section \<open>Properties\<close>

text \<open>
  Every key of 16 bytes, and no other, gives a cipher; it has 16 masks and 16 rotations below 32.
  Its methods are inverse to each other: decrypting what \<open>Encrypt\<close> wrote, or encrypting what
  \<open>Decrypt\<close> wrote, gives back the block of the source, and neither touches the bytes of the destination
  behind the block.
\<close>

lemma cast5_inverse:
  assumes "cast5_NewCipher key = Inr c" "8 \<le> length src" "8 \<le> length dst" "8 \<le> length dst'"
  shows "length key = 16 \<and> cast5_ok c \<and>
    (\<exists>e d. Encrypt (cast5_Block c) dst src = Some e \<and> Decrypt (cast5_Block c) dst' e = Some (take 8 src @ drop 8 dst') \<and>
      Decrypt (cast5_Block c) dst src = Some d \<and> Encrypt (cast5_Block c) dst' d = Some (take 8 src @ drop 8 dst') \<and>
      drop 8 e = drop 8 dst \<and> drop 8 d = drop 8 dst)"
proof -
  have "length key = 16 \<and> cast5_ok c"
    using assms(1) cast5_keySchedule_ok by (auto simp: cast5_NewCipher_def split: if_splits)
  then show ?thesis
    using cast5.blocks_inverse [of c src dst dst'] assms(2-4) by (simp add: cast5.size)
qed

end
