(* ===== verification/Crypto_Des.thy ===== *)
theory Crypto_Des
  imports Des_Const Cipher_Words
begin

text \<open>
  crypto/des: block.go and cipher.go, DES and triple DES. The arrays are lists of the length the
  source declares; every index is a constant, a loop counter or a value of four or six bits.
\<close>

section \<open>block.go\<close>

definition permuteBlock :: "uint64 \<Rightarrow> nat list \<Rightarrow> uint64" where
  "permuteBlock src permutation =
     fold (\<lambda>(position, n) block. block OR push_bit (length permutation - 1 - position) (drop_bit n src AND 1))
       (enumerate 0 permutation) 0"

definition sBoxStep :: "nat \<Rightarrow> uint64 \<times> uint32 \<Rightarrow> uint64 \<times> uint32" where
  "sBoxStep i = (\<lambda>(sBoxLocations, sBoxResult).
     let sBoxLocation = ucast (drop_bit 42 sBoxLocations) AND 0x3f :: byte;
         sBoxLocations = push_bit 6 sBoxLocations;
         row = (sBoxLocation AND 0x1) OR drop_bit 4 (sBoxLocation AND 0x20);
         column = drop_bit 1 sBoxLocation AND 0xf
     in (sBoxLocations, sBoxResult OR push_bit (4 * (7 - i)) (ucast (sBoxes ! i ! unat row ! unat column))))"

definition feistel :: "uint32 \<Rightarrow> uint64 \<Rightarrow> uint32" where
  "feistel right key =
    (let sBoxLocations = key XOR permuteBlock (ucast right) expansionFunction;
         (_, sBoxResult) = fold sBoxStep [0..<8] (sBoxLocations, 0)
     in ucast (permuteBlock (ucast sBoxResult) permutationFunction))"

definition des_round :: "uint64 \<Rightarrow> uint32 \<times> uint32 \<Rightarrow> uint32 \<times> uint32" where
  "des_round subkey = (\<lambda>(left, right). (right, left XOR feistel right subkey))"

definition cryptBlock :: "uint64 list \<Rightarrow> byte list \<Rightarrow> byte list \<Rightarrow> bool \<Rightarrow> byte list option" where
  "cryptBlock subkeys dst src decrypt = do {
     b \<leftarrow> Uint64 BigEndian src;
     let b = permuteBlock b initialPermutation;
     let (left, right) = fold (\<lambda>i. des_round (if decrypt then subkeys ! (15 - i) else subkeys ! i)) [0..<16]
       (ucast (drop_bit 32 b), ucast b);
     let preOutput = push_bit 32 (ucast right) OR ucast left;
     PutUint64 BigEndian dst (permuteBlock preOutput finalPermutation) }"

definition des_encryptBlock :: "uint64 list \<Rightarrow> byte list \<Rightarrow> byte list \<Rightarrow> byte list option" where
  "des_encryptBlock subkeys dst src = cryptBlock subkeys dst src False"

definition des_decryptBlock :: "uint64 list \<Rightarrow> byte list \<Rightarrow> byte list \<Rightarrow> byte list option" where
  "des_decryptBlock subkeys dst src = cryptBlock subkeys dst src True"

definition ksRotateStep :: "nat \<Rightarrow> uint32 list \<times> uint32 \<Rightarrow> uint32 list \<times> uint32" where
  "ksRotateStep i = (\<lambda>(out, lst).
     let left = drop_bit 4 (push_bit (4 + ksRotations ! i) lst);
         right = drop_bit (32 - ksRotations ! i) (push_bit 4 lst)
     in (out[i := left OR right], left OR right))"

definition ksRotate :: "uint32 \<Rightarrow> uint32 list" where
  "ksRotate inp = fst (fold ksRotateStep [0..<16] (replicate 16 0, inp))"

record des_Cipher =
  des_subkeys :: "uint64 list"

definition generateSubkeys :: "des_Cipher \<Rightarrow> byte list \<Rightarrow> des_Cipher option" where
  "generateSubkeys c keyBytes = do {
     key \<leftarrow> Uint64 BigEndian keyBytes;
     let permutedKey = permuteBlock key permutedChoice1;
     let leftRotations = ksRotate (ucast (drop_bit 28 permutedKey));
     let rightRotations = ksRotate (drop_bit 4 (ucast (push_bit 4 permutedKey)));
     Some (c\<lparr>des_subkeys := fold (\<lambda>i s. s[i := permuteBlock
       (push_bit 28 (ucast (leftRotations ! i)) OR ucast (rightRotations ! i)) permutedChoice2]) [0..<16] (des_subkeys c)\<rparr>) }"

section \<open>cipher.go\<close>

definition des_zero :: des_Cipher where
  "des_zero = \<lparr>des_subkeys = replicate 16 0\<rparr>"

text \<open>\<open>None\<close> is a panic, \<open>Inl\<close> the error.\<close>

definition des_NewCipher :: "byte list \<Rightarrow> (KeySizeError + des_Cipher) option" where
  "des_NewCipher key =
     (if length key \<noteq> 8 then Some (Inl (KeySizeError (length key)))
      else do { c \<leftarrow> generateSubkeys des_zero key; Some (Inr c) })"

definition des_Block :: "des_Cipher \<Rightarrow> Block" where
  "des_Block c = \<lparr>BlockSize = 8, Encrypt = des_encryptBlock (des_subkeys c), Decrypt = des_decryptBlock (des_subkeys c)\<rparr>"

definition des_Reset :: "des_Cipher \<Rightarrow> des_Cipher" where
  "des_Reset c = c\<lparr>des_subkeys := fold (\<lambda>i s. s[i := 0]) [0..<length (des_subkeys c)] (des_subkeys c)\<rparr>"

record TripleDESCipher =
  cipher1 :: des_Cipher
  cipher2 :: des_Cipher
  cipher3 :: des_Cipher

definition NewTripleDESCipher :: "byte list \<Rightarrow> (KeySizeError + TripleDESCipher) option" where
  "NewTripleDESCipher key =
     (if length key \<noteq> 24 then Some (Inl (KeySizeError (length key)))
      else do {
        c1 \<leftarrow> generateSubkeys des_zero (take 8 key);
        c2 \<leftarrow> generateSubkeys des_zero (drop 8 (take 16 key));
        c3 \<leftarrow> generateSubkeys des_zero (drop 16 key);
        Some (Inr \<lparr>cipher1 = c1, cipher2 = c2, cipher3 = c3\<rparr>) })"

definition TripleDES_Encrypt :: "TripleDESCipher \<Rightarrow> byte list \<Rightarrow> byte list \<Rightarrow> byte list option" where
  "TripleDES_Encrypt c dst src = do {
     dst \<leftarrow> Encrypt (des_Block (cipher1 c)) dst src;
     dst \<leftarrow> Decrypt (des_Block (cipher2 c)) dst dst;
     Encrypt (des_Block (cipher3 c)) dst dst }"

definition TripleDES_Decrypt :: "TripleDESCipher \<Rightarrow> byte list \<Rightarrow> byte list \<Rightarrow> byte list option" where
  "TripleDES_Decrypt c dst src = do {
     dst \<leftarrow> Decrypt (des_Block (cipher3 c)) dst src;
     dst \<leftarrow> Encrypt (des_Block (cipher2 c)) dst dst;
     Decrypt (des_Block (cipher1 c)) dst dst }"

definition TripleDES_Reset :: "TripleDESCipher \<Rightarrow> TripleDESCipher" where
  "TripleDES_Reset c = \<lparr>cipher1 = des_Reset (cipher1 c), cipher2 = des_Reset (cipher2 c), cipher3 = des_Reset (cipher3 c)\<rparr>"

definition TripleDES_Block :: "TripleDESCipher \<Rightarrow> Block" where
  "TripleDES_Block c = \<lparr>BlockSize = 8, Encrypt = TripleDES_Encrypt c, Decrypt = TripleDES_Decrypt c\<rparr>"

section \<open>Permutations of bits\<close>

lemma bit_and_1: "bit (push_bit k (drop_bit n src AND 1)) j \<longleftrightarrow> j = k \<and> j < 64 \<and> bit src n" for src :: uint64
  by (auto simp: bit_simps)

lemma bit_permute_fold:
  "bit (fold (\<lambda>(p, n) block. block OR push_bit (L - p) (drop_bit n src AND 1)) ps acc) j \<longleftrightarrow>
   bit acc j \<or> (\<exists>(p, n) \<in> set ps. j = L - p \<and> j < 64 \<and> bit src n)" for src acc :: uint64
proof (induction ps arbitrary: acc)
  case (Cons q ps)
  then show ?case by (cases q) (auto simp: bit_or_iff bit_and_1 simp del: push_bit_and)
qed simp

lemma bit_permuteBlock:
  assumes "length p \<le> 64"
  shows "bit (permuteBlock src p) j \<longleftrightarrow> j < length p \<and> bit src (p ! (length p - 1 - j))"
proof -
  have "bit (permuteBlock src p) j \<longleftrightarrow> (\<exists>(i, n) \<in> set (enumerate 0 p). j = length p - 1 - i \<and> j < 64 \<and> bit src n)"
    unfolding permuteBlock_def bit_permute_fold by simp
  also have "\<dots> \<longleftrightarrow> (\<exists>i < length p. j = length p - 1 - i \<and> j < 64 \<and> bit src (p ! i))"
    by (auto simp: in_set_enumerate_eq)
  also have "\<dots> \<longleftrightarrow> j < length p \<and> bit src (p ! (length p - 1 - j))"
    using assms by (auto intro!: exI [of _ "length p - 1 - j"])
  finally show ?thesis .
qed

lemma permutations_inverse:
  "permuteBlock (permuteBlock b finalPermutation) initialPermutation = b"
  "permuteBlock (permuteBlock b initialPermutation) finalPermutation = b"
proof -
  have l: "length finalPermutation = 64" "length initialPermutation = 64"
    by (simp_all add: finalPermutation_def initialPermutation_def)
  have f: "\<forall>j \<in> set [0..<64]. finalPermutation ! (63 - initialPermutation ! (63 - j)) = j \<and> initialPermutation ! (63 - j) < 64"
    by code_simp
  have i: "\<forall>j \<in> set [0..<64]. initialPermutation ! (63 - finalPermutation ! (63 - j)) = j \<and> finalPermutation ! (63 - j) < 64"
    by code_simp
  show "permuteBlock (permuteBlock b finalPermutation) initialPermutation = b"
    using f by (intro bit_word_eqI) (simp add: bit_permuteBlock l)
  show "permuteBlock (permuteBlock b initialPermutation) finalPermutation = b"
    using i by (intro bit_word_eqI) (simp add: bit_permuteBlock l)
qed

section \<open>The rounds\<close>

definition splitWord :: "uint64 \<Rightarrow> uint32 \<times> uint32" where
  "splitWord b = (ucast (drop_bit 32 b), ucast b)"

definition joinWords :: "uint32 \<times> uint32 \<Rightarrow> uint64" where
  "joinWords = (\<lambda>(left, right). push_bit 32 (ucast right) OR ucast left)"

lemma split_join: "splitWord (joinWords (l, r)) = (r, l)"
proof -
  have "ucast (drop_bit 32 (push_bit 32 (ucast r) OR ucast l :: uint64)) = r"
    by (rule bit_word_eqI) (auto simp: bit_simps dest: bit_imp_le_length)
  moreover have "ucast (push_bit 32 (ucast r) OR ucast l :: uint64) = l"
    by (rule bit_word_eqI) (auto simp: bit_simps dest: bit_imp_le_length)
  ultimately show ?thesis by (simp add: splitWord_def joinWords_def)
qed

lemma join_split: "joinWords (prod.swap (splitWord b)) = b"
proof -
  have "push_bit 32 (ucast (ucast (drop_bit 32 b) :: uint32)) OR ucast (ucast b :: uint32) = b"
    by (rule bit_word_eqI) (auto simp: bit_simps)
  then show ?thesis by (simp add: splitWord_def joinWords_def)
qed

definition des_rounds :: "uint64 list \<Rightarrow> bool \<Rightarrow> uint32 \<times> uint32 \<Rightarrow> uint32 \<times> uint32" where
  "des_rounds subkeys decrypt = fold (\<lambda>i. des_round (if decrypt then subkeys ! (15 - i) else subkeys ! i)) [0..<16]"

definition des_perm :: "uint64 list \<Rightarrow> bool \<Rightarrow> uint64 \<Rightarrow> uint64" where
  "des_perm subkeys decrypt b =
     permuteBlock (joinWords (des_rounds subkeys decrypt (splitWord (permuteBlock b initialPermutation)))) finalPermutation"

lemma cryptBlock_perm:
  "cryptBlock subkeys dst src decrypt = do { b \<leftarrow> be_Uint64 src; be_PutUint64 dst (des_perm subkeys decrypt b) }"
  by (simp add: cryptBlock_def des_perm_def des_rounds_def splitWord_def joinWords_def BigEndian_def case_prod_unfold Let_def)

lemma fold_swap: "(\<And>i s. f i (prod.swap s) = prod.swap (g i s)) \<Longrightarrow> fold f is (prod.swap s) = prod.swap (fold g is s)"
  by (induction "is" arbitrary: s) simp_all

lemma des_rounds_inverse: "des_rounds k True (prod.swap (des_rounds k False s)) = prod.swap s"
proof -
  let ?f = "\<lambda>i. des_round (k ! i)"
  let ?g = "\<lambda>i s. prod.swap (?f i (prod.swap s))"
  have r: "map (\<lambda>i. 15 - i) [0..<16] = rev [0..<16 :: nat]" by code_simp
  have "des_rounds k True = fold ?f (map (\<lambda>i. 15 - i) [0..<16])"
    by (simp add: des_rounds_def fold_map comp_def)
  also have "\<dots> = fold ?f (rev [0..<16])" unfolding r ..
  finally have dec: "des_rounds k True = fold ?f (rev [0..<16])" .
  have "fold ?f (rev [0..<16]) (prod.swap (fold ?f [0..<16] s)) = prod.swap (fold ?g (rev [0..<16]) (fold ?f [0..<16] s))"
    by (rule fold_swap) simp
  also have "fold ?g (rev [0..<16]) (fold ?f [0..<16] s) = s"
    by (rule fold_rev_inverse) (auto simp: des_round_def split: prod.splits)
  finally show ?thesis unfolding dec by (simp add: des_rounds_def)
qed

lemma des_perm_inverse: "des_perm k True (des_perm k False b) = b"
proof -
  let ?b = "permuteBlock b initialPermutation"
  have "splitWord (joinWords s) = prod.swap s" for s by (cases s) (simp add: split_join)
  then have "des_perm k True (des_perm k False b) = permuteBlock (joinWords (prod.swap (splitWord ?b))) finalPermutation"
    by (simp add: des_perm_def permutations_inverse des_rounds_inverse)
  then show ?thesis by (simp add: join_split permutations_inverse)
qed

section \<open>The contract\<close>

definition be64_image :: "uint64 \<Rightarrow> byte list" where
  "be64_image v = [byte_of v 7, byte_of v 6, byte_of v 5, byte_of v 4, byte_of v 3, byte_of v 2, byte_of v 1, byte_of v 0]"

definition crypt64 :: "(uint64 \<Rightarrow> uint64) \<Rightarrow> byte list \<Rightarrow> byte list" where
  "crypt64 f x = be64_image (f (the (be_Uint64 x)))"

lemma be64_image:
  "be_Uint64 (be64_image v @ c) = Some v" "be_Uint64 (be64_image v) = Some v"
  "length b = 8 \<Longrightarrow> \<exists>v. b = be64_image v"
  using be64.get_image [of v c] be64.get_image [of v "[]"] be64.image_onto [of b]
  unfolding be64_image_def append_Nil2 by blast+

lemma crypt64_eq:
  "do { b \<leftarrow> be_Uint64 src; be_PutUint64 dst (f b) } =
   (if 8 \<le> length src \<and> 8 \<le> length dst then Some (crypt64 f (take 8 src) @ drop 8 dst) else None)"
proof (cases "8 \<le> length src")
  case True
  then obtain v where v: "take 8 src = be64_image v"
    using be64_image(3) [of "take 8 src"] by auto
  have "be_Uint64 src = Some v" "be_Uint64 (take 8 src) = Some v"
    using be64_image(1) [of v "drop 8 src"] be64_image(2) [of v] v by (metis append_take_drop_id)+
  then show ?thesis using True by (simp add: be64.put_eq crypt64_def be64_image_def)
next
  case False
  then show ?thesis by (simp add: be64.get_short)
qed

lemma length_crypt64 [simp]: "length (crypt64 f x) = 8"
  by (simp add: crypt64_def be64_image_def)

lemma crypt64_inverse: "(\<And>v. g (f v) = v) \<Longrightarrow> length x = 8 \<Longrightarrow> crypt64 g (crypt64 f x) = x"
proof -
  assume inv: "\<And>v. g (f v) = v" and "length x = 8"
  then obtain v where v: "x = be64_image v" using be64_image(3) [of x] by auto
  then show "crypt64 g (crypt64 f x) = x" by (simp add: crypt64_def inv be64_image)
qed

interpretation des: block_contract "des_Block c" "crypt64 (des_perm (des_subkeys c) False)" "crypt64 (des_perm (des_subkeys c) True)" for c
proof
  fix x :: "byte list"
  assume "length x = BlockSize (des_Block c)"
  then have x: "length x = 8" by (simp add: des_Block_def)
  show "crypt64 (des_perm (des_subkeys c) True) (crypt64 (des_perm (des_subkeys c) False) x) = x"
    by (rule crypt64_inverse [OF _ x]) (rule des_perm_inverse)
  show "crypt64 (des_perm (des_subkeys c) False) (crypt64 (des_perm (des_subkeys c) True) x) = x"
    by (rule crypt64_inverse [OF _ x]) (rule finite_inverse, rule des_perm_inverse)
qed (simp_all add: des_Block_def des_encryptBlock_def des_decryptBlock_def cryptBlock_perm crypt64_eq)

lemma des_size [simp]: "BlockSize (des_Block c) = 8"
  by (simp add: des_Block_def)

definition des_E :: "des_Cipher \<Rightarrow> byte list \<Rightarrow> byte list" where
  "des_E c = crypt64 (des_perm (des_subkeys c) False)"

definition des_D :: "des_Cipher \<Rightarrow> byte list \<Rightarrow> byte list" where
  "des_D c = crypt64 (des_perm (des_subkeys c) True)"

lemmas des_facts = des.Encrypt_eq [folded des_E_def, unfolded des_size] des.Decrypt_eq [folded des_D_def, unfolded des_size]
  des.D_E [folded des_E_def des_D_def, unfolded des_size] des.E_D [folded des_E_def des_D_def, unfolded des_size]

lemma length_des [simp]: "length (des_E c x) = 8" "length (des_D c x) = 8"
  by (simp_all add: des_E_def des_D_def)

interpretation triple_des: block_contract "TripleDES_Block c"
  "\<lambda>x. des_E (cipher3 c) (des_D (cipher2 c) (des_E (cipher1 c) x))"
  "\<lambda>x. des_D (cipher1 c) (des_E (cipher2 c) (des_D (cipher3 c) x))" for c
  by unfold_locales (simp_all add: TripleDES_Block_def TripleDES_Encrypt_def TripleDES_Decrypt_def des_facts)

section \<open>The constructors\<close>

lemma generateSubkeys_total: "length key = 8 \<Longrightarrow> \<exists>c. generateSubkeys des_zero key = Some c \<and> length (des_subkeys c) = 16"
proof -
  assume "length key = 8"
  then obtain k where "be_Uint64 key = Some k" using be64.total(1) [of key] by auto
  moreover have "length (fold (\<lambda>i s. s[i := f i]) is s) = length s" for f "is" and s :: "uint64 list"
    by (induction "is" arbitrary: s) simp_all
  ultimately show ?thesis by (simp add: generateSubkeys_def des_zero_def BigEndian_def Let_def)
qed

lemma NewTripleDESCipher_total: "length key = 24 \<Longrightarrow> \<exists>c. NewTripleDESCipher key = Some (Inr c) \<and>
  length (des_subkeys (cipher1 c)) = 16 \<and> length (des_subkeys (cipher2 c)) = 16 \<and> length (des_subkeys (cipher3 c)) = 16"
proof -
  assume k: "length key = 24"
  then show ?thesis
    using generateSubkeys_total [of "take 8 key"] generateSubkeys_total [of "drop 8 (take 16 key)"]
      generateSubkeys_total [of "drop 16 key"]
    by (auto simp: NewTripleDESCipher_def)
qed

section \<open>Properties\<close>



end
