(* ===== verification/Cipher_Modes.thy ===== *)
theory Cipher_Modes
  imports Crypto_Xtea Crypto_Blowfish Crypto_Cast5 Crypto_Des
begin

text \<open>
  The modes of crypto/cipher over the block ciphers of this library. Every cipher a package
  constructor can return keeps the contract of \<open>Block\<close>, so the results of Cipher_Block and
  Cipher_Streams hold for it; they are stated here on the definitions that model the source.
\<close>

definition package_ciphers :: "Block set" where
  "package_ciphers = range xtea_Block \<union> range bf_Block \<union> range cast5_Block \<union> range des_Block \<union> range TripleDES_Block"

lemma package_contract:
  assumes "b \<in> package_ciphers"
  obtains E D where "block_contract b E D" and "BlockSize b = 8"
proof -
  have "BlockSize b = 8"
    using assms by (auto simp: package_ciphers_def xtea_Block_def bf_Block_def cast5_Block_def des_Block_def TripleDES_Block_def)
  moreover have "\<exists>E D. block_contract b E D"
    using assms xtea.block_contract_axioms blowfish.block_contract_axioms cast5.block_contract_axioms
      des.block_contract_axioms triple_des.block_contract_axioms
    unfolding package_ciphers_def by fastforce
  ultimately show ?thesis using that by blast
qed

section \<open>The adapters\<close>

lemma streamCopy_run: "streamCopy (byteLoop step) s src = run step s src"
proof -
  let ?n = "length src"
  have "byteLoop step s (mwrite (\<lambda>_. 0) 0 src) (?n, ?n) (0, ?n) =
      map_option (\<lambda>(x, vs). (x, mwrite (mwrite (\<lambda>_. 0) 0 src) ?n vs)) (run step s src)"
    by (subst byteLoop_run) (simp_all add: safe_overlap_def)
  then show ?thesis
    by (cases "run step s src") (auto simp: streamCopy_def run_length)
qed

text \<open>
  Through a writer that accepts everything, the pieces in which data are written do not matter: the
  writer receives the encryption of their concatenation.
\<close>

definition accept_all :: "byte list \<Rightarrow> byte list \<Rightarrow> byte list \<times> nat \<times> 'e option" where
  "accept_all w c = (w @ c, length c, None)"

fun StreamWriter_Writes :: "('s \<Rightarrow> byte \<Rightarrow> ('s \<times> byte) option) \<Rightarrow> 'e \<Rightarrow> ('s, byte list, 'e) StreamWriter \<Rightarrow> byte list list \<Rightarrow>
    ('s, byte list, 'e) StreamWriter option" where
  "StreamWriter_Writes step E w [] = Some w"
| "StreamWriter_Writes step E w (p # ps) = do {
     (w, n, err) \<leftarrow> StreamWriter_Write (byteLoop step) accept_all E w p;
     StreamWriter_Writes step E w ps }"

lemma StreamWriter_pieces:
  "run step (sw_S w) (concat ps) = Some (s, out) \<Longrightarrow> sw_Err w = None \<Longrightarrow>
   StreamWriter_Writes step E w ps = Some (w\<lparr>sw_S := s, sw_W := sw_W w @ out\<rparr>)"
proof (induction ps arbitrary: w out)
  case (Cons p ps)
  obtain s1 o1 o2 where r: "run step (sw_S w) p = Some (s1, o1)" "run step s1 (concat ps) = Some (s, o2)" "out = o1 @ o2"
    using Cons.prems(1) by (auto simp: run_append split: Option.bind_splits prod.splits)
  let ?w = "w\<lparr>sw_S := s1, sw_W := sw_W w @ o1\<rparr>"
  have "StreamWriter_Writes step E w (p # ps) = StreamWriter_Writes step E ?w ps"
    using r(1) Cons.prems(2) run_length [OF r(1)]
    by (simp add: StreamWriter_Write_def streamCopy_run accept_all_def)
  then show ?case using Cons.IH [of ?w o2] r(2,3) Cons.prems(2) by simp
qed simp

section \<open>Properties\<close>

text \<open>
  C15. The constructors of XTEA, Blowfish and CAST5 accept exactly the keys of 16, of 4 to 56, and of 16 bytes. The methods
  of every cipher they return are inverse to each other: decrypting what \<open>Encrypt\<close> wrote, or encrypting what
  \<open>Decrypt\<close> wrote, gives back the block of the source, and neither touches the bytes of the destination behind the block.
\<close>

theorem word_ciphers_inverse:
  assumes "(\<exists>c. xtea_NewCipher key = Inr c \<and> b = xtea_Block c) \<or> (\<exists>c. bf_NewCipher key = Inr c \<and> b = bf_Block c) \<or>
      (\<exists>c. cast5_NewCipher key = Inr c \<and> b = cast5_Block c)"
    "8 \<le> length src" "8 \<le> length dst" "8 \<le> length dst'"
  shows "((\<exists>c. xtea_NewCipher k = Inr c) \<longleftrightarrow> length k = 16) \<and> ((\<exists>c. bf_NewCipher k = Inr c) \<longleftrightarrow> length k \<in> {4..56}) \<and>
    ((\<exists>c. cast5_NewCipher k = Inr c) \<longleftrightarrow> length k = 16) \<and>
    (\<exists>e d. Encrypt b dst src = Some e \<and> Decrypt b dst' e = Some (take 8 src @ drop 8 dst') \<and>
      Decrypt b dst src = Some d \<and> Encrypt b dst' d = Some (take 8 src @ drop 8 dst') \<and>
      drop 8 e = drop 8 dst \<and> drop 8 d = drop 8 dst)"
proof -
  have "(\<exists>c. xtea_NewCipher k = Inr c) \<longleftrightarrow> length k = 16" "(\<exists>c. bf_NewCipher k = Inr c) \<longleftrightarrow> length k \<in> {4..56}"
    "(\<exists>c. cast5_NewCipher k = Inr c) \<longleftrightarrow> length k = 16"
    by (auto simp: xtea_NewCipher_def bf_NewCipher_def cast5_NewCipher_def Let_def)
  moreover have "\<exists>e d. Encrypt b dst src = Some e \<and> Decrypt b dst' e = Some (take 8 src @ drop 8 dst') \<and>
      Decrypt b dst src = Some d \<and> Encrypt b dst' d = Some (take 8 src @ drop 8 dst') \<and>
      drop 8 e = drop 8 dst \<and> drop 8 d = drop 8 dst"
    using assms(1) xtea_inverse [OF _ assms(2-4), of key] blowfish_inverse [OF _ assms(2-4), of key]
      cast5_inverse [OF _ assms(2-4), of key] by (elim disjE exE conjE) simp_all
  ultimately show ?thesis by (intro conjI)
qed

theorem word_ciphers_inverse_witness:
  "\<exists>c e. bf_NewCipher (str ''password'') = Inr c \<and> Encrypt (bf_Block c) (replicate 8 0) (str ''ABCDEFGH'') = Some e \<and>
    Decrypt (bf_Block c) (replicate 8 0) e = Some (str ''ABCDEFGH'')"
proof -
  obtain c where c: "bf_NewCipher (str ''password'') = Inr c" by (simp add: bf_NewCipher_def)
  then have "\<exists>c'. bf_NewCipher (str ''password'') = Inr c' \<and> bf_Block c = bf_Block c'" by (intro exI [of _ c] conjI refl)
  then show ?thesis
    using word_ciphers_inverse [of "str ''password''" "bf_Block c" "str ''ABCDEFGH''" "replicate 8 0" "replicate 8 0" "[]"] c by auto
qed

text \<open>
  C17. Round trip of CBC over every block cipher of the library: a fresh encrypter turns \<open>len\<close> bytes at \<open>s\<close>
  into bytes at \<open>d\<close> from which a fresh decrypter with the same vector restores them at \<open>e\<close>, for slices that
  are disjoint, equal, or overlap with the destination below the source. A length that is no multiple of the block
  size makes both panic.
\<close>

theorem CBC_roundtrip:
  assumes "b \<in> package_ciphers" "length iv = 8" "len \<le> dn" "len \<le> en"
    "safe_overlap (d, dn) (s, len)" "safe_overlap (e, en) (d, len)"
  shows "(len mod 8 = 0 \<longrightarrow> (\<exists>x m' y m''.
      cbcEncrypter_CryptBlocks (newCBC b iv) m (d, dn) (s, len) = Some (x, m') \<and>
      cbcDecrypter_CryptBlocks (newCBC b iv) m' (e, en) (d, len) = Some (y, m'') \<and>
      mread m'' e len = mread m s len)) \<and>
    (len mod 8 \<noteq> 0 \<longrightarrow>
      cbcEncrypter_CryptBlocks (newCBC b iv) m (d, dn) (s, len) = None \<and>
      cbcDecrypter_CryptBlocks (newCBC b iv) m (d, dn) (s, len) = None)"
proof -
  from package_contract [OF assms(1)] obtain E D where c: "block_contract b E D" and n: "BlockSize b = 8" .
  have "len mod 8 = 0 \<Longrightarrow> len = (len div 8) * BlockSize b" using n by (simp add: mod_eq_0_iff_dvd)
  then show ?thesis
    using block_contract.cbc_roundtrip [OF c, of iv len "len div 8" dn en d s e m] assms n
      block_contract.cbcEncrypter_partial_block [OF c, of "newCBC b iv" "(s, len)" m "(d, dn)"]
      block_contract.cbcDecrypter_partial_block [OF c, of "newCBC b iv" "(s, len)" m "(d, dn)"]
    by (auto simp: newCBC_def)
qed

theorem CBC_roundtrip_witness:
  "\<exists>x m' y m''. cbcEncrypter_CryptBlocks (newCBC (bf_Block (bf_expandKey (str ''secret''))) (str ''initvec.'')) (\<lambda>a. of_nat a) (0, 16) (0, 16) = Some (x, m') \<and>
    cbcDecrypter_CryptBlocks (newCBC (bf_Block (bf_expandKey (str ''secret''))) (str ''initvec.'')) m' (0, 16) (0, 16) = Some (y, m'') \<and>
    mread m'' 0 16 = [0, 1, 2, 3, 4, 5, 6, 7, 8, 9, 10, 11, 12, 13, 14, 15]"
  using CBC_roundtrip [of "bf_Block (bf_expandKey (str ''secret''))" "str ''initvec.''" 16 16 16 0 0 0 "\<lambda>a. of_nat a"]
  by (auto simp: package_ciphers_def safe_overlap_def mread_def upt_conv_Cons)

text \<open>
  C18. Round trip of the stream modes CFB, OFB and CTR over every block cipher of the library, with the vector
  of the block size. The data may be cut into pieces: any sequence of calls of \<open>XORKeyStream\<close> on consecutive pieces has
  the effect of one call on the whole, and the decrypter restores the data from any pieces of its own. For any other
  length of the vector the constructors of CFB and OFB return nil and \<open>NewCTR\<close> panics.
\<close>

theorem stream_roundtrip:
  assumes "b \<in> package_ciphers" "sum_list ks = len" "sum_list ls = len" "len \<le> dn" "len \<le> en"
    "safe_overlap (d, dn) (s, len)" "safe_overlap (e, en) (d, len)"
  shows "(length iv = 8 \<longrightarrow>
      (\<exists>x y x' m' y' m''. NewCFBEncrypter b iv = Some (Some x) \<and> NewCFBDecrypter b iv = Some (Some y) \<and>
        cfb_XORKeyStream x m (d, dn) (s, len) = Some (x', m') \<and> inPieces cfb_XORKeyStream x m (d, dn) s ks = Some (x', m') \<and>
        cfb_XORKeyStream y m' (e, en) (d, len) = Some (y', m'') \<and> inPieces cfb_XORKeyStream y m' (e, en) d ls = Some (y', m'') \<and>
        mread m'' e len = mread m s len) \<and>
      (\<exists>x x' m' y' m''. NewOFB b iv = Some (Some x) \<and>
        ofb_XORKeyStream x m (d, dn) (s, len) = Some (x', m') \<and> inPieces ofb_XORKeyStream x m (d, dn) s ks = Some (x', m') \<and>
        ofb_XORKeyStream x m' (e, en) (d, len) = Some (y', m'') \<and> inPieces ofb_XORKeyStream x m' (e, en) d ls = Some (y', m'') \<and>
        mread m'' e len = mread m s len) \<and>
      (\<exists>x x' m' y' m''. NewCTR b iv = Some x \<and>
        ctr_XORKeyStream x m (d, dn) (s, len) = Some (x', m') \<and> inPieces ctr_XORKeyStream x m (d, dn) s ks = Some (x', m') \<and>
        ctr_XORKeyStream x m' (e, en) (d, len) = Some (y', m'') \<and> inPieces ctr_XORKeyStream x m' (e, en) d ls = Some (y', m'') \<and>
        mread m'' e len = mread m s len)) \<and>
    (length iv \<noteq> 8 \<longrightarrow> NewCFBEncrypter b iv = Some None \<and> NewCFBDecrypter b iv = Some None \<and>
      NewOFB b iv = Some None \<and> NewCTR b iv = None)"
proof -
  from package_contract [OF assms(1)] obtain E D where c: "block_contract b E D" and n: "BlockSize b = 8" .
  have "length iv \<noteq> 8 \<Longrightarrow> NewCFBEncrypter b iv = Some None \<and> NewCFBDecrypter b iv = Some None \<and>
      NewOFB b iv = Some None \<and> NewCTR b iv = None"
    using n by (simp add: NewCFBEncrypter_def NewCFBDecrypter_def newCFB_def NewOFB_def NewCTR_def)
  then show ?thesis
    using block_contract.cfb_roundtrip [OF c _ assms(2-7), of iv m] block_contract.ofb_roundtrip [OF c _ assms(2-7), of iv m]
      block_contract.ctr_roundtrip [OF c _ assms(2-7), of iv m] n
    by presburger
qed

theorem stream_roundtrip_witness:
  "\<exists>x y x' m' y' m''. NewCFBEncrypter (xtea_Block \<lparr>xtea_table = replicate 64 1\<rparr>) (replicate 8 0) = Some (Some x) \<and>
    NewCFBDecrypter (xtea_Block \<lparr>xtea_table = replicate 64 1\<rparr>) (replicate 8 0) = Some (Some y) \<and>
    inPieces cfb_XORKeyStream x (\<lambda>a. of_nat a) (20, 5) 0 [2, 3] = Some (x', m') \<and>
    inPieces cfb_XORKeyStream y m' (20, 5) 20 [1, 0, 4] = Some (y', m'') \<and> mread m'' 20 5 = [0, 1, 2, 3, 4]"
proof -
  have "mread (\<lambda>a. of_nat a) 0 5 = [0, 1, 2, 3, 4]" by (simp add: mread_def upt_conv_Cons)
  then show ?thesis
    using stream_roundtrip [of "xtea_Block \<lparr>xtea_table = replicate 64 1\<rparr>" "[2, 3]" 5 "[1, 0, 4]" 5 5 20 0 20 "replicate 8 0" "\<lambda>a. of_nat a"]
    by (auto simp: package_ciphers_def safe_overlap_def simp del: inPieces.simps)
qed

text \<open>
  C19. OpenPGP's CFB over every block cipher of the library, with and without the resynchronisation step:
  the decrypter accepts the prefix the encrypter returned, decrypts it to the random data followed by its repeated
  last two bytes, and then restores what the encrypter wrote.
\<close>

theorem OCFB_roundtrip:
  assumes "b \<in> package_ciphers" "length randData = 8" "len \<le> dn" "len \<le> en"
    "safe_overlap (d, dn) (s, len)" "safe_overlap (e, en) (d, len)"
  shows "\<exists>x prefix y x' m' y' m''. NewOCFBEncrypter b randData resync = Some (Some (x, prefix)) \<and>
    NewOCFBDecrypter b prefix resync = Some (Some (y, randData @ drop 6 randData)) \<and>
    ocfbEncrypter_XORKeyStream x m (d, dn) (s, len) = Some (x', m') \<and>
    ocfbDecrypter_XORKeyStream y m' (e, en) (d, len) = Some (y', m'') \<and> mread m'' e len = mread m s len"
proof -
  from package_contract [OF assms(1)] obtain E D where c: "block_contract b E D" and n: "BlockSize b = 8" .
  then show ?thesis
    using block_contract.ocfb_roundtrip [OF c _ _ assms(3-6), of randData resync m] assms(2) by simp
qed

theorem OCFB_roundtrip_witness:
  "\<exists>x prefix y x' m' y' m''. NewOCFBEncrypter (des_Block des_zero) (str ''random..'') False = Some (Some (x, prefix)) \<and>
    NewOCFBDecrypter (des_Block des_zero) prefix False = Some (Some (y, str ''random....'')) \<and>
    ocfbEncrypter_XORKeyStream x (\<lambda>a. of_nat a) (0, 5) (0, 5) = Some (x', m') \<and>
    ocfbDecrypter_XORKeyStream y m' (0, 5) (0, 5) = Some (y', m'') \<and> mread m'' 0 5 = [0, 1, 2, 3, 4]"
  using OCFB_roundtrip [of "des_Block des_zero" "str ''random..''" 5 5 5 0 0 0 False "\<lambda>a. of_nat a"]
  by (simp add: package_ciphers_def safe_overlap_def mread_def upt_conv_Cons)

text \<open>
  C20. The key stream of CTR: byte \<open>i\<close> of the output is byte \<open>i\<close> of the input masked with byte \<open>i mod 8\<close> of the
  encryption of the block that holds, as a big-endian number, the initial counter plus \<open>i div 8\<close> modulo \<open>256 ^ 8\<close>.
\<close>

theorem CTR_keystream:
  assumes "b \<in> package_ciphers" "length iv = 8" "len \<le> dn" "safe_overlap (d, dn) (s, len)"
  shows "\<exists>x x' m'. NewCTR b iv = Some x \<and> ctr_XORKeyStream x m (d, dn) (s, len) = Some (x', m') \<and>
    (\<forall>i < len. \<exists>blk key. length blk = 8 \<and> be_val blk = (be_val iv + i div 8) mod 256 ^ 8 \<and>
      Encrypt b (replicate 8 0) blk = Some key \<and> m' (d + i) = m (s + i) XOR key ! (i mod 8))"
proof -
  from package_contract [OF assms(1)] obtain E D where c: "block_contract b E D" and n: "BlockSize b = 8" .
  let ?blk = "\<lambda>i. ((\<lambda>c. ctrIncr (length c) c) ^^ (i div 8)) iv"
  have key: "length (?blk i) = 8 \<and> be_val (?blk i) = (be_val iv + i div 8) mod 256 ^ 8 \<and>
      Encrypt b (replicate 8 0) (?blk i) = Some (E (?blk i)) \<and> ctr_key E 8 iv i = E (?blk i) ! (i mod 8)" for i
    using assms(2) n by (simp add: counter_val block_contract.Encrypt_block [OF c] ctr_key_def)
  obtain x x' m' where x: "NewCTR b iv = Some x" "ctr_XORKeyStream x m (d, dn) (s, len) = Some (x', m')"
      "\<And>i. i < len \<Longrightarrow> m' (d + i) = m (s + i) XOR ctr_key E 8 iv i"
    using block_contract.ctr_keystream [OF c _ assms(3,4), of iv m] assms(2) unfolding n by blast
  have "\<exists>blk key. length blk = 8 \<and> be_val blk = (be_val iv + i div 8) mod 256 ^ 8 \<and>
      Encrypt b (replicate 8 0) blk = Some key \<and> m' (d + i) = m (s + i) XOR key ! (i mod 8)" if "i < len" for i
    using key [of i] x(3) [OF that] by (intro exI [of _ "?blk i"] exI [of _ "E (?blk i)"]) simp
  then show ?thesis using x(1,2) by blast
qed

theorem CTR_keystream_witness:
  "\<exists>x x' m'. NewCTR (des_Block des_zero) [255, 255, 255, 255, 255, 255, 255, 255] = Some x \<and>
    ctr_XORKeyStream x (\<lambda>a. of_nat a) (0, 20) (0, 20) = Some (x', m') \<and>
    (\<exists>blk key. length blk = 8 \<and> be_val blk = 1 \<and> Encrypt (des_Block des_zero) (replicate 8 0) blk = Some key \<and>
      m' 17 = 17 XOR key ! 1)"
proof -
  have iv: "be_val [255, 255, 255, 255, 255, 255, 255, 255] = 256 ^ 8 - 1" by (simp add: be_val_def)
  obtain x x' m' where x: "NewCTR (des_Block des_zero) [255, 255, 255, 255, 255, 255, 255, 255] = Some x"
      "ctr_XORKeyStream x (\<lambda>a. of_nat a) (0, 20) (0, 20) = Some (x', m')"
      "\<forall>i < 20. \<exists>blk key. length blk = 8 \<and> be_val blk = (be_val [255, 255, 255, 255, 255, 255, 255, 255] + i div 8) mod 256 ^ 8 \<and>
        Encrypt (des_Block des_zero) (replicate 8 0) blk = Some key \<and> m' (0 + i) = of_nat (0 + i) XOR key ! (i mod 8)"
    using CTR_keystream [of "des_Block des_zero" "[255, 255, 255, 255, 255, 255, 255, 255]" 20 20 0 0 "\<lambda>a. of_nat a"]
    by (auto simp: package_ciphers_def safe_overlap_def)
  from x(3) [rule_format, of 17] show ?thesis using x(1,2) unfolding iv by force
qed

text \<open>
  C21. \<open>StreamWriter.Write\<close> reports a short write of the writer below it, but does not remember it: the
  receiver is a copy, and the field \<open>Err\<close> that the next call tests is the one the caller made. After the failure the
  stream has moved past all bytes of the source, and the next call encrypts and writes from there.
\<close>

theorem StreamWriter_forgets_error:
  assumes "sw_Err w = None" "run step (sw_S w) src = Some (s, c)" "wr (sw_W w) c = (u, n, err)" "n < length src"
  shows "\<exists>w' e. StreamWriter_Write (byteLoop step) wr E w src = Some (w', n, Some e) \<and> sw_Err w' = None \<and> sw_S w' = s \<and>
    (\<forall>src2 s2 c2 u2 n2. run step s src2 = Some (s2, c2) \<and> wr u c2 = (u2, n2, None) \<and> n2 = length src2 \<longrightarrow>
      (\<exists>w2. StreamWriter_Write (byteLoop step) wr E w' src2 = Some (w2, n2, None) \<and> sw_W w2 = u2))"
  using assms by (cases err) (auto simp: StreamWriter_Write_def streamCopy_run)

theorem StreamWriter_forgets_error_witness:
  "\<exists>w' e. StreamWriter_Write (byteLoop (\<lambda>k c. Some (k + 1, c XOR k))) (\<lambda>b c. if b then (False, 0, Some ()) else (b, length c, None)) ()
      \<lparr>sw_S = 1, sw_W = True, sw_Err = None\<rparr> [5, 6, 7] = Some (w', 0, Some e) \<and> sw_Err w' = None \<and> sw_S w' = 4"
  using StreamWriter_forgets_error [of "\<lparr>sw_S = 1, sw_W = True, sw_Err = None\<rparr>" "\<lambda>k c. Some (k + 1, c XOR k)" "[5, 6, 7]"
    4 "[5 XOR 1, 6 XOR 2, 7 XOR 3]" "\<lambda>b c. if b then (False, 0, Some ()) else (b, length c, None)" False 0 "Some ()" "()"]
  by auto

end
