(* ===== verification/Hash_Interface.thy ===== *)
theory Hash_Interface
  imports Go_Memory
begin

text \<open>
  The interface hash.Hash of hash/hash.go: a constructor and the methods of a hash whose state has the
  type \<open>'s\<close>, what they promise (\<open>hash_laws\<close>), and sequences of calls.
\<close>

section \<open>The interface\<close>

text \<open>
  \<open>Write\<close> returns the number of bytes written and never an error; \<open>Sum\<close> may change the state, and
  \<open>None\<close> is a panic of \<open>Sum\<close> or \<open>Reset\<close>. \<open>hash_New\<close> is the value the constructor of a package returns.
\<close>

record 's Hash =
  hash_New :: 's
  hash_Write :: "'s \<Rightarrow> byte list \<Rightarrow> 's \<times> nat"
  hash_Sum :: "'s \<Rightarrow> ('s \<times> byte list) option"
  hash_Reset :: "'s \<Rightarrow> 's option"
  hash_Size :: "'s \<Rightarrow> nat"

text \<open>The calls a client makes, and what the calls of \<open>Sum\<close> among them return.\<close>

datatype hash_call = Call_Write "byte list" | Call_Sum | Call_Reset

fun hash_run :: "'s Hash \<Rightarrow> 's \<Rightarrow> hash_call list \<Rightarrow> byte list list option" where
  "hash_run H s [] = Some []"
| "hash_run H s (Call_Write p # cs) = hash_run H (fst (hash_Write H s p)) cs"
| "hash_run H s (Call_Sum # cs) = do { (s', b) \<leftarrow> hash_Sum H s; bs \<leftarrow> hash_run H s' cs; Some (b # bs) }"
| "hash_run H s (Call_Reset # cs) = do { s' \<leftarrow> hash_Reset H s; hash_run H s' cs }"

text \<open>
  The specification: a call of \<open>Sum\<close> returns the hash of all bytes written since the last \<open>Reset\<close>, in
  whatever pieces they were written and whatever other calls of \<open>Sum\<close> were made.
\<close>

fun hash_spec :: "(byte list \<Rightarrow> byte list) \<Rightarrow> byte list \<Rightarrow> hash_call list \<Rightarrow> byte list list" where
  "hash_spec f m [] = []"
| "hash_spec f m (Call_Write p # cs) = hash_spec f (m @ p) cs"
| "hash_spec f m (Call_Sum # cs) = f m # hash_spec f m cs"
| "hash_spec f m (Call_Reset # cs) = hash_spec f [] cs"

section \<open>The contract\<close>

text \<open>\<open>rep s m\<close>: the state \<open>s\<close> is that of a hash to which \<open>m\<close> has been written.\<close>

locale hash_laws =
  fixes H :: "'s Hash" and rep :: "'s \<Rightarrow> byte list \<Rightarrow> bool" and f :: "byte list \<Rightarrow> byte list" and size_f :: nat
  assumes New_rep: "rep (hash_New H) []"
    and Write_rep: "rep s m \<Longrightarrow> rep (fst (hash_Write H s p)) (m @ p)"
    and Write_count: "snd (hash_Write H s p) = length p"
    and Sum_rep: "rep s m \<Longrightarrow> \<exists>s'. hash_Sum H s = Some (s', f m) \<and> rep s' m"
    and Reset_rep: "rep s m \<Longrightarrow> \<exists>s'. hash_Reset H s = Some s' \<and> rep s' []"
    and Size_rep: "rep s m \<Longrightarrow> hash_Size H s = size_f"
    and length_f: "length (f m) = size_f"
begin

lemma run_spec: "rep s m \<Longrightarrow> hash_run H s cs = Some (hash_spec f m cs)"
proof (induction cs arbitrary: s m)
  case (Cons c cs)
  show ?case
  proof (cases c)
    case Call_Sum
    obtain s' where "hash_Sum H s = Some (s', f m)" "rep s' m" using Sum_rep [OF Cons.prems] by blast
    then show ?thesis using Cons.IH Call_Sum by simp
  next
    case Call_Reset
    obtain s' where "hash_Reset H s = Some s'" "rep s' []" using Reset_rep [OF Cons.prems] by blast
    then show ?thesis using Cons.IH Call_Reset by simp
  qed (use Cons Write_rep in auto)
qed simp

lemma New_run: "hash_run H (hash_New H) cs = Some (hash_spec f [] cs)"
  by (rule run_spec) (rule New_rep)

end

end
