(* ===== verification/Digest.thy ===== *)
theory Digest
  imports Hash_Interface
begin

text \<open>
  The part the digests of md4, md5, ripemd160, sha1, sha256 and sha512 have in common. The methods
  \<open>Write\<close> and \<open>Sum\<close> are the same text in these packages up to the size of a chunk, the place and the
  byte order of the length, and the compression of one chunk, which are here the fields of a
  record; the packages' theories fill them in. \<open>hash_contract\<close> is what the fields have to satisfy.
\<close>

section \<open>The code\<close>

record 'h hash_code =
  hc_chunk :: nat
  hc_off :: nat
  hc_init :: 'h
  hc_step :: "'h \<Rightarrow> byte list \<Rightarrow> 'h"
  hc_trailer :: "uint64 \<Rightarrow> byte list"
  hc_out :: "'h \<Rightarrow> byte list"

record 'h digest =
  dg_h :: 'h
  dg_x :: "byte list"
  dg_nx :: nat
  dg_len :: uint64

text \<open>\<open>_Block\<close>: compresses the whole chunks of \<open>p\<close> and returns their length.\<close>

function digest_Block :: "'h hash_code \<Rightarrow> 'h \<Rightarrow> byte list \<Rightarrow> 'h \<times> nat" where
  "digest_Block H h p =
     (if hc_chunk H \<le> length p \<and> 0 < hc_chunk H
      then let (h', n) = digest_Block H (hc_step H h (take (hc_chunk H) p)) (drop (hc_chunk H) p) in (h', n + hc_chunk H)
      else (h, 0))"
  by pat_completeness auto

termination
  by (relation "measure (\<lambda>(H, h, p). length p)") auto

declare digest_Block.simps [simp del]

definition digest_Reset :: "'h hash_code \<Rightarrow> 'h digest \<Rightarrow> 'h digest" where
  "digest_Reset H d = d\<lparr>dg_h := hc_init H, dg_nx := 0, dg_len := 0\<rparr>"

definition digest_New :: "'h hash_code \<Rightarrow> 'h digest" where
  "digest_New H = digest_Reset H \<lparr>dg_h = hc_init H, dg_x = replicate (hc_chunk H) 0, dg_nx = 0, dg_len = 0\<rparr>"

text \<open>
  The branch of \<open>Write\<close> that tops up the buffer, with the copying loop, what follows it, and the whole. The
  array \<open>d.x\<close> always has the length of a chunk, so that the stores are in range.
\<close>

definition digest_fill :: "'h hash_code \<Rightarrow> 'h digest \<Rightarrow> byte list \<Rightarrow> 'h digest \<times> byte list" where
  "digest_fill H d p =
    (let n = (if length p > hc_chunk H - dg_nx d then hc_chunk H - dg_nx d else length p);
         x = fold (\<lambda>i x. x[dg_nx d + i := p ! i]) [0..<n] (dg_x d);
         d = d\<lparr>dg_x := x, dg_nx := dg_nx d + n\<rparr>;
         d = (if dg_nx d = hc_chunk H then d\<lparr>dg_h := fst (digest_Block H (dg_h d) (dg_x d)), dg_nx := 0\<rparr> else d)
     in (d, drop n p))"

definition digest_rest :: "'h hash_code \<Rightarrow> 'h digest \<Rightarrow> byte list \<Rightarrow> 'h digest" where
  "digest_rest H d p =
    (let (h, n) = digest_Block H (dg_h d) p;
         d = d\<lparr>dg_h := h\<rparr>;
         p = drop n p
     in if length p > 0
        then d\<lparr>dg_x := take (length (dg_x d)) p @ drop (length p) (dg_x d), dg_nx := min (length (dg_x d)) (length p)\<rparr>
        else d)"

definition digest_Write :: "'h hash_code \<Rightarrow> 'h digest \<Rightarrow> byte list \<Rightarrow> 'h digest \<times> nat" where
  "digest_Write H d p =
    (let nn = length p;
         d = d\<lparr>dg_len := dg_len d + of_nat nn\<rparr>;
         (d, p) = (if dg_nx d > 0 then digest_fill H d p else (d, p))
     in (digest_rest H d p, nn))"

text \<open>\<open>Sum\<close>; \<open>None\<close> is the panic at its end, or a slice expression beyond the array \<open>tmp\<close>.\<close>

definition digest_Sum :: "'h hash_code \<Rightarrow> 'h digest \<Rightarrow> byte list option" where
  "digest_Sum H d0 = do {
     let len = dg_len d0;
     let chunk = of_nat (hc_chunk H);
     let off = of_nat (hc_off H);
     let tmp = 0x80 # replicate (hc_chunk H - 1) 0;
     let k = unat (if len mod chunk < off then off - len mod chunk else chunk + off - len mod chunk);
     if k > length tmp then None
     else do {
       let d = fst (digest_Write H d0 (take k tmp));
       let d = fst (digest_Write H d (hc_trailer H (push_bit 3 len)));
       if dg_nx d \<noteq> 0 then None else Some (hc_out H (dg_h d)) } }"

section \<open>Reference\<close>

text \<open>
  The hash of a message: the message is padded with a one bit, zero bits and its length in bits to a multiple
  of the chunk size, and its chunks are compressed in order.
\<close>

definition hash_padding :: "'h hash_code \<Rightarrow> nat \<Rightarrow> byte list" where
  "hash_padding H n =
    (let r = n mod hc_chunk H;
         k = (if r < hc_off H then hc_off H - r else hc_chunk H + hc_off H - r)
     in 0x80 # replicate (k - 1) 0 @ hc_trailer H (of_nat (8 * n)))"

definition hash_of :: "'h hash_code \<Rightarrow> byte list \<Rightarrow> byte list" where
  "hash_of H m = hc_out H (fst (digest_Block H (hc_init H) (m @ hash_padding H (length m))))"

section \<open>Whole chunks\<close>

locale hash_contract =
  fixes H :: "'h hash_code"
  assumes off_pos: "0 < hc_off H"
    and off_less: "hc_off H < hc_chunk H"
    and chunk_dvd: "hc_chunk H dvd 2 ^ 64"
    and chunk_small: "hc_chunk H < 2 ^ 32"
    and length_trailer: "length (hc_trailer H v) = hc_chunk H - hc_off H"
begin

abbreviation "C \<equiv> hc_chunk H"

lemma chunk_pos: "0 < C"
  using off_less by simp

lemma Block_short: "length p < C \<Longrightarrow> digest_Block H h p = (h, 0)"
  by (simp add: digest_Block.simps)

lemma Block_step: "C \<le> length p \<Longrightarrow> digest_Block H h p =
  (let (h', n) = digest_Block H (hc_step H h (take C p)) (drop C p) in (h', n + C))"
  using chunk_pos by (subst digest_Block.simps) simp

lemma Block_append:
  "C dvd length m \<Longrightarrow> digest_Block H h (m @ p) =
    (let (h', n) = digest_Block H (fst (digest_Block H h m)) p in (h', length m + n))"
proof (induction "length m" arbitrary: h m rule: less_induct)
  case less
  show ?case
  proof (cases "m = []")
    case True
    then show ?thesis using Block_short [of "[]"] chunk_pos by simp
  next
    case False
    then have C: "C \<le> length m" using less.prems by (simp add: dvd_imp_le)
    have "C dvd length (drop C m)" using less.prems by simp
    then show ?thesis
      using less.hyps [of "drop C m" "hc_step H h (take C m)"] C chunk_pos Block_step [of "m @ p" h] Block_step [of m h]
      by (auto simp: Let_def split: prod.splits)
  qed
qed

lemma Block_count: "snd (digest_Block H h p) = C * (length p div C)"
proof (induction "length p" arbitrary: h p rule: less_induct)
  case less
  show ?case
  proof (cases "C \<le> length p")
    case True
    have "C * (length p div C) = C * (length (drop C p) div C) + C"
      using True chunk_pos by (simp add: le_div_geq)
    then show ?thesis
      using less [of "drop C p" "hc_step H h (take C p)"] True chunk_pos Block_step [OF True, of h]
      by (auto simp: Let_def split: prod.splits)
  next
    case False
    then show ?thesis by (simp add: Block_short)
  qed
qed

text \<open>Compressing a message only reads its whole chunks.\<close>

lemma Block_whole: "C dvd length m \<Longrightarrow> length r < C \<Longrightarrow> fst (digest_Block H h (m @ r)) = fst (digest_Block H h m)"
  by (simp add: Block_append Block_short)

end

section \<open>Writing\<close>

text \<open>
  \<open>digest_repr H d m\<close>: the digest has been given the message \<open>m\<close>. The whole chunks of \<open>m\<close> are
  compressed, and the buffer holds the rest.
\<close>

definition digest_repr :: "'h hash_code \<Rightarrow> 'h digest \<Rightarrow> byte list \<Rightarrow> bool" where
  "digest_repr H d m \<longleftrightarrow> (\<exists>m0 r. m = m0 @ r \<and> hc_chunk H dvd length m0 \<and> length r < hc_chunk H \<and>
     length (dg_x d) = hc_chunk H \<and> dg_nx d = length r \<and> take (length r) (dg_x d) = r \<and>
     dg_h d = fst (digest_Block H (hc_init H) m0) \<and> dg_len d = of_nat (length m))"

lemma copy_loop:
  "k + n \<le> length x \<Longrightarrow> n \<le> length p \<Longrightarrow>
   fold (\<lambda>i x. x[k + i := p ! i]) [0..<n] x = take k x @ take n p @ drop (k + n) x"
proof (induction n)
  case (Suc n)
  then show ?case
    by (simp add: list_update_append take_Suc_conv_app_nth Cons_nth_drop_Suc [symmetric])
qed simp

context hash_contract
begin

lemma New_repr: "digest_repr H (digest_New H) []"
  using chunk_pos Block_short [of "[]"] by (simp add: digest_repr_def digest_New_def digest_Reset_def)

lemma Reset_repr: "digest_repr H d m \<Longrightarrow> digest_repr H (digest_Reset H d) []"
  using chunk_pos Block_short [of "[]"] by (auto simp: digest_repr_def digest_Reset_def)

lemma rest_repr:
  assumes "C dvd length m" "length (dg_x d) = C" "dg_nx d = 0" "dg_h d = fst (digest_Block H (hc_init H) m)"
    "dg_len d = of_nat (length (m @ p))"
  shows "digest_repr H (digest_rest H d p) (m @ p)"
proof -
  define n where "n = C * (length p div C)"
  obtain h where B: "digest_Block H (dg_h d) p = (h, n)"
    using Block_count [of "dg_h d" p] by (metis n_def prod.collapse)
  have n: "n \<le> length p" "length p - n < C" "C dvd n"
    using chunk_pos by (auto simp: n_def minus_mult_div_eq_mod)
  have "h = fst (digest_Block H (dg_h d) (take n p @ drop n p))" using B by simp
  also have "\<dots> = fst (digest_Block H (dg_h d) (take n p))" using n by (intro Block_whole) simp_all
  also have "\<dots> = fst (digest_Block H (hc_init H) (m @ take n p))"
    using assms(1,4) by (simp add: Block_append case_prod_unfold Let_def)
  finally have h: "h = fst (digest_Block H (hc_init H) (m @ take n p))" .
  show ?thesis
    unfolding digest_repr_def
    using B n h assms
    by (intro exI [of _ "m @ take n p"] exI [of _ "drop n p"]) (auto simp: digest_rest_def Let_def)
qed

lemma fill_repr:
  assumes "m = m0 @ r" "C dvd length m0" "length r < C" "length (dg_x d) = C" "dg_nx d = length r" "take (length r) (dg_x d) = r"
    "dg_h d = fst (digest_Block H (hc_init H) m0)" "dg_len d = of_nat (length (m @ p))"
  shows "digest_repr H (case digest_fill H d p of (d, p) \<Rightarrow> digest_rest H d p) (m @ p)"
proof -
  define n where "n = (if length p > C - length r then C - length r else length p)"
  define x where "x = fold (\<lambda>i x. x[length r + i := p ! i]) [0..<n] (dg_x d)"
  have n: "n \<le> length p" "length r + n \<le> C" using assms by (auto simp: n_def)
  have x: "x = r @ take n p @ drop (length r + n) (dg_x d)"
    unfolding x_def using copy_loop [of "length r" n "dg_x d" p] n assms by simp
  show ?thesis
  proof (cases "length r + n = C")
    case True
    have full: "x = r @ take n p" "length x = C" using x True assms(4) n by simp_all
    let ?m = "m0 @ x"
    let ?d = "d\<lparr>dg_x := x, dg_nx := 0, dg_h := fst (digest_Block H (dg_h d) x)\<rparr>"
    have "fst (digest_Block H (dg_h d) x) = fst (digest_Block H (hc_init H) ?m)"
      using assms(2,7) by (simp add: Block_append case_prod_unfold Let_def)
    moreover have "m @ p = ?m @ drop n p" using assms(1) full by simp
    moreover have "C dvd length ?m" using assms(2) full by simp
    ultimately have "digest_repr H (digest_rest H ?d (drop n p)) (m @ p)"
      using rest_repr [of ?m ?d "drop n p"] full assms(8) by simp
    moreover have "digest_fill H d p = (?d, drop n p)"
      unfolding digest_fill_def Let_def assms(5) n_def [symmetric] x_def [symmetric] using True by simp
    ultimately show ?thesis by simp
  next
    case False
    then have all: "n = length p" "length (r @ p) < C" using n by (auto simp: n_def split: if_splits)
    have "digest_fill H d p = (d\<lparr>dg_x := x, dg_nx := length (r @ p)\<rparr>, [])"
      unfolding digest_fill_def Let_def assms(5) n_def [symmetric] x_def [symmetric] using False all by simp
    moreover have "digest_rest H d' [] = d'" for d' :: "'h digest"
      using chunk_pos by (simp add: digest_rest_def Let_def Block_short)
    ultimately show ?thesis
      unfolding digest_repr_def
      using all x assms by (intro exI [of _ m0] exI [of _ "r @ p"]) auto
  qed
qed

lemma Write_count: "snd (digest_Write H d p) = length p"
  by (simp add: digest_Write_def case_prod_unfold Let_def)

lemma Write_repr: "digest_repr H d m \<Longrightarrow> digest_repr H (fst (digest_Write H d p)) (m @ p)"
proof -
  assume "digest_repr H d m"
  then obtain m0 r where r: "m = m0 @ r" "C dvd length m0" "length r < C" "length (dg_x d) = C" "dg_nx d = length r"
      "take (length r) (dg_x d) = r" "dg_h d = fst (digest_Block H (hc_init H) m0)" "dg_len d = of_nat (length m)"
    unfolding digest_repr_def by blast
  let ?d = "d\<lparr>dg_len := dg_len d + of_nat (length p)\<rparr>"
  show ?thesis
  proof (cases "r = []")
    case True
    then have "fst (digest_Write H d p) = digest_rest H ?d p" using r(5) by (simp add: digest_Write_def Let_def)
    then show ?thesis using rest_repr [of m ?d p] r True by simp
  next
    case False
    then have "fst (digest_Write H d p) = (case digest_fill H ?d p of (d, p) \<Rightarrow> digest_rest H d p)"
      using r(5) by (simp add: digest_Write_def Let_def case_prod_unfold)
    then show ?thesis using fill_repr [of m m0 r ?d p] r by simp
  qed
qed

lemma repr_whole:
  assumes "digest_repr H d m" "C dvd length m"
  shows "dg_nx d = 0" "dg_h d = fst (digest_Block H (hc_init H) m)"
proof -
  obtain m0 r where r: "m = m0 @ r" "C dvd length m0" "length r < C" "dg_nx d = length r"
      "dg_h d = fst (digest_Block H (hc_init H) m0)"
    using assms(1) unfolding digest_repr_def by blast
  then have "C dvd length r" using assms(2) by (simp add: dvd_add_right_iff)
  then have "r = []" using r(3) by (auto dest: dvd_imp_le)
  then show "dg_nx d = 0" "dg_h d = fst (digest_Block H (hc_init H) m)" using r by simp_all
qed

lemma repr_len: "digest_repr H d m \<Longrightarrow> dg_len d = of_nat (length m)"
  by (auto simp: digest_repr_def)

text \<open>The number of bytes of padding that precede the length, computed by \<open>Sum\<close> on 64-bit words.\<close>

abbreviation "pad_len n \<equiv> (if n mod C < hc_off H then hc_off H - n mod C else C + hc_off H - n mod C)"

lemma pad_len_word:
  "unat (if of_nat n mod of_nat C < (of_nat (hc_off H) :: uint64) then of_nat (hc_off H) - of_nat n mod of_nat C
         else of_nat C + of_nat (hc_off H) - of_nat n mod (of_nat C :: uint64)) = pad_len n"
proof -
  have C: "unat (of_nat C :: uint64) = C" "unat (of_nat (hc_off H) :: uint64) = hc_off H"
    "unat (of_nat C + of_nat (hc_off H) :: uint64) = C + hc_off H"
    using chunk_small off_less by (simp_all add: unat_of_nat unat_word_ariths)
  have r: "unat (of_nat n mod of_nat C :: uint64) = n mod C"
    using chunk_dvd by (simp only: unat_mod C) (simp add: unat_of_nat mod_mod_cancel)
  have "n mod C < C" using chunk_pos by simp
  then show ?thesis
    using C r by (auto simp: word_less_nat_alt unat_sub word_le_nat_alt)
qed

lemma pad_len_bounds: "0 < pad_len n" "pad_len n \<le> C"
  using off_pos off_less mod_less_divisor [OF chunk_pos, of n] by (simp_all split: if_splits del: mod_less_divisor) arith+

lemma padding_whole: "C dvd length (m @ hash_padding H (length m))"
proof -
  let ?r = "length m mod C"
  have "length (m @ hash_padding H (length m)) = length m + pad_len (length m) + (C - hc_off H)"
    using pad_len_bounds(1) [of "length m"] by (simp add: hash_padding_def Let_def length_trailer)
  also have "\<dots> = (length m - ?r) + (if ?r < hc_off H then C else C + C)"
    using off_less mod_less_divisor [OF chunk_pos, of "length m"] mod_less_eq_dividend [of "length m" C]
    by (simp del: mod_less_divisor mod_less_eq_dividend)
  finally show ?thesis by (simp only:) (intro dvd_add dvd_minus_mod, simp)
qed

text \<open>\<open>Sum\<close> returns, and returns the hash of what has been written.\<close>

lemma Sum_repr:
  assumes "digest_repr H d m"
  shows "digest_Sum H d = Some (hash_of H m)"
proof -
  let ?k = "pad_len (length m)"
  let ?pad = "0x80 # replicate (?k - 1) 0 :: byte list"
  let ?t = "hc_trailer H (of_nat (8 * length m))"
  let ?d1 = "fst (digest_Write H d ?pad)"
  let ?d2 = "fst (digest_Write H ?d1 ?t)"
  have k: "0 < ?k" "?k \<le> C" by (rule pad_len_bounds)+
  have "digest_repr H ?d2 ((m @ ?pad) @ ?t)" by (intro Write_repr assms)
  moreover have pad: "(m @ ?pad) @ ?t = m @ hash_padding H (length m)"
    by (simp add: hash_padding_def Let_def)
  ultimately have d2: "dg_nx ?d2 = 0" "hc_out H (dg_h ?d2) = hash_of H m"
    using repr_whole [OF _ padding_whole] by (simp_all add: hash_of_def)
  have t: "push_bit 3 (of_nat (length m) :: uint64) = of_nat (8 * length m)"
    by (simp add: push_bit_eq_mult mult.commute)
  have tmp: "take ?k (0x80 # replicate (C - 1) 0 :: byte list) = ?pad"
    using k by (simp add: take_Cons' min_def)
  show ?thesis
    unfolding digest_Sum_def Let_def repr_len [OF assms] pad_len_word t tmp
    using k d2 by simp
qed

end

section \<open>The interface\<close>

definition digest_Hash :: "'h hash_code \<Rightarrow> nat \<Rightarrow> 'h digest Hash" where
  "digest_Hash H sz = \<lparr>hash_New = digest_New H, hash_Write = digest_Write H,
     hash_Sum = \<lambda>d. map_option (Pair d) (digest_Sum H d), hash_Reset = \<lambda>d. Some (digest_Reset H d), hash_Size = \<lambda>d. sz\<rparr>"

locale sized_hash = hash_contract +
  fixes size_f :: nat
  assumes length_out: "length (hc_out H (hc_step H h p)) = size_f"
begin

lemma Block_last:
  assumes "C dvd length m" "m \<noteq> []"
  shows "\<exists>h' p. fst (digest_Block H h m) = hc_step H h' p"
proof -
  have len: "C \<le> length m" using assms by (simp add: dvd_imp_le)
  let ?m = "take (length m - C) m" and ?p = "drop (length m - C) m"
  have "C dvd length ?m" using assms(1) by simp
  then have "fst (digest_Block H h (?m @ ?p)) = fst (digest_Block H (fst (digest_Block H h ?m)) ?p)"
    by (simp only: Block_append) (simp add: case_prod_unfold Let_def)
  also have "\<dots> = hc_step H (fst (digest_Block H h ?m)) ?p"
    using len chunk_pos Block_short [of "[]"] by (subst Block_step) (auto simp: case_prod_unfold Let_def)
  finally show ?thesis by auto
qed

lemma length_hash_of: "length (hash_of H m) = size_f"
proof -
  have "m @ hash_padding H (length m) \<noteq> []" by (simp add: hash_padding_def Let_def)
  then obtain h p where "fst (digest_Block H (hc_init H) (m @ hash_padding H (length m))) = hc_step H h p"
    using Block_last [OF padding_whole] by blast
  then show ?thesis by (simp add: hash_of_def length_out)
qed

end

sublocale sized_hash \<subseteq> laws: hash_laws "digest_Hash H size_f" "digest_repr H" "hash_of H" size_f
  by unfold_locales
    (auto simp: digest_Hash_def New_repr Write_repr Reset_repr Sum_repr length_hash_of Write_count)

end
