(* ===== verification/Digest_Words.thy ===== *)
theory Digest_Words
  imports Digest
begin

text \<open>
  The expressions the hash packages share: reading a chunk as words, writing words as bytes, and
  rotating a word.
\<close>

unbundle bit_operations_syntax

section \<open>The code\<close>

text \<open>The loop that fills \<open>X\<close> of md4, md5 and ripemd160, and the one that fills \<open>w\<close> of sha1 and sha256.\<close>

definition le_words :: "byte list \<Rightarrow> uint32 list" where
  "le_words p = map (\<lambda>i. let j = 4 * i in
     ucast (p ! j) OR push_bit 8 (ucast (p ! (j + 1))) OR push_bit 16 (ucast (p ! (j + 2))) OR
     push_bit 24 (ucast (p ! (j + 3)))) [0..<16]"

definition be_words :: "byte list \<Rightarrow> uint32 list" where
  "be_words p = map (\<lambda>i. let j = i * 4 in
     push_bit 24 (ucast (p ! j)) OR push_bit 16 (ucast (p ! (j + 1))) OR push_bit 8 (ucast (p ! (j + 2))) OR
     ucast (p ! (j + 3))) [0..<16]"

text \<open>The loops that write the length, and the loops that write the result.\<close>

definition le_length :: "uint64 \<Rightarrow> byte list" where
  "le_length len = map (\<lambda>i. ucast (drop_bit (8 * i) len)) [0..<8]"

definition be_length :: "uint64 \<Rightarrow> byte list" where
  "be_length len = map (\<lambda>i. ucast (drop_bit (56 - 8 * i) len)) [0..<8]"

definition le_result :: "uint32 list \<Rightarrow> byte list" where
  "le_result h = concat (map (\<lambda>s. [ucast s, ucast (drop_bit 8 s), ucast (drop_bit 16 s), ucast (drop_bit 24 s)]) h)"

definition be_result :: "uint32 list \<Rightarrow> byte list" where
  "be_result h = concat (map (\<lambda>s. [ucast (drop_bit 24 s), ucast (drop_bit 16 s), ucast (drop_bit 8 s), ucast s]) h)"

text \<open>\<open>a<<s | a>>(32-s)\<close>\<close>

definition rotl32 :: "nat \<Rightarrow> uint32 \<Rightarrow> uint32" where
  "rotl32 s a = push_bit s a OR drop_bit (32 - s) a"

section \<open>Facts\<close>

lemma length_words [simp]: "length (le_words p) = 16" "length (be_words p) = 16"
  by (simp_all add: le_words_def be_words_def)

lemma length_length [simp]: "length (le_length v) = 8" "length (be_length v) = 8"
  by (simp_all add: le_length_def be_length_def)

lemma length_result [simp]: "length (le_result h) = 4 * length h" "length (be_result h) = 4 * length h"
  by (induction h) (simp_all add: le_result_def be_result_def)

section \<open>Rotations\<close>

lemma rotl_bits:
  assumes "0 < s" "s < LENGTH('w::len)" "L = LENGTH('w)"
  shows "push_bit s a OR drop_bit (L - s) a = word_rotl s (a :: 'w word)"
proof (rule bit_word_eqI)
  fix n assume n: "n < LENGTH('w)"
  have "(n + (L - s)) mod L = (if n < s then n + (L - s) else n - s)"
    using assms n by (simp add: mod_if)
  moreover have "\<not> n < s \<Longrightarrow> \<not> bit a (n + (L - s))"
    using assms by (auto dest: bit_imp_le_length)
  ultimately show "bit (push_bit s a OR drop_bit (L - s) a) n \<longleftrightarrow> bit (word_rotl s a) n"
    using assms n by (auto simp: bit_word_rotl_iff bit_or_iff bit_push_bit_iff bit_drop_bit_eq add.commute)
qed

lemma rotr_bits:
  assumes "s + t = LENGTH('w::len)" "0 < s" "0 < t"
  shows "drop_bit s a OR push_bit t a = word_rotr s (a :: 'w word)"
proof -
  have "s = LENGTH('w) - t" using assms(1) by simp
  then show ?thesis
    using rotl_bits [of t "LENGTH('w)" a] assms by (simp add: word_rotl_eq_word_rotr or.commute)
qed

lemma rotl32_rotl: "0 < s \<Longrightarrow> s < 32 \<Longrightarrow> rotl32 s a = word_rotl s a"
  by (simp add: rotl32_def rotl_bits)

text \<open>A loop that fills an array from index \<open>k\<close> on, each entry from the ones before it.\<close>

lemma schedule_fold:
  assumes "\<And>i w. k \<le> i \<Longrightarrow> i < n \<Longrightarrow> length w = N \<Longrightarrow> (\<And>j. j < i \<Longrightarrow> w ! j = W j) \<Longrightarrow> f i w = w[i := W i]"
    and "length w = N" "n \<le> N" "\<And>j. j < k \<Longrightarrow> w ! j = W j" "k \<le> n"
  shows "length (fold f [k..<n] w) = N \<and> (\<forall>j<n. fold f [k..<n] w ! j = W j)"
  using assms(5,1,3)
proof (induction n rule: dec_induct)
  case base
  then show ?case using assms by simp
next
  case (step n)
  let ?w = "fold f [k..<n] w"
  have IH: "length ?w = N" "\<And>j. j < n \<Longrightarrow> ?w ! j = W j" using step by simp_all
  then have "f n ?w = ?w[n := W n]" using step by simp
  then show ?case using IH step by (simp add: nth_list_update less_Suc_eq)
qed

end
