(* ===== verification/Crypto_Md4.thy ===== *)
theory Crypto_Md4
  imports Digest_Words
begin

text \<open>crypto/md4: md4.go and md4block.go.\<close>

unbundle bit_operations_syntax

section \<open>The block step\<close>

definition md4_shift1 :: "nat list" where
  "md4_shift1 = [
     3, 7, 11, 19]"

definition md4_shift2 :: "nat list" where
  "md4_shift2 = [
     3, 5, 9, 13]"

definition md4_shift3 :: "nat list" where
  "md4_shift3 = [
     3, 9, 11, 15]"

definition md4_xIndex2 :: "nat list" where
  "md4_xIndex2 = [
     0, 4, 8, 12, 1, 5, 9, 13, 2, 6, 10, 14, 3, 7, 11, 15]"

definition md4_xIndex3 :: "nat list" where
  "md4_xIndex3 = [
     0, 8, 4, 12, 2, 10, 6, 14, 1, 9, 5, 13, 3, 11, 7, 15]"

definition md4_round1 :: "uint32 list \<Rightarrow> nat \<Rightarrow> uint32 \<times> uint32 \<times> uint32 \<times> uint32 \<Rightarrow> uint32 \<times> uint32 \<times> uint32 \<times> uint32" where
  "md4_round1 X i = (\<lambda>(a, b, c, d).
     let s = md4_shift1 ! (i mod 4);
         f = ((c XOR d) AND b) XOR d;
         a = a + (f + X ! i);
         a = rotl32 s a
     in (d, a, b, c))"

definition md4_round2 :: "uint32 list \<Rightarrow> nat \<Rightarrow> uint32 \<times> uint32 \<times> uint32 \<times> uint32 \<Rightarrow> uint32 \<times> uint32 \<times> uint32 \<times> uint32" where
  "md4_round2 X i = (\<lambda>(a, b, c, d).
     let x = md4_xIndex2 ! i;
         s = md4_shift2 ! (i mod 4);
         g = (b AND c) OR (b AND d) OR (c AND d);
         a = a + (g + X ! x + 0x5a827999);
         a = rotl32 s a
     in (d, a, b, c))"

definition md4_round3 :: "uint32 list \<Rightarrow> nat \<Rightarrow> uint32 \<times> uint32 \<times> uint32 \<times> uint32 \<Rightarrow> uint32 \<times> uint32 \<times> uint32 \<times> uint32" where
  "md4_round3 X i = (\<lambda>(a, b, c, d).
     let x = md4_xIndex3 ! i;
         s = md4_shift3 ! (i mod 4);
         h = b XOR c XOR d;
         a = a + (h + X ! x + 0x6ed9eba1);
         a = rotl32 s a
     in (d, a, b, c))"

text \<open>The body of the loop of \<open>_Block\<close>.\<close>

definition md4_step :: "uint32 list \<Rightarrow> byte list \<Rightarrow> uint32 list" where
  "md4_step s p =
    (let (aa, bb, cc, dd) = (s ! 0, s ! 1, s ! 2, s ! 3);
         X = le_words p;
         r = fold (md4_round1 X) [0..<16] (aa, bb, cc, dd);
         r = fold (md4_round2 X) [0..<16] r;
         (a, b, c, d) = fold (md4_round3 X) [0..<16] r
     in [a + aa, b + bb, c + cc, d + dd])"

definition md4_init :: "uint32 list" where
  "md4_init = [0x67452301, 0xEFCDAB89, 0x98BADCFE, 0x10325476]"

definition md4_code :: "uint32 list hash_code" where
  "md4_code = \<lparr>hc_chunk = 64, hc_off = 56, hc_init = md4_init, hc_step = md4_step, hc_trailer = le_length, hc_out = le_result\<rparr>"

section \<open>The methods\<close>

definition md4_Block :: "uint32 list \<Rightarrow> byte list \<Rightarrow> uint32 list \<times> nat" where
  "md4_Block = digest_Block md4_code"

definition md4_Reset :: "uint32 list digest \<Rightarrow> uint32 list digest" where
  "md4_Reset = digest_Reset md4_code"

definition md4_New :: "uint32 list digest" where
  "md4_New = digest_New md4_code"

definition md4_Size :: nat where
  "md4_Size = 16"

definition md4_Write :: "uint32 list digest \<Rightarrow> byte list \<Rightarrow> uint32 list digest \<times> nat" where
  "md4_Write = digest_Write md4_code"

definition md4_Sum :: "uint32 list digest \<Rightarrow> byte list option" where
  "md4_Sum = digest_Sum md4_code"

definition md4_Hash :: "uint32 list digest Hash" where
  "md4_Hash = \<lparr>hash_New = md4_New, hash_Write = md4_Write, hash_Sum = \<lambda>d. map_option (Pair d) (md4_Sum d),
     hash_Reset = \<lambda>d. Some (md4_Reset d), hash_Size = \<lambda>d. md4_Size\<rparr>"

section \<open>Contract\<close>

interpretation md4: sized_hash md4_code md4_Size
  by unfold_locales (auto simp: md4_code_def md4_step_def md4_Size_def Let_def split: prod.splits)

lemma md4_Hash_eq: "md4_Hash = digest_Hash md4_code md4_Size"
  by (simp add: md4_Hash_def digest_Hash_def md4_New_def md4_Write_def md4_Sum_def md4_Reset_def)

end
