(* ===== verification/Crypto_Md5.thy ===== *)
theory Crypto_Md5
  imports Digest_Words
begin

text \<open>crypto/md5: md5.go and md5block.go.\<close>

unbundle bit_operations_syntax

section \<open>The block step\<close>

definition md5_table :: "uint32 list" where
  "md5_table = [
     0xd76aa478, 0xe8c7b756, 0x242070db, 0xc1bdceee, 0xf57c0faf, 0x4787c62a, 0xa8304613, 0xfd469501,
     0x698098d8, 0x8b44f7af, 0xffff5bb1, 0x895cd7be, 0x6b901122, 0xfd987193, 0xa679438e, 0x49b40821,
     0xf61e2562, 0xc040b340, 0x265e5a51, 0xe9b6c7aa, 0xd62f105d, 0x2441453, 0xd8a1e681, 0xe7d3fbc8,
     0x21e1cde6, 0xc33707d6, 0xf4d50d87, 0x455a14ed, 0xa9e3e905, 0xfcefa3f8, 0x676f02d9, 0x8d2a4c8a,
     0xfffa3942, 0x8771f681, 0x6d9d6122, 0xfde5380c, 0xa4beea44, 0x4bdecfa9, 0xf6bb4b60, 0xbebfbc70,
     0x289b7ec6, 0xeaa127fa, 0xd4ef3085, 0x4881d05, 0xd9d4d039, 0xe6db99e5, 0x1fa27cf8, 0xc4ac5665,
     0xf4292244, 0x432aff97, 0xab9423a7, 0xfc93a039, 0x655b59c3, 0x8f0ccc92, 0xffeff47d, 0x85845dd1,
     0x6fa87e4f, 0xfe2ce6e0, 0xa3014314, 0x4e0811a1, 0xf7537e82, 0xbd3af235, 0x2ad7d2bb, 0xeb86d391]"

definition md5_shift1 :: "nat list" where
  "md5_shift1 = [
     7, 12, 17, 22]"

definition md5_shift2 :: "nat list" where
  "md5_shift2 = [
     5, 9, 14, 20]"

definition md5_shift3 :: "nat list" where
  "md5_shift3 = [
     4, 11, 16, 23]"

definition md5_shift4 :: "nat list" where
  "md5_shift4 = [
     6, 10, 15, 21]"

definition md5_round1 :: "uint32 list \<Rightarrow> nat \<Rightarrow> uint32 \<times> uint32 \<times> uint32 \<times> uint32 \<Rightarrow> uint32 \<times> uint32 \<times> uint32 \<times> uint32" where
  "md5_round1 X i = (\<lambda>(a, b, c, d).
     let x = i;
         s = md5_shift1 ! (i mod 4);
         f = ((c XOR d) AND b) XOR d;
         a = a + (f + X ! x + md5_table ! i);
         a = rotl32 s a + b
     in (d, a, b, c))"

definition md5_round2 :: "uint32 list \<Rightarrow> nat \<Rightarrow> uint32 \<times> uint32 \<times> uint32 \<times> uint32 \<Rightarrow> uint32 \<times> uint32 \<times> uint32 \<times> uint32" where
  "md5_round2 X i = (\<lambda>(a, b, c, d).
     let x = (1 + 5 * i) mod 16;
         s = md5_shift2 ! (i mod 4);
         g = ((b XOR c) AND d) XOR c;
         a = a + (g + X ! x + md5_table ! (i + 16));
         a = rotl32 s a + b
     in (d, a, b, c))"

definition md5_round3 :: "uint32 list \<Rightarrow> nat \<Rightarrow> uint32 \<times> uint32 \<times> uint32 \<times> uint32 \<Rightarrow> uint32 \<times> uint32 \<times> uint32 \<times> uint32" where
  "md5_round3 X i = (\<lambda>(a, b, c, d).
     let x = (5 + 3 * i) mod 16;
         s = md5_shift3 ! (i mod 4);
         h = b XOR c XOR d;
         a = a + (h + X ! x + md5_table ! (i + 32));
         a = rotl32 s a + b
     in (d, a, b, c))"

definition md5_round4 :: "uint32 list \<Rightarrow> nat \<Rightarrow> uint32 \<times> uint32 \<times> uint32 \<times> uint32 \<Rightarrow> uint32 \<times> uint32 \<times> uint32 \<times> uint32" where
  "md5_round4 X i = (\<lambda>(a, b, c, d).
     let x = (7 * i) mod 16;
         s = md5_shift4 ! (i mod 4);
         j = c XOR (b OR NOT d);
         a = a + (j + X ! x + md5_table ! (i + 48));
         a = rotl32 s a + b
     in (d, a, b, c))"

text \<open>The body of the loop of \<open>_Block\<close>.\<close>

definition md5_step :: "uint32 list \<Rightarrow> byte list \<Rightarrow> uint32 list" where
  "md5_step s p =
    (let (aa, bb, cc, dd) = (s ! 0, s ! 1, s ! 2, s ! 3);
         X = le_words p;
         r = fold (md5_round1 X) [0..<16] (aa, bb, cc, dd);
         r = fold (md5_round2 X) [0..<16] r;
         r = fold (md5_round3 X) [0..<16] r;
         (a, b, c, d) = fold (md5_round4 X) [0..<16] r
     in [a + aa, b + bb, c + cc, d + dd])"

definition md5_init :: "uint32 list" where
  "md5_init = [0x67452301, 0xEFCDAB89, 0x98BADCFE, 0x10325476]"

definition md5_code :: "uint32 list hash_code" where
  "md5_code = \<lparr>hc_chunk = 64, hc_off = 56, hc_init = md5_init, hc_step = md5_step, hc_trailer = le_length, hc_out = le_result\<rparr>"

section \<open>The methods\<close>

definition md5_Block :: "uint32 list \<Rightarrow> byte list \<Rightarrow> uint32 list \<times> nat" where
  "md5_Block = digest_Block md5_code"

definition md5_Reset :: "uint32 list digest \<Rightarrow> uint32 list digest" where
  "md5_Reset = digest_Reset md5_code"

definition md5_New :: "uint32 list digest" where
  "md5_New = digest_New md5_code"

definition md5_Size :: nat where
  "md5_Size = 16"

definition md5_Write :: "uint32 list digest \<Rightarrow> byte list \<Rightarrow> uint32 list digest \<times> nat" where
  "md5_Write = digest_Write md5_code"

definition md5_Sum :: "uint32 list digest \<Rightarrow> byte list option" where
  "md5_Sum = digest_Sum md5_code"

definition md5_Hash :: "uint32 list digest Hash" where
  "md5_Hash = \<lparr>hash_New = md5_New, hash_Write = md5_Write, hash_Sum = \<lambda>d. map_option (Pair d) (md5_Sum d),
     hash_Reset = \<lambda>d. Some (md5_Reset d), hash_Size = \<lambda>d. md5_Size\<rparr>"

section \<open>Contract\<close>

interpretation md5: sized_hash md5_code md5_Size
  by unfold_locales (auto simp: md5_code_def md5_step_def md5_Size_def Let_def split: prod.splits)

lemma md5_Hash_eq: "md5_Hash = digest_Hash md5_code md5_Size"
  by (simp add: md5_Hash_def digest_Hash_def md5_New_def md5_Write_def md5_Sum_def md5_Reset_def)

end
