(* ===== verification/Crypto_Ripemd160.thy ===== *)
theory Crypto_Ripemd160
  imports Digest_Words
begin

text \<open>crypto/ripemd160: ripemd160.go and ripemd160block.go.\<close>

unbundle bit_operations_syntax

section \<open>The block step\<close>

definition ripemd160_n1 :: "nat list" where
  "ripemd160_n1 = [
     0, 1, 2, 3, 4, 5, 6, 7, 8, 9, 10, 11, 12, 13, 14, 15,
     7, 4, 13, 1, 10, 6, 15, 3, 12, 0, 9, 5, 2, 14, 11, 8,
     3, 10, 14, 4, 9, 15, 8, 1, 2, 7, 0, 6, 13, 11, 5, 12,
     1, 9, 11, 10, 0, 8, 12, 4, 13, 3, 7, 15, 14, 5, 6, 2,
     4, 0, 5, 9, 7, 12, 2, 10, 14, 1, 3, 8, 11, 6, 15, 13]"

definition ripemd160_r1 :: "nat list" where
  "ripemd160_r1 = [
     11, 14, 15, 12, 5, 8, 7, 9, 11, 13, 14, 15, 6, 7, 9, 8,
     7, 6, 8, 13, 11, 9, 7, 15, 7, 12, 15, 9, 11, 7, 13, 12,
     11, 13, 6, 7, 14, 9, 13, 15, 14, 8, 13, 6, 5, 12, 7, 5,
     11, 12, 14, 15, 14, 15, 9, 8, 9, 14, 5, 6, 8, 6, 5, 12,
     9, 15, 5, 11, 6, 8, 13, 12, 5, 12, 13, 14, 11, 8, 5, 6]"

definition ripemd160_n2 :: "nat list" where
  "ripemd160_n2 = [
     5, 14, 7, 0, 9, 2, 11, 4, 13, 6, 15, 8, 1, 10, 3, 12,
     6, 11, 3, 7, 0, 13, 5, 10, 14, 15, 8, 12, 4, 9, 1, 2,
     15, 5, 1, 3, 7, 14, 6, 9, 11, 8, 12, 2, 10, 0, 4, 13,
     8, 6, 4, 1, 3, 11, 15, 0, 5, 12, 2, 13, 9, 7, 10, 14,
     12, 15, 10, 4, 1, 5, 8, 7, 6, 2, 13, 14, 0, 3, 9, 11]"

definition ripemd160_r2 :: "nat list" where
  "ripemd160_r2 = [
     8, 9, 9, 11, 13, 15, 15, 5, 7, 7, 8, 11, 14, 14, 12, 6,
     9, 13, 15, 7, 12, 8, 9, 11, 7, 7, 12, 7, 6, 15, 13, 11,
     9, 7, 15, 11, 8, 6, 6, 14, 12, 13, 5, 14, 13, 13, 7, 5,
     15, 5, 8, 11, 14, 14, 6, 14, 6, 9, 12, 9, 12, 5, 15, 8,
     8, 5, 12, 9, 12, 5, 14, 6, 8, 13, 6, 5, 15, 13, 11, 11]"

text \<open>
  The loops of the five rounds. The body of each runs the line on \<open>a\<close>, ..., \<open>e\<close> and the parallel line on
  \<open>aa\<close>, ..., \<open>ee\<close>, which do not read each other's variables.
\<close>

definition ripemd160_line1 :: "uint32 list \<Rightarrow> nat \<Rightarrow> uint32 \<times> uint32 \<times> uint32 \<times> uint32 \<times> uint32 \<Rightarrow> uint32 \<times> uint32 \<times> uint32 \<times> uint32 \<times> uint32" where
  "ripemd160_line1 x i = (\<lambda>(a, b, c, d, e).
     let alpha = a + (b XOR c XOR d) + x ! (ripemd160_n1 ! i);
         alpha = rotl32 (ripemd160_r1 ! i) alpha + e;
         beta = push_bit 10 c OR drop_bit 22 c
     in (e, alpha, b, beta, d))"

definition ripemd160_parallel1 :: "uint32 list \<Rightarrow> nat \<Rightarrow> uint32 \<times> uint32 \<times> uint32 \<times> uint32 \<times> uint32 \<Rightarrow> uint32 \<times> uint32 \<times> uint32 \<times> uint32 \<times> uint32" where
  "ripemd160_parallel1 x i = (\<lambda>(a, b, c, d, e).
     let alpha = a + (b XOR (c OR NOT d)) + x ! (ripemd160_n2 ! i) + 0x50a28be6;
         alpha = rotl32 (ripemd160_r2 ! i) alpha + e;
         beta = push_bit 10 c OR drop_bit 22 c
     in (e, alpha, b, beta, d))"

definition ripemd160_line2 :: "uint32 list \<Rightarrow> nat \<Rightarrow> uint32 \<times> uint32 \<times> uint32 \<times> uint32 \<times> uint32 \<Rightarrow> uint32 \<times> uint32 \<times> uint32 \<times> uint32 \<times> uint32" where
  "ripemd160_line2 x i = (\<lambda>(a, b, c, d, e).
     let alpha = a + ((b AND c) OR (NOT b AND d)) + x ! (ripemd160_n1 ! i) + 0x5a827999;
         alpha = rotl32 (ripemd160_r1 ! i) alpha + e;
         beta = push_bit 10 c OR drop_bit 22 c
     in (e, alpha, b, beta, d))"

definition ripemd160_parallel2 :: "uint32 list \<Rightarrow> nat \<Rightarrow> uint32 \<times> uint32 \<times> uint32 \<times> uint32 \<times> uint32 \<Rightarrow> uint32 \<times> uint32 \<times> uint32 \<times> uint32 \<times> uint32" where
  "ripemd160_parallel2 x i = (\<lambda>(a, b, c, d, e).
     let alpha = a + ((b AND d) OR (c AND NOT d)) + x ! (ripemd160_n2 ! i) + 0x5c4dd124;
         alpha = rotl32 (ripemd160_r2 ! i) alpha + e;
         beta = push_bit 10 c OR drop_bit 22 c
     in (e, alpha, b, beta, d))"

definition ripemd160_line3 :: "uint32 list \<Rightarrow> nat \<Rightarrow> uint32 \<times> uint32 \<times> uint32 \<times> uint32 \<times> uint32 \<Rightarrow> uint32 \<times> uint32 \<times> uint32 \<times> uint32 \<times> uint32" where
  "ripemd160_line3 x i = (\<lambda>(a, b, c, d, e).
     let alpha = a + ((b OR NOT c) XOR d) + x ! (ripemd160_n1 ! i) + 0x6ed9eba1;
         alpha = rotl32 (ripemd160_r1 ! i) alpha + e;
         beta = push_bit 10 c OR drop_bit 22 c
     in (e, alpha, b, beta, d))"

definition ripemd160_parallel3 :: "uint32 list \<Rightarrow> nat \<Rightarrow> uint32 \<times> uint32 \<times> uint32 \<times> uint32 \<times> uint32 \<Rightarrow> uint32 \<times> uint32 \<times> uint32 \<times> uint32 \<times> uint32" where
  "ripemd160_parallel3 x i = (\<lambda>(a, b, c, d, e).
     let alpha = a + ((b OR NOT c) XOR d) + x ! (ripemd160_n2 ! i) + 0x6d703ef3;
         alpha = rotl32 (ripemd160_r2 ! i) alpha + e;
         beta = push_bit 10 c OR drop_bit 22 c
     in (e, alpha, b, beta, d))"

definition ripemd160_line4 :: "uint32 list \<Rightarrow> nat \<Rightarrow> uint32 \<times> uint32 \<times> uint32 \<times> uint32 \<times> uint32 \<Rightarrow> uint32 \<times> uint32 \<times> uint32 \<times> uint32 \<times> uint32" where
  "ripemd160_line4 x i = (\<lambda>(a, b, c, d, e).
     let alpha = a + ((b AND d) OR (c AND NOT d)) + x ! (ripemd160_n1 ! i) + 0x8f1bbcdc;
         alpha = rotl32 (ripemd160_r1 ! i) alpha + e;
         beta = push_bit 10 c OR drop_bit 22 c
     in (e, alpha, b, beta, d))"

definition ripemd160_parallel4 :: "uint32 list \<Rightarrow> nat \<Rightarrow> uint32 \<times> uint32 \<times> uint32 \<times> uint32 \<times> uint32 \<Rightarrow> uint32 \<times> uint32 \<times> uint32 \<times> uint32 \<times> uint32" where
  "ripemd160_parallel4 x i = (\<lambda>(a, b, c, d, e).
     let alpha = a + ((b AND c) OR (NOT b AND d)) + x ! (ripemd160_n2 ! i) + 0x7a6d76e9;
         alpha = rotl32 (ripemd160_r2 ! i) alpha + e;
         beta = push_bit 10 c OR drop_bit 22 c
     in (e, alpha, b, beta, d))"

definition ripemd160_line5 :: "uint32 list \<Rightarrow> nat \<Rightarrow> uint32 \<times> uint32 \<times> uint32 \<times> uint32 \<times> uint32 \<Rightarrow> uint32 \<times> uint32 \<times> uint32 \<times> uint32 \<times> uint32" where
  "ripemd160_line5 x i = (\<lambda>(a, b, c, d, e).
     let alpha = a + (b XOR (c OR NOT d)) + x ! (ripemd160_n1 ! i) + 0xa953fd4e;
         alpha = rotl32 (ripemd160_r1 ! i) alpha + e;
         beta = push_bit 10 c OR drop_bit 22 c
     in (e, alpha, b, beta, d))"

definition ripemd160_parallel5 :: "uint32 list \<Rightarrow> nat \<Rightarrow> uint32 \<times> uint32 \<times> uint32 \<times> uint32 \<times> uint32 \<Rightarrow> uint32 \<times> uint32 \<times> uint32 \<times> uint32 \<times> uint32" where
  "ripemd160_parallel5 x i = (\<lambda>(a, b, c, d, e).
     let alpha = a + (b XOR c XOR d) + x ! (ripemd160_n2 ! i);
         alpha = rotl32 (ripemd160_r2 ! i) alpha + e;
         beta = push_bit 10 c OR drop_bit 22 c
     in (e, alpha, b, beta, d))"

definition ripemd160_round :: "(nat \<Rightarrow> uint32 \<times> uint32 \<times> uint32 \<times> uint32 \<times> uint32 \<Rightarrow> uint32 \<times> uint32 \<times> uint32 \<times> uint32 \<times> uint32) \<Rightarrow> (nat \<Rightarrow> uint32 \<times> uint32 \<times> uint32 \<times> uint32 \<times> uint32 \<Rightarrow> uint32 \<times> uint32 \<times> uint32 \<times> uint32 \<times> uint32) \<Rightarrow>
    nat \<Rightarrow> (uint32 \<times> uint32 \<times> uint32 \<times> uint32 \<times> uint32) \<times> (uint32 \<times> uint32 \<times> uint32 \<times> uint32 \<times> uint32) \<Rightarrow> (uint32 \<times> uint32 \<times> uint32 \<times> uint32 \<times> uint32) \<times> (uint32 \<times> uint32 \<times> uint32 \<times> uint32 \<times> uint32)" where
  "ripemd160_round line par i = (\<lambda>(l, r). (line i l, par i r))"

definition ripemd160_step :: "uint32 list \<Rightarrow> byte list \<Rightarrow> uint32 list" where
  "ripemd160_step s p =
    (let v = (s ! 0, s ! 1, s ! 2, s ! 3, s ! 4);
         x = le_words p;
         q = fold (ripemd160_round (ripemd160_line1 x) (ripemd160_parallel1 x)) [0..<16] (v, v);
         q = fold (ripemd160_round (ripemd160_line2 x) (ripemd160_parallel2 x)) [16..<32] q;
         q = fold (ripemd160_round (ripemd160_line3 x) (ripemd160_parallel3 x)) [32..<48] q;
         q = fold (ripemd160_round (ripemd160_line4 x) (ripemd160_parallel4 x)) [48..<64] q;
         ((a, b, c, d, e), (aa, bb, cc, dd, ee)) =
           fold (ripemd160_round (ripemd160_line5 x) (ripemd160_parallel5 x)) [64..<80] q
     in [dd + (c + s ! 1), s ! 2 + d + ee, s ! 3 + e + aa, s ! 4 + a + bb, s ! 0 + b + cc])"

definition ripemd160_init :: "uint32 list" where
  "ripemd160_init = [0x67452301, 0xefcdab89, 0x98badcfe, 0x10325476, 0xc3d2e1f0]"

definition ripemd160_code :: "uint32 list hash_code" where
  "ripemd160_code = \<lparr>hc_chunk = 64, hc_off = 56, hc_init = ripemd160_init, hc_step = ripemd160_step,
     hc_trailer = le_length, hc_out = le_result\<rparr>"

section \<open>The methods\<close>

definition ripemd160_Block :: "uint32 list \<Rightarrow> byte list \<Rightarrow> uint32 list \<times> nat" where
  "ripemd160_Block = digest_Block ripemd160_code"

definition ripemd160_Reset :: "uint32 list digest \<Rightarrow> uint32 list digest" where
  "ripemd160_Reset = digest_Reset ripemd160_code"

definition ripemd160_New :: "uint32 list digest" where
  "ripemd160_New = digest_New ripemd160_code"

definition ripemd160_Size :: nat where
  "ripemd160_Size = 20"

definition ripemd160_Write :: "uint32 list digest \<Rightarrow> byte list \<Rightarrow> uint32 list digest \<times> nat" where
  "ripemd160_Write = digest_Write ripemd160_code"

definition ripemd160_Sum :: "uint32 list digest \<Rightarrow> byte list option" where
  "ripemd160_Sum = digest_Sum ripemd160_code"

definition ripemd160_Hash :: "uint32 list digest Hash" where
  "ripemd160_Hash = \<lparr>hash_New = ripemd160_New, hash_Write = ripemd160_Write, hash_Sum = \<lambda>d. map_option (Pair d) (ripemd160_Sum d),
     hash_Reset = \<lambda>d. Some (ripemd160_Reset d), hash_Size = \<lambda>d. ripemd160_Size\<rparr>"

section \<open>Contract\<close>

interpretation ripemd160: sized_hash ripemd160_code ripemd160_Size
  by unfold_locales (auto simp: ripemd160_code_def ripemd160_step_def ripemd160_Size_def Let_def split: prod.splits)

lemma ripemd160_Hash_eq: "ripemd160_Hash = digest_Hash ripemd160_code ripemd160_Size"
  by (simp add: ripemd160_Hash_def digest_Hash_def ripemd160_New_def ripemd160_Write_def ripemd160_Sum_def ripemd160_Reset_def)

end
