(* ===== verification/Crypto_Sha1.thy ===== *)
theory Crypto_Sha1
  imports Digest_Words
begin

text \<open>crypto/sha1: sha1.go and sha1block.go.\<close>

unbundle bit_operations_syntax

section \<open>The block step\<close>

definition sha1_K0 :: uint32 where "sha1_K0 = 0x5A827999"

definition sha1_K1 :: uint32 where "sha1_K1 = 0x6ED9EBA1"

definition sha1_K2 :: uint32 where "sha1_K2 = 0x8F1BBCDC"

definition sha1_K3 :: uint32 where "sha1_K3 = 0xCA62C1D6"

text \<open>
  The array \<open>w\<close>: its first 16 words are read from the chunk, the others are computed from them. The array of
  the source keeps its contents from one chunk to the next, but every entry is written before it is read.
\<close>

definition sha1_expand :: "nat \<Rightarrow> uint32 list \<Rightarrow> uint32 list" where
  "sha1_expand i w =
    (let tmp = w ! (i - 3) XOR w ! (i - 8) XOR w ! (i - 14) XOR w ! (i - 16)
     in w[i := rotl32 1 tmp])"

definition sha1_schedule :: "byte list \<Rightarrow> uint32 list" where
  "sha1_schedule p = fold sha1_expand [16..<80] (be_words p @ replicate 64 0)"

definition sha1_round0 :: "uint32 list \<Rightarrow> nat \<Rightarrow> uint32 \<times> uint32 \<times> uint32 \<times> uint32 \<times> uint32 \<Rightarrow> uint32 \<times> uint32 \<times> uint32 \<times> uint32 \<times> uint32" where
  "sha1_round0 w i = (\<lambda>(a, b, c, d, e).
     let f = (b AND c) OR (NOT b AND d);
         a5 = rotl32 5 a;
         b30 = rotl32 30 b;
         t = a5 + f + e + w ! i + sha1_K0
     in (t, a, b30, c, d))"

definition sha1_round1 :: "uint32 list \<Rightarrow> nat \<Rightarrow> uint32 \<times> uint32 \<times> uint32 \<times> uint32 \<times> uint32 \<Rightarrow> uint32 \<times> uint32 \<times> uint32 \<times> uint32 \<times> uint32" where
  "sha1_round1 w i = (\<lambda>(a, b, c, d, e).
     let f = b XOR c XOR d;
         a5 = rotl32 5 a;
         b30 = rotl32 30 b;
         t = a5 + f + e + w ! i + sha1_K1
     in (t, a, b30, c, d))"

definition sha1_round2 :: "uint32 list \<Rightarrow> nat \<Rightarrow> uint32 \<times> uint32 \<times> uint32 \<times> uint32 \<times> uint32 \<Rightarrow> uint32 \<times> uint32 \<times> uint32 \<times> uint32 \<times> uint32" where
  "sha1_round2 w i = (\<lambda>(a, b, c, d, e).
     let f = (b AND c) OR (b AND d) OR (c AND d);
         a5 = rotl32 5 a;
         b30 = rotl32 30 b;
         t = a5 + f + e + w ! i + sha1_K2
     in (t, a, b30, c, d))"

definition sha1_round3 :: "uint32 list \<Rightarrow> nat \<Rightarrow> uint32 \<times> uint32 \<times> uint32 \<times> uint32 \<times> uint32 \<Rightarrow> uint32 \<times> uint32 \<times> uint32 \<times> uint32 \<times> uint32" where
  "sha1_round3 w i = (\<lambda>(a, b, c, d, e).
     let f = b XOR c XOR d;
         a5 = rotl32 5 a;
         b30 = rotl32 30 b;
         t = a5 + f + e + w ! i + sha1_K3
     in (t, a, b30, c, d))"

definition sha1_step :: "uint32 list \<Rightarrow> byte list \<Rightarrow> uint32 list" where
  "sha1_step h p =
    (let w = sha1_schedule p;
         r = (h ! 0, h ! 1, h ! 2, h ! 3, h ! 4);
         r = fold (sha1_round0 w) [0..<20] r;
         r = fold (sha1_round1 w) [20..<40] r;
         r = fold (sha1_round2 w) [40..<60] r;
         (a, b, c, d, e) = fold (sha1_round3 w) [60..<80] r
     in [h ! 0 + a, h ! 1 + b, h ! 2 + c, h ! 3 + d, h ! 4 + e])"

definition sha1_init :: "uint32 list" where
  "sha1_init = [0x67452301, 0xEFCDAB89, 0x98BADCFE, 0x10325476, 0xC3D2E1F0]"

definition sha1_code :: "uint32 list hash_code" where
  "sha1_code = \<lparr>hc_chunk = 64, hc_off = 56, hc_init = sha1_init, hc_step = sha1_step, hc_trailer = be_length, hc_out = be_result\<rparr>"

section \<open>The methods\<close>

definition sha1_Block :: "uint32 list \<Rightarrow> byte list \<Rightarrow> uint32 list \<times> nat" where
  "sha1_Block = digest_Block sha1_code"

definition sha1_Reset :: "uint32 list digest \<Rightarrow> uint32 list digest" where
  "sha1_Reset = digest_Reset sha1_code"

definition sha1_New :: "uint32 list digest" where
  "sha1_New = digest_New sha1_code"

definition sha1_Size :: nat where
  "sha1_Size = 20"

definition sha1_Write :: "uint32 list digest \<Rightarrow> byte list \<Rightarrow> uint32 list digest \<times> nat" where
  "sha1_Write = digest_Write sha1_code"

definition sha1_Sum :: "uint32 list digest \<Rightarrow> byte list option" where
  "sha1_Sum = digest_Sum sha1_code"

definition sha1_Hash :: "uint32 list digest Hash" where
  "sha1_Hash = \<lparr>hash_New = sha1_New, hash_Write = sha1_Write, hash_Sum = \<lambda>d. map_option (Pair d) (sha1_Sum d),
     hash_Reset = \<lambda>d. Some (sha1_Reset d), hash_Size = \<lambda>d. sha1_Size\<rparr>"

section \<open>Contract\<close>

interpretation sha1: sized_hash sha1_code sha1_Size
  by unfold_locales (auto simp: sha1_code_def sha1_step_def sha1_Size_def Let_def split: prod.splits)

lemma sha1_Hash_eq: "sha1_Hash = digest_Hash sha1_code sha1_Size"
  by (simp add: sha1_Hash_def digest_Hash_def sha1_New_def sha1_Write_def sha1_Sum_def sha1_Reset_def)

end
