(* ===== verification/Crypto_Sha256.thy ===== *)
theory Crypto_Sha256
  imports Digest_Words
begin

text \<open>
  crypto/sha256: sha256.go and sha256block.go. The field \<open>is224\<close> of a digest never changes and is an argument of
  the definitions.
\<close>

unbundle bit_operations_syntax

section \<open>The block step\<close>

text \<open>The table \<open>_K\<close>; the literals of the source are written in decimal.\<close>

definition sha256_K :: "uint32 list" where
  "sha256_K = [
     1116352408, 1899447441, 3049323471, 3921009573, 961987163, 1508970993, 2453635748, 2870763221,
     3624381080, 310598401, 607225278, 1426881987, 1925078388, 2162078206, 2614888103, 3248222580,
     3835390401, 4022224774, 264347078, 604807628, 770255983, 1249150122, 1555081692, 1996064986,
     2554220882, 2821834349, 2952996808, 3210313671, 3336571891, 3584528711, 113926993, 338241895,
     666307205, 773529912, 1294757372, 1396182291, 1695183700, 1986661051, 2177026350, 2456956037,
     2730485921, 2820302411, 3259730800, 3345764771, 3516065817, 3600352804, 4094571909, 275423344,
     430227734, 506948616, 659060556, 883997877, 958139571, 1322822218, 1537002063, 1747873779,
     1955562222, 2024104815, 2227730452, 2361852424, 2428436474, 2756734187, 3204031479, 3329325298]"

text \<open>The array \<open>w\<close>; every entry is written before it is read.\<close>

definition sha256_expand :: "nat \<Rightarrow> uint32 list \<Rightarrow> uint32 list" where
  "sha256_expand i w =
    (let u = w ! (i - 2);
         t1 = (drop_bit 17 u OR push_bit (32 - 17) u) XOR (drop_bit 19 u OR push_bit (32 - 19) u) XOR drop_bit 10 u;
         v = w ! (i - 15);
         t2 = (drop_bit 7 v OR push_bit (32 - 7) v) XOR (drop_bit 18 v OR push_bit (32 - 18) v) XOR drop_bit 3 v
     in w[i := t1 + w ! (i - 7) + t2 + w ! (i - 16)])"

definition sha256_schedule :: "byte list \<Rightarrow> uint32 list" where
  "sha256_schedule p = fold sha256_expand [16..<64] (be_words p @ replicate 48 0)"

definition sha256_round :: "uint32 list \<Rightarrow> nat \<Rightarrow> uint32 \<times> uint32 \<times> uint32 \<times> uint32 \<times> uint32 \<times> uint32 \<times> uint32 \<times> uint32 \<Rightarrow>
    uint32 \<times> uint32 \<times> uint32 \<times> uint32 \<times> uint32 \<times> uint32 \<times> uint32 \<times> uint32" where
  "sha256_round w i = (\<lambda>(a, b, c, d, e, f, g, h).
     let t1 = h + ((drop_bit 6 e OR push_bit (32 - 6) e) XOR (drop_bit 11 e OR push_bit (32 - 11) e) XOR (drop_bit 25 e OR push_bit (32 - 25) e)) +
           ((e AND f) XOR (NOT e AND g)) + sha256_K ! i + w ! i;
         t2 = ((drop_bit 2 a OR push_bit (32 - 2) a) XOR (drop_bit 13 a OR push_bit (32 - 13) a) XOR (drop_bit 22 a OR push_bit (32 - 22) a)) +
           ((a AND b) XOR (a AND c) XOR (b AND c))
     in (t1 + t2, a, b, c, d + t1, e, f, g))"

definition sha256_step :: "uint32 list \<Rightarrow> byte list \<Rightarrow> uint32 list" where
  "sha256_step s p =
    (let w = sha256_schedule p;
         (a, b, c, d, e, f, g, h) =
           fold (sha256_round w) [0..<64] (s ! 0, s ! 1, s ! 2, s ! 3, s ! 4, s ! 5, s ! 6, s ! 7)
     in [s ! 0 + a, s ! 1 + b, s ! 2 + c, s ! 3 + d, s ! 4 + e, s ! 5 + f, s ! 6 + g, s ! 7 + h])"

definition sha256_init :: "bool \<Rightarrow> uint32 list" where
  "sha256_init is224 =
    (if \<not> is224
     then [0x6A09E667, 0xBB67AE85, 0x3C6EF372, 0xA54FF53A, 0x510E527F, 0x9B05688C, 0x1F83D9AB, 0x5BE0CD19]
     else [0xC1059ED8, 0x367CD507, 0x3070DD17, 0xF70E5939, 0xFFC00B31, 0x68581511, 0x64F98FA7, 0xBEFA4FA4])"

definition sha256_code :: "bool \<Rightarrow> uint32 list hash_code" where
  "sha256_code is224 = \<lparr>hc_chunk = 64, hc_off = 56, hc_init = sha256_init is224, hc_step = sha256_step,
     hc_trailer = be_length, hc_out = \<lambda>h. if is224 then take 28 (be_result h) else be_result h\<rparr>"

section \<open>The methods\<close>

definition sha256_Block :: "bool \<Rightarrow> uint32 list \<Rightarrow> byte list \<Rightarrow> uint32 list \<times> nat" where
  "sha256_Block is224 = digest_Block (sha256_code is224)"

definition sha256_Reset :: "bool \<Rightarrow> uint32 list digest \<Rightarrow> uint32 list digest" where
  "sha256_Reset is224 = digest_Reset (sha256_code is224)"

definition sha256_New :: "uint32 list digest" where
  "sha256_New = digest_New (sha256_code False)"

definition sha256_New224 :: "uint32 list digest" where
  "sha256_New224 = digest_New (sha256_code True)"

definition sha256_Size :: "bool \<Rightarrow> nat" where
  "sha256_Size is224 = (if \<not> is224 then 32 else 28)"

definition sha256_Write :: "bool \<Rightarrow> uint32 list digest \<Rightarrow> byte list \<Rightarrow> uint32 list digest \<times> nat" where
  "sha256_Write is224 = digest_Write (sha256_code is224)"

definition sha256_Sum :: "bool \<Rightarrow> uint32 list digest \<Rightarrow> byte list option" where
  "sha256_Sum is224 = digest_Sum (sha256_code is224)"

definition sha256_Hash :: "bool \<Rightarrow> uint32 list digest Hash" where
  "sha256_Hash is224 = \<lparr>hash_New = (if is224 then sha256_New224 else sha256_New), hash_Write = sha256_Write is224,
     hash_Sum = \<lambda>d. map_option (Pair d) (sha256_Sum is224 d), hash_Reset = \<lambda>d. Some (sha256_Reset is224 d), hash_Size = \<lambda>d. sha256_Size is224\<rparr>"

section \<open>Contract\<close>

interpretation sha256: sized_hash "sha256_code is224" "sha256_Size is224" for is224
  by unfold_locales (auto simp: sha256_code_def sha256_step_def sha256_Size_def Let_def split: prod.splits)

lemma sha256_Hash_eq: "sha256_Hash is224 = digest_Hash (sha256_code is224) (sha256_Size is224)"
  by (simp add: sha256_Hash_def digest_Hash_def sha256_New_def sha256_New224_def sha256_Write_def sha256_Sum_def sha256_Reset_def)

end
