(* ===== verification/Crypto_Sha512.thy ===== *)
theory Crypto_Sha512
  imports Digest_Words
begin

text \<open>
  crypto/sha512: sha512.go and sha512block.go. The field \<open>is384\<close> of a digest never changes and is an argument of
  the definitions.
\<close>

unbundle bit_operations_syntax

section \<open>The block step\<close>

text \<open>The loop that reads the first 16 words of \<open>w\<close>, and the loops that write the length and the result.\<close>

definition be_words64 :: "byte list \<Rightarrow> uint64 list" where
  "be_words64 p = map (\<lambda>i. let j = i * 8 in
     push_bit 56 (ucast (p ! j)) OR push_bit 48 (ucast (p ! (j + 1))) OR push_bit 40 (ucast (p ! (j + 2))) OR
     push_bit 32 (ucast (p ! (j + 3))) OR push_bit 24 (ucast (p ! (j + 4))) OR push_bit 16 (ucast (p ! (j + 5))) OR
     push_bit 8 (ucast (p ! (j + 6))) OR ucast (p ! (j + 7))) [0..<16]"

definition be_length16 :: "uint64 \<Rightarrow> byte list" where
  "be_length16 len = map (\<lambda>i. ucast (drop_bit (120 - 8 * i) len)) [0..<16]"

definition be_result64 :: "uint64 list \<Rightarrow> byte list" where
  "be_result64 h = concat (map (\<lambda>s. [ucast (drop_bit 56 s), ucast (drop_bit 48 s), ucast (drop_bit 40 s), ucast (drop_bit 32 s),
     ucast (drop_bit 24 s), ucast (drop_bit 16 s), ucast (drop_bit 8 s), ucast s]) h)"

lemma length_be_words64 [simp]: "length (be_words64 p) = 16"
  by (simp add: be_words64_def)

lemma length_be_result64 [simp]: "length (be_result64 h) = 8 * length h"
  by (induction h) (simp_all add: be_result64_def)

text \<open>The table \<open>_K\<close>; the literals of the source are written in decimal.\<close>

definition sha512_K :: "uint64 list" where
  "sha512_K = [
     4794697086780616226, 8158064640168781261, 13096744586834688815, 16840607885511220156,
     4131703408338449720, 6480981068601479193, 10538285296894168987, 12329834152419229976,
     15566598209576043074, 1334009975649890238, 2608012711638119052, 6128411473006802146,
     8268148722764581231, 9286055187155687089, 11230858885718282805, 13951009754708518548,
     16472876342353939154, 17275323862435702243, 1135362057144423861, 2597628984639134821,
     3308224258029322869, 5365058923640841347, 6679025012923562964, 8573033837759648693,
     10970295158949994411, 12119686244451234320, 12683024718118986047, 13788192230050041572,
     14330467153632333762, 15395433587784984357, 489312712824947311, 1452737877330783856,
     2861767655752347644, 3322285676063803686, 5560940570517711597, 5996557281743188959,
     7280758554555802590, 8532644243296465576, 9350256976987008742, 10552545826968843579,
     11727347734174303076, 12113106623233404929, 14000437183269869457, 14369950271660146224,
     15101387698204529176, 15463397548674623760, 17586052441742319658, 1182934255886127544,
     1847814050463011016, 2177327727835720531, 2830643537854262169, 3796741975233480872,
     4115178125766777443, 5681478168544905931, 6601373596472566643, 7507060721942968483,
     8399075790359081724, 8693463985226723168, 9568029438360202098, 10144078919501101548,
     10430055236837252648, 11840083180663258601, 13761210420658862357, 14299343276471374635,
     14566680578165727644, 15097957966210449927, 16922976911328602910, 17689382322260857208,
     500013540394364858, 748580250866718886, 1242879168328830382, 1977374033974150939,
     2944078676154940804, 3659926193048069267, 4368137639120453308, 4836135668995329356,
     5532061633213252278, 6448918945643986474, 6902733635092675308, 7801388544844847127]"

text \<open>The array \<open>w\<close>; every entry is written before it is read.\<close>

definition sha512_expand :: "nat \<Rightarrow> uint64 list \<Rightarrow> uint64 list" where
  "sha512_expand i w =
    (let u = w ! (i - 2);
         t1 = (drop_bit 19 u OR push_bit (64 - 19) u) XOR (drop_bit 61 u OR push_bit (64 - 61) u) XOR drop_bit 6 u;
         v = w ! (i - 15);
         t2 = (drop_bit 1 v OR push_bit (64 - 1) v) XOR (drop_bit 8 v OR push_bit (64 - 8) v) XOR drop_bit 7 v
     in w[i := t1 + w ! (i - 7) + t2 + w ! (i - 16)])"

definition sha512_schedule :: "byte list \<Rightarrow> uint64 list" where
  "sha512_schedule p = fold sha512_expand [16..<80] (be_words64 p @ replicate 64 0)"

definition sha512_round :: "uint64 list \<Rightarrow> nat \<Rightarrow> uint64 \<times> uint64 \<times> uint64 \<times> uint64 \<times> uint64 \<times> uint64 \<times> uint64 \<times> uint64 \<Rightarrow>
    uint64 \<times> uint64 \<times> uint64 \<times> uint64 \<times> uint64 \<times> uint64 \<times> uint64 \<times> uint64" where
  "sha512_round w i = (\<lambda>(a, b, c, d, e, f, g, h).
     let t1 = h + ((drop_bit 14 e OR push_bit (64 - 14) e) XOR (drop_bit 18 e OR push_bit (64 - 18) e) XOR (drop_bit 41 e OR push_bit (64 - 41) e)) +
           ((e AND f) XOR (NOT e AND g)) + sha512_K ! i + w ! i;
         t2 = ((drop_bit 28 a OR push_bit (64 - 28) a) XOR (drop_bit 34 a OR push_bit (64 - 34) a) XOR (drop_bit 39 a OR push_bit (64 - 39) a)) +
           ((a AND b) XOR (a AND c) XOR (b AND c))
     in (t1 + t2, a, b, c, d + t1, e, f, g))"

definition sha512_step :: "uint64 list \<Rightarrow> byte list \<Rightarrow> uint64 list" where
  "sha512_step s p =
    (let w = sha512_schedule p;
         (a, b, c, d, e, f, g, h) =
           fold (sha512_round w) [0..<80] (s ! 0, s ! 1, s ! 2, s ! 3, s ! 4, s ! 5, s ! 6, s ! 7)
     in [s ! 0 + a, s ! 1 + b, s ! 2 + c, s ! 3 + d, s ! 4 + e, s ! 5 + f, s ! 6 + g, s ! 7 + h])"

definition sha512_init :: "bool \<Rightarrow> uint64 list" where
  "sha512_init is384 =
    (if \<not> is384
     then [0x6a09e667f3bcc908, 0xbb67ae8584caa73b, 0x3c6ef372fe94f82b, 0xa54ff53a5f1d36f1, 0x510e527fade682d1, 0x9b05688c2b3e6c1f, 0x1f83d9abfb41bd6b, 0x5be0cd19137e2179]
     else [0xcbbb9d5dc1059ed8, 0x629a292a367cd507, 0x9159015a3070dd17, 0x152fecd8f70e5939, 0x67332667ffc00b31, 0x8eb44a8768581511, 0xdb0c2e0d64f98fa7, 0x47b5481dbefa4fa4])"

definition sha512_code :: "bool \<Rightarrow> uint64 list hash_code" where
  "sha512_code is384 = \<lparr>hc_chunk = 128, hc_off = 112, hc_init = sha512_init is384, hc_step = sha512_step,
     hc_trailer = be_length16, hc_out = \<lambda>h. if is384 then take 48 (be_result64 h) else be_result64 h\<rparr>"

section \<open>The methods\<close>

definition sha512_Block :: "bool \<Rightarrow> uint64 list \<Rightarrow> byte list \<Rightarrow> uint64 list \<times> nat" where
  "sha512_Block is384 = digest_Block (sha512_code is384)"

definition sha512_Reset :: "bool \<Rightarrow> uint64 list digest \<Rightarrow> uint64 list digest" where
  "sha512_Reset is384 = digest_Reset (sha512_code is384)"

definition sha512_New :: "uint64 list digest" where
  "sha512_New = digest_New (sha512_code False)"

definition sha512_New384 :: "uint64 list digest" where
  "sha512_New384 = digest_New (sha512_code True)"

definition sha512_Size :: "bool \<Rightarrow> nat" where
  "sha512_Size is384 = (if \<not> is384 then 64 else 48)"

definition sha512_Write :: "bool \<Rightarrow> uint64 list digest \<Rightarrow> byte list \<Rightarrow> uint64 list digest \<times> nat" where
  "sha512_Write is384 = digest_Write (sha512_code is384)"

definition sha512_Sum :: "bool \<Rightarrow> uint64 list digest \<Rightarrow> byte list option" where
  "sha512_Sum is384 = digest_Sum (sha512_code is384)"

definition sha512_Hash :: "bool \<Rightarrow> uint64 list digest Hash" where
  "sha512_Hash is384 = \<lparr>hash_New = (if is384 then sha512_New384 else sha512_New), hash_Write = sha512_Write is384,
     hash_Sum = \<lambda>d. map_option (Pair d) (sha512_Sum is384 d), hash_Reset = \<lambda>d. Some (sha512_Reset is384 d), hash_Size = \<lambda>d. sha512_Size is384\<rparr>"

section \<open>Contract\<close>

interpretation sha512: sized_hash "sha512_code is384" "sha512_Size is384" for is384
  by unfold_locales (auto simp: sha512_code_def sha512_step_def sha512_Size_def Let_def be_length16_def split: prod.splits)

lemma sha512_Hash_eq: "sha512_Hash is384 = digest_Hash (sha512_code is384) (sha512_Size is384)"
  by (simp add: sha512_Hash_def digest_Hash_def sha512_New_def sha512_New384_def sha512_Write_def sha512_Sum_def sha512_Reset_def)

end
