(* ===== verification/Crypto_Hashes.thy ===== *)
theory Crypto_Hashes
  imports Crypto_Md4 Crypto_Md5 Crypto_Ripemd160 Crypto_Sha1 Crypto_Sha256 Crypto_Sha512
begin

text \<open>
  The compression functions of the published standards (RFC 1320, RFC 1321, RIPEMD-160, FIPS 180), and the proofs
  that the block steps of the packages compute them.
\<close>

unbundle bit_operations_syntax

section \<open>Reference\<close>

text \<open>The functions of three words, and the one of md5's fourth round.\<close>

definition Ch :: "'w::len word \<Rightarrow> 'w word \<Rightarrow> 'w word \<Rightarrow> 'w word" where
  "Ch x y z = (x AND y) OR (NOT x AND z)"

definition Parity :: "'w::len word \<Rightarrow> 'w word \<Rightarrow> 'w word \<Rightarrow> 'w word" where
  "Parity x y z = x XOR y XOR z"

definition Maj :: "'w::len word \<Rightarrow> 'w word \<Rightarrow> 'w word \<Rightarrow> 'w word" where
  "Maj x y z = (x AND y) OR (x AND z) OR (y AND z)"

text \<open>One loop of 48 operations for md4 and one of 64 operations for md5.\<close>

definition rfc1320_op :: "uint32 list \<Rightarrow> nat \<Rightarrow> uint32 \<times> uint32 \<times> uint32 \<times> uint32 \<Rightarrow> uint32 \<times> uint32 \<times> uint32 \<times> uint32" where
  "rfc1320_op X i = (\<lambda>(a, b, c, d).
    (let r = i div 16;
         k = [i, 4 * (i mod 4) + i mod 16 div 4,
              8 * (i mod 2) + 4 * (i div 2 mod 2) + 2 * (i div 4 mod 2) + i div 8 mod 2] ! r;
         s = [[3, 7, 11, 19], [3, 5, 9, 13], [3, 9, 11, 15]] ! r ! (i mod 4)
     in (d, word_rotl s (a + ([Ch, Maj, Parity] ! r) b c d + X ! k + [0, 0x5a827999, 0x6ed9eba1] ! r), b, c)))"

definition rfc1321_op :: "uint32 list \<Rightarrow> nat \<Rightarrow> uint32 \<times> uint32 \<times> uint32 \<times> uint32 \<Rightarrow> uint32 \<times> uint32 \<times> uint32 \<times> uint32" where
  "rfc1321_op X i = (\<lambda>(a, b, c, d).
    (let r = i div 16;
         k = [i, 1 + 5 * i, 5 + 3 * i, 7 * i] ! r mod 16;
         s = [[7, 12, 17, 22], [5, 9, 14, 20], [4, 11, 16, 23], [6, 10, 15, 21]] ! r ! (i mod 4);
         f = [Ch b c d, Ch d b c, Parity b c d, c XOR (b OR NOT d)] ! r
     in (d, b + word_rotl s (a + f + X ! k + md5_table ! i), b, c)))"

definition add4 :: "uint32 list \<Rightarrow> uint32 \<times> uint32 \<times> uint32 \<times> uint32 \<Rightarrow> uint32 list" where
  "add4 h = (\<lambda>(a, b, c, d). [h ! 0 + a, h ! 1 + b, h ! 2 + c, h ! 3 + d])"

definition rfc1320 :: "uint32 list \<Rightarrow> byte list \<Rightarrow> uint32 list" where
  "rfc1320 h p = add4 h (fold (rfc1320_op (le_words p)) [0..<48] (h ! 0, h ! 1, h ! 2, h ! 3))"

definition rfc1321 :: "uint32 list \<Rightarrow> byte list \<Rightarrow> uint32 list" where
  "rfc1321 h p = add4 h (fold (rfc1321_op (le_words p)) [0..<64] (h ! 0, h ! 1, h ! 2, h ! 3))"

text \<open>The message schedules of FIPS 180 as recurrences, and its operations.\<close>

fun sha1_W :: "byte list \<Rightarrow> nat \<Rightarrow> uint32" where
  "sha1_W p t = (if t < 16 then be_words p ! t
     else word_rotl 1 (sha1_W p (t - 3) XOR sha1_W p (t - 8) XOR sha1_W p (t - 14) XOR sha1_W p (t - 16)))"

fun sha256_W :: "byte list \<Rightarrow> nat \<Rightarrow> uint32" where
  "sha256_W p t = (if t < 16 then be_words p ! t
     else (let x = sha256_W p (t - 2); y = sha256_W p (t - 15) in
       (word_rotr 17 x XOR word_rotr 19 x XOR drop_bit 10 x) + sha256_W p (t - 7) +
       (word_rotr 7 y XOR word_rotr 18 y XOR drop_bit 3 y) + sha256_W p (t - 16)))"

fun sha512_W :: "byte list \<Rightarrow> nat \<Rightarrow> uint64" where
  "sha512_W p t = (if t < 16 then be_words64 p ! t
     else (let x = sha512_W p (t - 2); y = sha512_W p (t - 15) in
       (word_rotr 19 x XOR word_rotr 61 x XOR drop_bit 6 x) + sha512_W p (t - 7) +
       (word_rotr 1 y XOR word_rotr 8 y XOR drop_bit 7 y) + sha512_W p (t - 16)))"

declare sha1_W.simps [simp del] sha256_W.simps [simp del] sha512_W.simps [simp del]

definition fips_sha1_op :: "byte list \<Rightarrow> nat \<Rightarrow> uint32 \<times> uint32 \<times> uint32 \<times> uint32 \<times> uint32 \<Rightarrow> uint32 \<times> uint32 \<times> uint32 \<times> uint32 \<times> uint32" where
  "fips_sha1_op p t = (\<lambda>(a, b, c, d, e).
    (let f = [Ch, Parity, Maj, Parity] ! (t div 20);
         K = [0x5a827999, 0x6ed9eba1, 0x8f1bbcdc, 0xca62c1d6] ! (t div 20)
     in (word_rotl 5 a + f b c d + e + K + sha1_W p t, a, word_rotl 30 b, c, d)))"

definition fips_sha1 :: "uint32 list \<Rightarrow> byte list \<Rightarrow> uint32 list" where
  "fips_sha1 h p = (case fold (fips_sha1_op p) [0..<80] (h ! 0, h ! 1, h ! 2, h ! 3, h ! 4) of
     (a, b, c, d, e) \<Rightarrow> [a + h ! 0, b + h ! 1, c + h ! 2, d + h ! 3, e + h ! 4])"

text \<open>SHA-256 and SHA-512 differ in the width, the amounts of the rotations and the constants.\<close>

definition fips_sha2_op :: "(nat \<Rightarrow> 'w::len word) \<Rightarrow> (nat \<Rightarrow> 'w word) \<Rightarrow> nat \<times> nat \<times> nat \<Rightarrow> nat \<times> nat \<times> nat \<Rightarrow> nat \<Rightarrow>
    'w word \<times> 'w word \<times> 'w word \<times> 'w word \<times> 'w word \<times> 'w word \<times> 'w word \<times> 'w word \<Rightarrow>
    'w word \<times> 'w word \<times> 'w word \<times> 'w word \<times> 'w word \<times> 'w word \<times> 'w word \<times> 'w word" where
  "fips_sha2_op K W r0 r1 t = (\<lambda>(a, b, c, d, e, f, g, h).
    (let rots = (\<lambda>(i, j, k) x. word_rotr i x XOR word_rotr j x XOR word_rotr k x);
         T1 = h + rots r1 e + Ch e f g + K t + W t;
         T2 = rots r0 a + Maj a b c
     in (T1 + T2, a, b, c, d + T1, e, f, g)))"

definition fips_sha2 :: "(nat \<Rightarrow> 'w::len word) \<Rightarrow> (nat \<Rightarrow> 'w word) \<Rightarrow> nat \<times> nat \<times> nat \<Rightarrow> nat \<times> nat \<times> nat \<Rightarrow> nat \<Rightarrow>
    'w word list \<Rightarrow> 'w word list" where
  "fips_sha2 K W r0 r1 n H =
    (case fold (fips_sha2_op K W r0 r1) [0..<n] (H ! 0, H ! 1, H ! 2, H ! 3, H ! 4, H ! 5, H ! 6, H ! 7) of
     (a, b, c, d, e, f, g, h) \<Rightarrow>
       [a + H ! 0, b + H ! 1, c + H ! 2, d + H ! 3, e + H ! 4, f + H ! 5, g + H ! 6, h + H ! 7])"

text \<open>
  RIPEMD-160 as its authors define it: the order of the message words comes from two permutations, the left line
  starting round \<open>j\<close> with \<open>\<rho>\<^sup>j\<close> and the right one with \<open>\<rho>\<^sup>j \<pi>\<close>; the amount of a rotation belongs to the message word and the
  round, for both lines; and the right line takes the functions in the opposite order.
\<close>

definition rmd_rho :: "nat list" where
  "rmd_rho = [7, 4, 13, 1, 10, 6, 15, 3, 12, 0, 9, 5, 2, 14, 11, 8]"

definition rmd_left :: "nat \<Rightarrow> nat" where
  "rmd_left i = ((\<lambda>k. rmd_rho ! k) ^^ (i div 16)) (i mod 16)"

definition rmd_right :: "nat \<Rightarrow> nat" where
  "rmd_right i = ((\<lambda>k. rmd_rho ! k) ^^ (i div 16)) ((9 * (i mod 16) + 5) mod 16)"

definition rmd_shift :: "nat list list" where
  "rmd_shift = [
     [11, 14, 15, 12, 5, 8, 7, 9, 11, 13, 14, 15, 6, 7, 9, 8],
     [12, 13, 11, 15, 6, 9, 9, 7, 12, 15, 11, 13, 7, 8, 7, 7],
     [13, 15, 14, 11, 7, 7, 6, 8, 13, 14, 13, 12, 5, 5, 6, 9],
     [14, 11, 12, 14, 8, 6, 5, 5, 15, 12, 15, 14, 9, 9, 8, 6],
     [15, 12, 13, 13, 9, 5, 8, 6, 14, 11, 12, 11, 8, 6, 5, 5]]"

definition rmd_f :: "(uint32 \<Rightarrow> uint32 \<Rightarrow> uint32 \<Rightarrow> uint32) list" where
  "rmd_f = [Parity, Ch, \<lambda>x y z. (x OR NOT y) XOR z, \<lambda>x y z. Ch z x y, \<lambda>x y z. x XOR (y OR NOT z)]"

definition rmd_op :: "(uint32 \<Rightarrow> uint32 \<Rightarrow> uint32 \<Rightarrow> uint32) \<Rightarrow> uint32 \<Rightarrow> nat \<Rightarrow> uint32 \<times> uint32 \<times> uint32 \<times> uint32 \<times> uint32 \<Rightarrow> uint32 \<times> uint32 \<times> uint32 \<times> uint32 \<times> uint32" where
  "rmd_op f w s = (\<lambda>(A, B, C, D, E). (E, word_rotl s (A + f B C D + w) + E, B, word_rotl 10 C, D))"

definition rmd_left_op :: "uint32 list \<Rightarrow> nat \<Rightarrow> uint32 \<times> uint32 \<times> uint32 \<times> uint32 \<times> uint32 \<Rightarrow> uint32 \<times> uint32 \<times> uint32 \<times> uint32 \<times> uint32" where
  "rmd_left_op X i = (let j = i div 16; k = [0, 0x5a827999, 0x6ed9eba1, 0x8f1bbcdc, 0xa953fd4e] ! j
     in rmd_op (rmd_f ! j) (X ! rmd_left i + k) (rmd_shift ! j ! rmd_left i))"

definition rmd_right_op :: "uint32 list \<Rightarrow> nat \<Rightarrow> uint32 \<times> uint32 \<times> uint32 \<times> uint32 \<times> uint32 \<Rightarrow> uint32 \<times> uint32 \<times> uint32 \<times> uint32 \<times> uint32" where
  "rmd_right_op X i = (let j = i div 16; k = [0x50a28be6, 0x5c4dd124, 0x6d703ef3, 0x7a6d76e9, 0] ! j
     in rmd_op (rmd_f ! (4 - j)) (X ! rmd_right i + k) (rmd_shift ! j ! rmd_right i))"

definition rmd160 :: "uint32 list \<Rightarrow> byte list \<Rightarrow> uint32 list" where
  "rmd160 h p =
    (let v = (h ! 0, h ! 1, h ! 2, h ! 3, h ! 4);
         (A, B, C, D, E) = fold (rmd_left_op (le_words p)) [0..<80] v;
         (A', B', C', D', E') = fold (rmd_right_op (le_words p)) [0..<80] v
     in [h ! 1 + C + D', h ! 2 + D + E', h ! 3 + E + A', h ! 4 + A + B', h ! 0 + B + C'])"

section \<open>The functions of three words\<close>

lemma Ch_xor: "((y XOR z) AND x) XOR z = Ch x y z" "(x AND y) XOR (NOT x AND z) = Ch x y z"
  by (rule bit_word_eqI; auto simp: Ch_def bit_simps)+

lemma Maj_xor: "Parity (x AND y) (x AND z) (y AND z) = Maj x y z"
  by (rule bit_word_eqI) (auto simp: Maj_def Parity_def bit_simps)

lemmas word_functions = Ch_xor Maj_xor Ch_def [symmetric] Maj_def [symmetric] Parity_def [symmetric]

section \<open>The message schedules\<close>

lemma sha1_schedule: "t < 80 \<Longrightarrow> sha1_schedule p ! t = sha1_W p t"
proof -
  let ?w = "be_words p @ replicate 64 0"
  have "length (fold sha1_expand [16..<80] ?w) = 80 \<and> (\<forall>t<80. fold sha1_expand [16..<80] ?w ! t = sha1_W p t)"
  proof (rule schedule_fold)
    show "sha1_expand i w = w[i := sha1_W p i]" if "16 \<le> i" "\<And>j. j < i \<Longrightarrow> w ! j = sha1_W p j" for i w
      using that sha1_W.simps [of p i] by (simp add: sha1_expand_def rotl32_rotl Let_def)
    show "?w ! j = sha1_W p j" if "j < 16" for j
      using that by (simp add: nth_append sha1_W.simps)
  qed simp_all
  then show "t < 80 \<Longrightarrow> ?thesis" unfolding sha1_schedule_def by blast
qed

lemma sha256_schedule: "t < 64 \<Longrightarrow> sha256_schedule p ! t = sha256_W p t"
proof -
  let ?w = "be_words p @ replicate 48 0"
  have "length (fold sha256_expand [16..<64] ?w) = 64 \<and> (\<forall>t<64. fold sha256_expand [16..<64] ?w ! t = sha256_W p t)"
  proof (rule schedule_fold)
    show "sha256_expand i w = w[i := sha256_W p i]" if "16 \<le> i" "\<And>j. j < i \<Longrightarrow> w ! j = sha256_W p j" for i w
      using that sha256_W.simps [of p i] by (simp add: sha256_expand_def rotr_bits Let_def)
    show "?w ! j = sha256_W p j" if "j < 16" for j
      using that by (simp add: nth_append sha256_W.simps)
  qed simp_all
  then show "t < 64 \<Longrightarrow> ?thesis" unfolding sha256_schedule_def by blast
qed

lemma sha512_schedule: "t < 80 \<Longrightarrow> sha512_schedule p ! t = sha512_W p t"
proof -
  let ?w = "be_words64 p @ replicate 64 0"
  have "length (fold sha512_expand [16..<80] ?w) = 80 \<and> (\<forall>t<80. fold sha512_expand [16..<80] ?w ! t = sha512_W p t)"
  proof (rule schedule_fold)
    show "sha512_expand i w = w[i := sha512_W p i]" if "16 \<le> i" "\<And>j. j < i \<Longrightarrow> w ! j = sha512_W p j" for i w
      using that sha512_W.simps [of p i] by (simp add: sha512_expand_def rotr_bits Let_def)
    show "?w ! j = sha512_W p j" if "j < 16" for j
      using that by (simp add: nth_append sha512_W.simps)
  qed simp_all
  then show "t < 80 \<Longrightarrow> ?thesis" unfolding sha512_schedule_def by blast
qed

section \<open>The operations\<close>

lemma fold_upt_eq: "(\<And>i. a \<le> i \<Longrightarrow> i < b \<Longrightarrow> f i = g i) \<Longrightarrow> fold f [a..<b] s = fold g [a..<b] s"
  by (rule fold_cong) auto

lemma fold_upt_join: "a \<le> b \<Longrightarrow> b \<le> c \<Longrightarrow> fold f [b..<c] (fold f [a..<b] s) = fold f [a..<c] s"
  using upt_add_eq_append [of a b "c - b"] by simp

lemma fold_upt_shift:
  assumes "\<And>i. i < n \<Longrightarrow> g i = f (i + k)" "m = n + k"
  shows "fold g [0..<n] s = fold f [k..<m] s"
proof -
  have "fold g [0..<n] s = fold (\<lambda>i. f (i + k)) [0..<n] s" using assms(1) by (intro fold_upt_eq)
  then show ?thesis unfolding assms(2) by (simp only: map_add_upt [symmetric] fold_map comp_def)
qed

lemma sha1_rounds:
  "i < 20 \<Longrightarrow> sha1_round0 (sha1_schedule p) i = fips_sha1_op p i"
  "20 \<le> i \<Longrightarrow> i < 40 \<Longrightarrow> sha1_round1 (sha1_schedule p) i = fips_sha1_op p i"
  "40 \<le> i \<Longrightarrow> i < 60 \<Longrightarrow> sha1_round2 (sha1_schedule p) i = fips_sha1_op p i"
  "60 \<le> i \<Longrightarrow> i < 80 \<Longrightarrow> sha1_round3 (sha1_schedule p) i = fips_sha1_op p i"
proof -
  have div: "i < 20 \<Longrightarrow> i div 20 = 0" "20 \<le> i \<Longrightarrow> i < 40 \<Longrightarrow> i div 20 = 1" "40 \<le> i \<Longrightarrow> i < 60 \<Longrightarrow> i div 20 = 2"
    "60 \<le> i \<Longrightarrow> i < 80 \<Longrightarrow> i div 20 = 3"
    by simp_all
  show "i < 20 \<Longrightarrow> sha1_round0 (sha1_schedule p) i = fips_sha1_op p i"
    "20 \<le> i \<Longrightarrow> i < 40 \<Longrightarrow> sha1_round1 (sha1_schedule p) i = fips_sha1_op p i"
    "40 \<le> i \<Longrightarrow> i < 60 \<Longrightarrow> sha1_round2 (sha1_schedule p) i = fips_sha1_op p i"
    "60 \<le> i \<Longrightarrow> i < 80 \<Longrightarrow> sha1_round3 (sha1_schedule p) i = fips_sha1_op p i"
    using div
    by (auto simp: sha1_round0_def sha1_round1_def sha1_round2_def sha1_round3_def fips_sha1_op_def fun_eq_iff Let_def sha1_schedule
        rotl32_rotl word_functions sha1_K0_def sha1_K1_def sha1_K2_def sha1_K3_def add_ac)
qed

lemma sha1_step_fips: "sha1_step h p = fips_sha1 h p"
proof -
  let ?w = "sha1_schedule p" and ?op = "fips_sha1_op p"
  have "fold (sha1_round3 ?w) [60..<80] (fold (sha1_round2 ?w) [40..<60] (fold (sha1_round1 ?w) [20..<40]
      (fold (sha1_round0 ?w) [0..<20] s))) = fold ?op [0..<80] s" for s
  proof -
    have "fold (sha1_round0 ?w) [0..<20] s = fold ?op [0..<20] s" for s
      by (rule fold_upt_eq) (rule sha1_rounds)
    moreover have "fold (sha1_round1 ?w) [20..<40] s = fold ?op [20..<40] s" for s
      by (rule fold_upt_eq) (rule sha1_rounds)
    moreover have "fold (sha1_round2 ?w) [40..<60] s = fold ?op [40..<60] s" for s
      by (rule fold_upt_eq) (rule sha1_rounds)
    moreover have "fold (sha1_round3 ?w) [60..<80] s = fold ?op [60..<80] s" for s
      by (rule fold_upt_eq) (rule sha1_rounds)
    ultimately show ?thesis by (simp only: fold_upt_join)
  qed
  then show ?thesis
    unfolding sha1_step_def fips_sha1_def Let_def by (simp add: add.commute split: prod.splits)
qed

definition fips_sha256 :: "uint32 list \<Rightarrow> byte list \<Rightarrow> uint32 list" where
  "fips_sha256 H p = fips_sha2 (\<lambda>t. sha256_K ! t) (sha256_W p) (2, 13, 22) (6, 11, 25) 64 H"

definition fips_sha512 :: "uint64 list \<Rightarrow> byte list \<Rightarrow> uint64 list" where
  "fips_sha512 H p = fips_sha2 (\<lambda>t. sha512_K ! t) (sha512_W p) (28, 34, 39) (14, 18, 41) 80 H"

lemma sha256_step_fips: "sha256_step H p = fips_sha256 H p"
proof -
  have "fold (sha256_round (sha256_schedule p)) [0..<64] s =
      fold (fips_sha2_op (\<lambda>t. sha256_K ! t) (sha256_W p) (2, 13, 22) (6, 11, 25)) [0..<64] s" for s
    by (rule fold_upt_eq)
      (auto simp: sha256_round_def fips_sha2_op_def fun_eq_iff Let_def sha256_schedule rotr_bits word_functions)
  then show ?thesis
    unfolding sha256_step_def fips_sha256_def fips_sha2_def Let_def by (simp add: add.commute split: prod.splits)
qed

lemma sha512_step_fips: "sha512_step H p = fips_sha512 H p"
proof -
  have "fold (sha512_round (sha512_schedule p)) [0..<80] s =
      fold (fips_sha2_op (\<lambda>t. sha512_K ! t) (sha512_W p) (28, 34, 39) (14, 18, 41)) [0..<80] s" for s
    by (rule fold_upt_eq)
      (auto simp: sha512_round_def fips_sha2_op_def fun_eq_iff Let_def sha512_schedule rotr_bits word_functions)
  then show ?thesis
    unfolding sha512_step_def fips_sha512_def fips_sha2_def Let_def by (simp add: add.commute split: prod.splits)
qed

text \<open>The index of md4 and md5 in a round of 16 operations.\<close>

lemma less16: "i < 16 \<Longrightarrow> i \<in> {0, 1, 2, 3, 4, 5, 6, 7, 8, 9, 10, 11, 12, 13, 14, 15 :: nat}"
  by (simp add: numeral_eq_Suc less_Suc_eq)

lemma md4_rounds:
  assumes "i < 16"
  shows "md4_round1 X i = rfc1320_op X i" "md4_round2 X i = rfc1320_op X (i + 16)" "md4_round3 X i = rfc1320_op X (i + 32)"
  using less16 [OF assms]
  by (auto simp: md4_round1_def md4_round2_def md4_round3_def rfc1320_op_def fun_eq_iff Let_def rotl32_rotl word_functions
      md4_shift1_def md4_shift2_def md4_shift3_def md4_xIndex2_def md4_xIndex3_def add_ac)
    (simp_all add: numeral_2_eq_2 numeral_3_eq_3)

lemma md5_rounds_div:
  fixes i :: nat
  shows "i < 16 \<Longrightarrow> (i + 16) div 16 = 1" "i < 16 \<Longrightarrow> (i + 32) div 16 = 2" "i < 16 \<Longrightarrow> (i + 48) div 16 = 3"
  using div_mult_self1 [of 16 i 1] div_mult_self1 [of 16 i 2] div_mult_self1 [of 16 i 3] by simp_all

lemma md5_indices:
  fixes i :: nat
  shows "(i + 16) mod 4 = i mod 4" "(i + 32) mod 4 = i mod 4" "(i + 48) mod 4 = i mod 4"
    "(5 * i + 81) mod 16 = Suc (5 * i) mod 16" "(3 * i + 101) mod 16 = (5 + 3 * i) mod 16"
    "(7 * (i + 48)) mod 16 = (7 * i) mod 16"
proof -
  show "(i + 16) mod 4 = i mod 4" using mod_mult_self1 [of i 4 4] by simp
  show "(i + 32) mod 4 = i mod 4" using mod_mult_self1 [of i 8 4] by simp
  show "(i + 48) mod 4 = i mod 4" using mod_mult_self1 [of i 12 4] by simp
  show "(5 * i + 81) mod 16 = Suc (5 * i) mod 16" using mod_mult_self1 [of "Suc (5 * i)" 5 16] by (simp add: add.commute)
  show "(3 * i + 101) mod 16 = (5 + 3 * i) mod 16" using mod_mult_self1 [of "5 + 3 * i" 6 16] by (simp add: add.commute)
  show "(7 * (i + 48)) mod 16 = (7 * i) mod 16" using mod_mult_self1 [of "7 * i" 21 16] by simp
qed

lemma rotl_list [simp]: "list_all (\<lambda>s. 0 < s \<and> s < 32) ss \<Longrightarrow> i < length ss \<Longrightarrow> rotl32 (ss ! i) a = word_rotl (ss ! i) a"
  by (simp add: list_all_length rotl32_rotl)

lemma md5_rounds:
  assumes "i < 16"
  shows "md5_round1 X i = rfc1321_op X i" "md5_round2 X i = rfc1321_op X (i + 16)" "md5_round3 X i = rfc1321_op X (i + 32)"
    "md5_round4 X i = rfc1321_op X (i + 48)"
proof -
  have "i div 16 = 0" "i mod 16 = i" using assms by simp_all
  note op = rfc1321_op_def Let_def this md5_rounds_div [OF assms] nth_Cons_0 nth_Cons_Suc One_nat_def numeral_2_eq_2
    numeral_3_eq_3 md5_indices
  show "md5_round1 X i = rfc1321_op X i" "md5_round2 X i = rfc1321_op X (i + 16)" "md5_round3 X i = rfc1321_op X (i + 32)"
    "md5_round4 X i = rfc1321_op X (i + 48)"
    by (simp_all only: op md5_round1_def md5_round2_def md5_round3_def md5_round4_def)
      (simp_all add: fun_eq_iff word_functions md5_indices(4-5) md5_shift1_def md5_shift2_def md5_shift3_def md5_shift4_def add_ac)
qed

lemma md4_step_rfc: "md4_step h p = rfc1320 h p"
proof -
  let ?X = "le_words p" and ?op = "rfc1320_op (le_words p)"
  have "fold (md4_round3 ?X) [0..<16] (fold (md4_round2 ?X) [0..<16] (fold (md4_round1 ?X) [0..<16] s)) = fold ?op [0..<48] s" for s
  proof -
    have "fold (md4_round1 ?X) [0..<16] s = fold ?op [0..<16] s" for s
      by (rule fold_upt_eq) (rule md4_rounds)
    moreover have "fold (md4_round2 ?X) [0..<16] s = fold ?op [16..<32] s" for s
      by (rule fold_upt_shift, erule md4_rounds) simp
    moreover have "fold (md4_round3 ?X) [0..<16] s = fold ?op [32..<48] s" for s
      by (rule fold_upt_shift, erule md4_rounds) simp
    ultimately show ?thesis by (simp only: fold_upt_join)
  qed
  then show ?thesis
    unfolding md4_step_def rfc1320_def add4_def Let_def by (simp add: add.commute split: prod.splits)
qed

lemma md5_step_rfc: "md5_step h p = rfc1321 h p"
proof -
  let ?X = "le_words p" and ?op = "rfc1321_op (le_words p)"
  have "fold (md5_round4 ?X) [0..<16] (fold (md5_round3 ?X) [0..<16] (fold (md5_round2 ?X) [0..<16] (fold (md5_round1 ?X) [0..<16] s)))
      = fold ?op [0..<64] s" for s
  proof -
    have "fold (md5_round1 ?X) [0..<16] s = fold ?op [0..<16] s" for s
      by (rule fold_upt_eq) (rule md5_rounds)
    moreover have "fold (md5_round2 ?X) [0..<16] s = fold ?op [16..<32] s" for s
      by (rule fold_upt_shift, erule md5_rounds) simp
    moreover have "fold (md5_round3 ?X) [0..<16] s = fold ?op [32..<48] s" for s
      by (rule fold_upt_shift, erule md5_rounds) simp
    moreover have "fold (md5_round4 ?X) [0..<16] s = fold ?op [48..<64] s" for s
      by (rule fold_upt_shift, erule md5_rounds) simp
    ultimately show ?thesis by (simp only: fold_upt_join)
  qed
  then show ?thesis
    unfolding md5_step_def rfc1321_def add4_def Let_def by (simp add: add.commute split: prod.splits)
qed

text \<open>The tables of ripemd160block.go against the permutations and the table of rotations by message word.\<close>

lemma rmd_tables:
  "ripemd160_n1 = map rmd_left [0..<80]" "ripemd160_n2 = map rmd_right [0..<80]"
  "ripemd160_r1 = map (\<lambda>i. rmd_shift ! (i div 16) ! rmd_left i) [0..<80]"
  "ripemd160_r2 = map (\<lambda>i. rmd_shift ! (i div 16) ! rmd_right i) [0..<80]"
  by code_simp+

lemma rmd_rotations: "i < 80 \<Longrightarrow> 0 < rmd_shift ! (i div 16) ! k \<and> rmd_shift ! (i div 16) ! k < 32" if "k < 16"
proof -
  have "list_all (\<lambda>r. list_all (\<lambda>s. 0 < s \<and> s < 32) r) rmd_shift" "list_all (\<lambda>r. length r = 16) rmd_shift" "length rmd_shift = 5"
    by (simp_all add: rmd_shift_def)
  then show "i < 80 \<Longrightarrow> ?thesis" using that by (simp add: list_all_length)
qed

lemma rmd_less: "rmd_left i < 16" "rmd_right i < 16"
proof -
  have r: "k < 16 \<Longrightarrow> rmd_rho ! k < 16" for k
  proof -
    have "list_all (\<lambda>r. r < 16) rmd_rho" "length rmd_rho = 16" by (simp_all add: rmd_rho_def)
    then show "k < 16 \<Longrightarrow> ?thesis" by (simp add: list_all_length)
  qed
  have "k < 16 \<Longrightarrow> ((\<lambda>k. rmd_rho ! k) ^^ j) k < 16" for j k
    by (induction j) (simp_all add: r)
  then show "rmd_left i < 16" "rmd_right i < 16" by (simp_all add: rmd_left_def rmd_right_def)
qed

lemma rmd_index:
  "i < 80 \<Longrightarrow> ripemd160_n1 ! i = rmd_left i" "i < 80 \<Longrightarrow> ripemd160_n2 ! i = rmd_right i"
  "i < 80 \<Longrightarrow> rotl32 (ripemd160_r1 ! i) a = word_rotl (rmd_shift ! (i div 16) ! rmd_left i) a"
  "i < 80 \<Longrightarrow> rotl32 (ripemd160_r2 ! i) a = word_rotl (rmd_shift ! (i div 16) ! rmd_right i) a"
  by (simp_all add: rmd_tables rotl32_rotl rmd_rotations rmd_less del: upt_Suc)

lemma rotl10: "push_bit 10 c OR drop_bit 22 c = word_rotl 10 c" for c :: uint32
  using rotl32_rotl [of 10 c] by (simp add: rotl32_def)

lemma Ch_comm: "(x AND z) OR (y AND NOT z) = Ch z x y"
  by (rule bit_word_eqI) (auto simp: Ch_def bit_simps)

lemma div16:
  fixes i :: nat
  shows "i < 16 \<Longrightarrow> i div 16 = 0" "16 \<le> i \<Longrightarrow> i < 32 \<Longrightarrow> i div 16 = 1" "32 \<le> i \<Longrightarrow> i < 48 \<Longrightarrow> i div 16 = 2"
    "48 \<le> i \<Longrightarrow> i < 64 \<Longrightarrow> i div 16 = 3" "64 \<le> i \<Longrightarrow> i < 80 \<Longrightarrow> i div 16 = 4"
  by simp_all

lemmas rmd_op_defs = rmd_left_op_def rmd_right_op_def rmd_op_def rmd_f_def fun_eq_iff Let_def rotl10 Ch_comm word_functions rmd_index

lemma rmd_lines:
  "i < 16 \<Longrightarrow> ripemd160_line1 x i = rmd_left_op x i" "16 \<le> i \<Longrightarrow> i < 32 \<Longrightarrow> ripemd160_line2 x i = rmd_left_op x i"
  "32 \<le> i \<Longrightarrow> i < 48 \<Longrightarrow> ripemd160_line3 x i = rmd_left_op x i" "48 \<le> i \<Longrightarrow> i < 64 \<Longrightarrow> ripemd160_line4 x i = rmd_left_op x i"
  "64 \<le> i \<Longrightarrow> i < 80 \<Longrightarrow> ripemd160_line5 x i = rmd_left_op x i"
  by (simp_all add: rmd_op_defs div16 ripemd160_line1_def ripemd160_line2_def ripemd160_line3_def ripemd160_line4_def
      ripemd160_line5_def add_ac numeral_2_eq_2 numeral_3_eq_3 nth_Cons')

lemma rmd_parallels:
  "i < 16 \<Longrightarrow> ripemd160_parallel1 x i = rmd_right_op x i" "16 \<le> i \<Longrightarrow> i < 32 \<Longrightarrow> ripemd160_parallel2 x i = rmd_right_op x i"
  "32 \<le> i \<Longrightarrow> i < 48 \<Longrightarrow> ripemd160_parallel3 x i = rmd_right_op x i" "48 \<le> i \<Longrightarrow> i < 64 \<Longrightarrow> ripemd160_parallel4 x i = rmd_right_op x i"
  "64 \<le> i \<Longrightarrow> i < 80 \<Longrightarrow> ripemd160_parallel5 x i = rmd_right_op x i"
  by (simp_all add: rmd_op_defs div16 ripemd160_parallel1_def ripemd160_parallel2_def ripemd160_parallel3_def ripemd160_parallel4_def
      ripemd160_parallel5_def add_ac numeral_2_eq_2 numeral_3_eq_3 nth_Cons')

lemma fold_five_rounds:
  assumes "\<And>i. i < 16 \<Longrightarrow> f1 i = g i" "\<And>i. 16 \<le> i \<Longrightarrow> i < 32 \<Longrightarrow> f2 i = g i" "\<And>i. 32 \<le> i \<Longrightarrow> i < 48 \<Longrightarrow> f3 i = g i"
    "\<And>i. 48 \<le> i \<Longrightarrow> i < 64 \<Longrightarrow> f4 i = g i" "\<And>i. 64 \<le> i \<Longrightarrow> i < 80 \<Longrightarrow> f5 i = g i"
  shows "fold f5 [64..<80] (fold f4 [48..<64] (fold f3 [32..<48] (fold f2 [16..<32] (fold f1 [0..<16] s)))) = fold g [0..<80] s"
proof -
  have "fold f1 [0..<16] s = fold g [0..<16] s" "fold f2 [16..<32] t = fold g [16..<32] t" "fold f3 [32..<48] t = fold g [32..<48] t"
      "fold f4 [48..<64] t = fold g [48..<64] t" "fold f5 [64..<80] t = fold g [64..<80] t" for t
    by (rule fold_upt_eq; rule assms; assumption)+
  then show ?thesis by (simp only: fold_upt_join)
qed

lemma rmd_round_fold: "fold (ripemd160_round f g) is (l, r) = (fold f is l, fold g is r)"
  by (induction "is" arbitrary: l r) (simp_all add: ripemd160_round_def)

lemma ripemd160_step_rmd: "ripemd160_step h p = rmd160 h p"
proof -
  let ?x = "le_words p"
  have left: "fold (ripemd160_line5 ?x) [64..<80] (fold (ripemd160_line4 ?x) [48..<64] (fold (ripemd160_line3 ?x) [32..<48]
      (fold (ripemd160_line2 ?x) [16..<32] (fold (ripemd160_line1 ?x) [0..<16] s)))) = fold (rmd_left_op ?x) [0..<80] s" for s
    by (rule fold_five_rounds) (rule rmd_lines; assumption)+
  have right: "fold (ripemd160_parallel5 ?x) [64..<80] (fold (ripemd160_parallel4 ?x) [48..<64] (fold (ripemd160_parallel3 ?x) [32..<48]
      (fold (ripemd160_parallel2 ?x) [16..<32] (fold (ripemd160_parallel1 ?x) [0..<16] s)))) = fold (rmd_right_op ?x) [0..<80] s" for s
    by (rule fold_five_rounds) (rule rmd_parallels; assumption)+
  show ?thesis
    unfolding ripemd160_step_def rmd160_def Let_def rmd_round_fold left right by (simp add: add_ac split: prod.splits)
qed

text \<open>The constants of RIPEMD-160 are the integer parts of \<open>2\<^sup>3\<^sup>0\<close> times the square roots and the cube roots of 2, 3, 5 and 7.\<close>

definition root30 :: "nat \<Rightarrow> int \<Rightarrow> uint32 \<Rightarrow> bool" where
  "root30 n p k \<longleftrightarrow> uint k ^ n \<le> p * 2 ^ (30 * n) \<and> p * 2 ^ (30 * n) < (uint k + 1) ^ n"

lemma rmd_constants:
  "list_all2 (root30 2) [2, 3, 5, 7] [0x5a827999, 0x6ed9eba1, 0x8f1bbcdc, 0xa953fd4e]"
  "list_all2 (root30 3) [2, 3, 5, 7] [0x50a28be6, 0x5c4dd124, 0x6d703ef3, 0x7a6d76e9]"
  by (simp_all add: root30_def)

section \<open>The hashes\<close>

text \<open>
  C22. After any sequence of calls of \<open>Write\<close>, \<open>Sum\<close> and \<open>Reset\<close> on a new digest of md4, md5 or ripemd160, no call has
  panicked, and every \<open>Sum\<close> has returned \<open>Size\<close> bytes, the hash of all bytes written since the last \<open>Reset\<close>: the
  padded message compressed chunk by chunk with the functions of RFC 1320 and RFC 1321 and, for
  ripemd160, with the two lines of RIPEMD-160 given by its permutations. The pieces in which the message was written do not matter.
\<close>

theorem md_correct:
  "hash_run md4_Hash md4_New cs = Some (hash_spec (hash_of (md4_code\<lparr>hc_step := rfc1320\<rparr>)) [] cs) \<and>
   hash_run md5_Hash md5_New cs = Some (hash_spec (hash_of (md5_code\<lparr>hc_step := rfc1321\<rparr>)) [] cs) \<and>
   hash_run ripemd160_Hash ripemd160_New cs = Some (hash_spec (hash_of (ripemd160_code\<lparr>hc_step := rmd160\<rparr>)) [] cs) \<and>
   length (hash_of md4_code m) = md4_Size \<and> length (hash_of md5_code m) = md5_Size \<and>
   length (hash_of ripemd160_code m) = ripemd160_Size"
proof -
  have "md4_code\<lparr>hc_step := rfc1320\<rparr> = md4_code" "md5_code\<lparr>hc_step := rfc1321\<rparr> = md5_code"
      "ripemd160_code\<lparr>hc_step := rmd160\<rparr> = ripemd160_code"
    by (simp_all add: md4_code_def md5_code_def ripemd160_code_def fun_eq_iff md4_step_rfc md5_step_rfc ripemd160_step_rmd)
  then show ?thesis
    using md4.laws.New_run md5.laws.New_run ripemd160.laws.New_run
    by (simp add: md4_Hash_eq md5_Hash_eq ripemd160_Hash_eq digest_Hash_def md4_New_def md5_New_def ripemd160_New_def
        md4.length_hash_of md5.length_hash_of ripemd160.length_hash_of)
qed

text \<open>
  C23. The same for SHA-1, SHA-256 and SHA-224, SHA-512 and SHA-384, with the compression functions of FIPS 180: the
  message schedule as a recurrence, rotations of words, and one loop of 80 or 64 operations.
\<close>

theorem sha_correct:
  "hash_run sha1_Hash sha1_New cs = Some (hash_spec (hash_of (sha1_code\<lparr>hc_step := fips_sha1\<rparr>)) [] cs) \<and>
   hash_run (sha256_Hash False) sha256_New cs = Some (hash_spec (hash_of ((sha256_code False)\<lparr>hc_step := fips_sha256\<rparr>)) [] cs) \<and>
   hash_run (sha256_Hash True) sha256_New224 cs = Some (hash_spec (hash_of ((sha256_code True)\<lparr>hc_step := fips_sha256\<rparr>)) [] cs) \<and>
   hash_run (sha512_Hash False) sha512_New cs = Some (hash_spec (hash_of ((sha512_code False)\<lparr>hc_step := fips_sha512\<rparr>)) [] cs) \<and>
   hash_run (sha512_Hash True) sha512_New384 cs = Some (hash_spec (hash_of ((sha512_code True)\<lparr>hc_step := fips_sha512\<rparr>)) [] cs) \<and>
   length (hash_of sha1_code m) = sha1_Size \<and> length (hash_of (sha256_code is224) m) = sha256_Size is224 \<and>
   length (hash_of (sha512_code is384) m) = sha512_Size is384"
proof -
  have "sha1_code\<lparr>hc_step := fips_sha1\<rparr> = sha1_code" "(sha256_code b)\<lparr>hc_step := fips_sha256\<rparr> = sha256_code b"
    "(sha512_code b)\<lparr>hc_step := fips_sha512\<rparr> = sha512_code b" for b
    by (simp_all add: sha1_code_def sha256_code_def sha512_code_def fun_eq_iff sha1_step_fips sha256_step_fips sha512_step_fips)
  then show ?thesis
    using sha1.laws.New_run sha256.laws.New_run sha512.laws.New_run
    by (simp add: sha1_Hash_eq sha256_Hash_eq sha512_Hash_eq digest_Hash_def sha1_New_def sha256_New_def sha256_New224_def
        sha512_New_def sha512_New384_def sha1.length_hash_of sha256.length_hash_of sha512.length_hash_of)
qed

end
