(* ===== verification/Sha2_Constants.thy ===== *)
theory Sha2_Constants
  imports Crypto_Sha256 Crypto_Sha512
begin

text \<open>
  The tables of crypto/sha256 and crypto/sha512 hold the constants of FIPS 180: the first 32 or 64 bits of the
  fractional parts of the cube roots of the first primes and, as initial values, of their square roots. So the
  constants that the compression functions of the standard take from these tables are the published ones.
\<close>

definition primes_410 :: "int list" where
  "primes_410 = filter (\<lambda>p. list_all (\<lambda>d. p \<le> d \<or> p mod d \<noteq> 0) [2, 3, 5, 7, 11, 13, 17, 19]) [2..409]"

definition root_bits :: "nat \<Rightarrow> nat \<Rightarrow> int \<Rightarrow> int \<Rightarrow> bool" where
  "root_bits n w p k \<longleftrightarrow> 0 \<le> k \<and> k < 2 ^ w \<and>
     (let x = int (length (filter (\<lambda>q. q ^ n \<le> p) [1, 2, 3, 4, 5, 6, 7])) * 2 ^ w + k
      in x ^ n \<le> p * 2 ^ (n * w) \<and> p * 2 ^ (n * w) < (x + 1) ^ n)"

lemma primes_410_eq:
  "primes_410 = [
     2, 3, 5, 7, 11, 13, 17, 19, 23, 29, 31, 37, 41, 43, 47, 53, 59, 61, 67, 71,
     73, 79, 83, 89, 97, 101, 103, 107, 109, 113, 127, 131, 137, 139, 149, 151, 157, 163, 167, 173,
     179, 181, 191, 193, 197, 199, 211, 223, 227, 229, 233, 239, 241, 251, 257, 263, 269, 271, 277, 281,
     283, 293, 307, 311, 313, 317, 331, 337, 347, 349, 353, 359, 367, 373, 379, 383, 389, 397, 401, 409]"
  by code_simp

lemma sha256_K_roots: "list_all2 (root_bits 3 32) (take 64 primes_410) (map uint sha256_K)"
  unfolding primes_410_eq by code_simp

lemma sha512_K_roots: "list_all2 (root_bits 3 64) primes_410 (map uint sha512_K)"
  unfolding primes_410_eq by code_simp

lemma sha2_init_roots:
  "list_all2 (root_bits 2 32) (take 8 primes_410) (map uint (sha256_init False))"
  "list_all2 (root_bits 2 64) (take 8 primes_410) (map uint (sha512_init False))"
  "list_all2 (root_bits 2 64) (take 8 (drop 8 primes_410)) (map uint (sha512_init True))"
  "sha256_init True = map ucast (sha512_init True)"
  unfolding primes_410_eq by code_simp+

end
