(* ===== verification/Crypto_Hmac.thy ===== *)
theory Crypto_Hmac
  imports Crypto_Hashes
begin

text \<open>
  crypto/hmac/hmac.go over any hash that keeps the contract \<open>hash_laws\<close>. An HMAC is again a hash: it
  keeps the same contract for the function of FIPS 198.
\<close>

unbundle bit_operations_syntax

section \<open>The code\<close>

definition padSize :: nat where
  "padSize = 64"

record 's hmac =
  hm_size :: nat
  hm_key :: "byte list"
  hm_tmp :: "byte list"
  hm_outer :: 's
  hm_inner :: 's

text \<open>The two loops of \<open>tmpPad\<close>; \<open>None\<close> is an index out of range.\<close>

definition hmac_tmpPad :: "'s hmac \<Rightarrow> byte \<Rightarrow> 's hmac option" where
  "hmac_tmpPad h x = do {
     tmp \<leftarrow> forLoop (\<lambda>i tmp. slice_put tmp (int i) (x XOR hm_key h ! i)) [0..<length (hm_key h)] (hm_tmp h);
     tmp \<leftarrow> forLoop (\<lambda>i tmp. slice_put tmp (int i) x) [length (hm_key h)..<padSize] tmp;
     Some (h\<lparr>hm_tmp := tmp\<rparr>) }"

definition hmac_Sum :: "'s Hash \<Rightarrow> 's hmac \<Rightarrow> ('s hmac \<times> byte list) option" where
  "hmac_Sum H h = do {
     (inner, sm) \<leftarrow> hash_Sum H (hm_inner h);
     h \<leftarrow> hmac_tmpPad (h\<lparr>hm_inner := inner\<rparr>) 0x5c;
     tmp \<leftarrow> forLoop (\<lambda>i tmp. slice_put tmp (int (padSize + i)) (sm ! i)) [0..<length sm] (hm_tmp h);
     outer \<leftarrow> hash_Reset H (hm_outer h);
     let outer = fst (hash_Write H outer tmp);
     (outer, res) \<leftarrow> hash_Sum H outer;
     Some (h\<lparr>hm_tmp := tmp, hm_outer := outer\<rparr>, res) }"

definition hmac_Write :: "'s Hash \<Rightarrow> 's hmac \<Rightarrow> byte list \<Rightarrow> 's hmac \<times> nat" where
  "hmac_Write H h p = (let (inner, n) = hash_Write H (hm_inner h) p in (h\<lparr>hm_inner := inner\<rparr>, n))"

definition hmac_Size :: "'s hmac \<Rightarrow> nat" where
  "hmac_Size h = hm_size h"

definition hmac_Reset :: "'s Hash \<Rightarrow> 's hmac \<Rightarrow> 's hmac option" where
  "hmac_Reset H h = do {
     inner \<leftarrow> hash_Reset H (hm_inner h);
     h \<leftarrow> hmac_tmpPad (h\<lparr>hm_inner := inner\<rparr>) 0x36;
     if length (hm_tmp h) < padSize then None
     else Some (h\<lparr>hm_inner := fst (hash_Write H (hm_inner h) (take padSize (hm_tmp h)))\<rparr>) }"

definition hmac_New :: "'s Hash \<Rightarrow> byte list \<Rightarrow> 's hmac option" where
  "hmac_New H key = do {
     let outer = hash_New H;
     let inner = hash_New H;
     let size = hash_Size H inner;
     let tmp = replicate (padSize + size) 0;
     (outer, key) \<leftarrow> (if length key > padSize
       then do { let outer = fst (hash_Write H outer key); (outer, key) \<leftarrow> hash_Sum H outer; Some (outer, key) }
       else Some (outer, key));
     hmac_Reset H \<lparr>hm_size = size, hm_key = key, hm_tmp = tmp, hm_outer = outer, hm_inner = inner\<rparr> }"

definition hmac_NewMD5 :: "byte list \<Rightarrow> uint32 list digest hmac option" where
  "hmac_NewMD5 key = hmac_New md5_Hash key"

definition hmac_NewSHA1 :: "byte list \<Rightarrow> uint32 list digest hmac option" where
  "hmac_NewSHA1 key = hmac_New sha1_Hash key"

definition hmac_NewSHA256 :: "byte list \<Rightarrow> uint32 list digest hmac option" where
  "hmac_NewSHA256 key = hmac_New (sha256_Hash False) key"

text \<open>The value returned by \<open>New\<close> as a \<open>hash.Hash\<close>.\<close>

definition hmac_Hash :: "'s Hash \<Rightarrow> 's hmac \<Rightarrow> 's hmac Hash" where
  "hmac_Hash H h = \<lparr>hash_New = h, hash_Write = hmac_Write H, hash_Sum = hmac_Sum H, hash_Reset = hmac_Reset H, hash_Size = hmac_Size\<rparr>"

section \<open>Reference\<close>

text \<open>FIPS 198: the key, hashed if it is longer than a block, is padded with zeros and combined with the two pads.\<close>

definition hmac_key :: "(byte list \<Rightarrow> byte list) \<Rightarrow> byte list \<Rightarrow> byte list" where
  "hmac_key f key = (if length key > 64 then f key else key)"

definition hmac_pad :: "byte \<Rightarrow> byte list \<Rightarrow> byte list" where
  "hmac_pad x k = map (\<lambda>b. b XOR x) (k @ replicate (64 - length k) 0)"

definition hmac_of :: "(byte list \<Rightarrow> byte list) \<Rightarrow> byte list \<Rightarrow> byte list \<Rightarrow> byte list" where
  "hmac_of f key m = (let k = hmac_key f key in f (hmac_pad 0x5c k @ f (hmac_pad 0x36 k @ m)))"

section \<open>The pads\<close>

text \<open>A loop that stores \<open>v i\<close> at index \<open>a + i\<close>.\<close>

lemma fill_loop:
  assumes "a + n \<le> length xs"
  shows "forLoop (\<lambda>i xs. slice_put xs (int (a + i)) (v i)) [0..<n] xs = Some (take a xs @ map v [0..<n] @ drop (a + n) xs)"
  using assms
proof (induction n)
  case (Suc n)
  have "(take a xs @ map v [0..<n] @ drop (a + n) xs)[a + n := v n] = take a xs @ map v [0..<Suc n] @ drop (a + Suc n) xs"
    using Suc.prems by (simp add: list_update_append Cons_nth_drop_Suc [symmetric] del: upt_Suc) (simp add: upt_Suc)
  then show ?case
    unfolding forLoop_snoc using Suc by (simp add: slice_put_nat del: upt_Suc of_nat_add)
qed simp

lemma forLoop_shift: "forLoop body [a..<a + n] s = forLoop (\<lambda>i. body (a + i)) [0..<n] s"
proof -
  have "forLoop body (map (\<lambda>i. a + i) is) s = forLoop (\<lambda>i. body (a + i)) is s" for "is" s
    by (induction "is" arbitrary: s) (auto split: Option.bind_splits)
  from this [of "[0..<n]"] show ?thesis by (simp add: map_add_upt add.commute)
qed

lemma tmpPad_eq:
  assumes "length (hm_key h) \<le> 64" "64 \<le> length (hm_tmp h)"
  shows "hmac_tmpPad h x = Some (h\<lparr>hm_tmp := hmac_pad x (hm_key h) @ drop 64 (hm_tmp h)\<rparr>)"
proof -
  let ?k = "hm_key h" and ?t = "hm_tmp h"
  let ?t1 = "map (\<lambda>i. x XOR ?k ! i) [0..<length ?k] @ drop (length ?k) ?t"
  have 1: "forLoop (\<lambda>i tmp. slice_put tmp (int i) (x XOR ?k ! i)) [0..<length ?k] ?t = Some ?t1"
    using fill_loop [of 0 "length ?k" ?t "\<lambda>i. x XOR ?k ! i"] assms by simp
  have "map (\<lambda>i. x XOR ?k ! i) [0..<length ?k] = map (\<lambda>b. b XOR x) ?k"
    by (rule nth_equalityI) (simp_all add: xor.commute)
  moreover have "forLoop (\<lambda>i tmp. slice_put tmp (int i) x) [length ?k..<64] ?t1 =
      Some (take (length ?k) ?t1 @ replicate (64 - length ?k) x @ drop 64 ?t1)"
    using forLoop_shift [of "\<lambda>i tmp. slice_put tmp (int i) x" "length ?k" "64 - length ?k" ?t1]
      fill_loop [of "length ?k" "64 - length ?k" ?t1 "\<lambda>_. x"] assms
    by (simp add: map_replicate_const)
  ultimately show ?thesis
    using assms 1 by (simp add: hmac_tmpPad_def padSize_def hmac_pad_def map_replicate_const del: upt_Suc)
qed

lemma length_pad [simp]: "length k \<le> 64 \<Longrightarrow> length (hmac_pad x k) = 64"
  by (simp add: hmac_pad_def)

section \<open>Correctness\<close>

definition hmac_repr :: "('s \<Rightarrow> byte list \<Rightarrow> bool) \<Rightarrow> nat \<Rightarrow> byte list \<Rightarrow> 's hmac \<Rightarrow> byte list \<Rightarrow> bool" where
  "hmac_repr rep sz k h m \<longleftrightarrow> hm_size h = sz \<and> hm_key h = k \<and> length (hm_tmp h) = 64 + sz \<and>
     rep (hm_inner h) (hmac_pad 0x36 k @ m) \<and> (\<exists>m'. rep (hm_outer h) m')"

locale hmac_hash = hash_laws +
  assumes size_small: "size_f \<le> 64"
begin

lemma length_key: "length (hmac_key f key) \<le> 64"
  using size_small by (simp add: hmac_key_def length_f)

lemma hmac_Write_repr: "hmac_repr rep size_f k h m \<Longrightarrow> hmac_repr rep size_f k (fst (hmac_Write H h p)) (m @ p)"
  using Write_rep [of "hm_inner h" "hmac_pad 0x36 k @ m" p] by (auto simp: hmac_repr_def hmac_Write_def case_prod_unfold Let_def)

lemma hmac_Reset_inner:
  assumes "rep (hm_inner h) m" "rep (hm_outer h) m'" "hm_size h = size_f" "hm_key h = k" "length k \<le> 64"
    "length (hm_tmp h) = 64 + size_f"
  shows "\<exists>h'. hmac_Reset H h = Some h' \<and> hmac_repr rep size_f k h' []"
proof -
  obtain s where s: "hash_Reset H (hm_inner h) = Some s" "rep s []" using Reset_rep [OF assms(1)] by blast
  have "rep (fst (hash_Write H s (hmac_pad 0x36 k))) (hmac_pad 0x36 k)" using Write_rep [OF s(2)] by simp
  then show ?thesis
    using s assms by (auto simp: hmac_Reset_def tmpPad_eq padSize_def hmac_repr_def)
qed

lemma hmac_Reset_repr:
  "hmac_repr rep size_f k h m \<Longrightarrow> length k \<le> 64 \<Longrightarrow> \<exists>h'. hmac_Reset H h = Some h' \<and> hmac_repr rep size_f k h' []"
  using hmac_Reset_inner by (auto simp: hmac_repr_def)

lemma hmac_Sum_repr:
  assumes "hmac_repr rep size_f k h m" "length k \<le> 64"
  shows "\<exists>h'. hmac_Sum H h = Some (h', f (hmac_pad 0x5c k @ f (hmac_pad 0x36 k @ m))) \<and> hmac_repr rep size_f k h' m"
proof -
  from assms(1) obtain m' where h: "hm_size h = size_f" "hm_key h = k" "length (hm_tmp h) = 64 + size_f"
      "rep (hm_inner h) (hmac_pad 0x36 k @ m)" "rep (hm_outer h) m'" by (auto simp: hmac_repr_def)
  let ?sum = "f (hmac_pad 0x36 k @ m)"
  obtain s where s: "hash_Sum H (hm_inner h) = Some (s, ?sum)" "rep s (hmac_pad 0x36 k @ m)" using Sum_rep [OF h(4)] by blast
  obtain t where t: "hash_Reset H (hm_outer h) = Some t" "rep t []" using Reset_rep [OF h(5)] by blast
  let ?tmp = "hmac_pad 0x5c k @ ?sum"
  have "rep (fst (hash_Write H t ?tmp)) ?tmp" using Write_rep [OF t(2)] by simp
  then obtain u where u: "hash_Sum H (fst (hash_Write H t ?tmp)) = Some (u, f ?tmp)" "rep u ?tmp" using Sum_rep by blast
  have "forLoop (\<lambda>i tmp. slice_put tmp (int (padSize + i)) (?sum ! i)) [0..<length ?sum] (hmac_pad 0x5c k @ drop 64 (hm_tmp h)) = Some ?tmp"
    using fill_loop [of 64 "length ?sum" "hmac_pad 0x5c k @ drop 64 (hm_tmp h)" "\<lambda>i. ?sum ! i"] assms(2) h(3) map_nth [of ?sum]
    by (simp add: padSize_def length_f)
  then show ?thesis
    unfolding hmac_Sum_def using s t u h assms(2) by (auto simp: tmpPad_eq hmac_repr_def length_f simp del: of_nat_add)
qed

lemma hmac_New_repr: "\<exists>h. hmac_New H key = Some h \<and> hmac_repr rep size_f (hmac_key f key) h []"
proof -
  let ?o = "fst (hash_Write H (hash_New H) key)"
  obtain s where s: "hash_Sum H ?o = Some (s, f key)" "rep s key" using Sum_rep [OF Write_rep [OF New_rep], of key] by auto
  then obtain outer m where o: "rep outer m" "(if length key > padSize
       then do { let outer = fst (hash_Write H (hash_New H) key); (outer, key) \<leftarrow> hash_Sum H outer; Some (outer, key) }
       else Some (hash_New H, key)) = Some (outer, hmac_key f key)"
    using New_rep by (cases "length key > 64") (auto simp: padSize_def hmac_key_def)
  let ?h = "\<lparr>hm_size = size_f, hm_key = hmac_key f key, hm_tmp = replicate (64 + size_f) 0, hm_outer = outer, hm_inner = hash_New H\<rparr>"
  have "\<exists>h. hmac_Reset H ?h = Some h \<and> hmac_repr rep size_f (hmac_key f key) h []"
    by (rule hmac_Reset_inner [of _ "[]" m]) (use o(1) New_rep length_key in simp_all)
  then show ?thesis
    unfolding hmac_New_def Let_def o(2) [unfolded Let_def] using Size_rep [OF New_rep] by (simp add: padSize_def)
qed

text \<open>An HMAC keeps the contract of a hash.\<close>

lemma hmac_laws:
  assumes "hmac_New H key = Some h"
  shows "hash_laws (hmac_Hash H h) (hmac_repr rep size_f (hmac_key f key)) (hmac_of f key) size_f"
proof unfold_locales
  show "hmac_repr rep size_f (hmac_key f key) (hash_New (hmac_Hash H h)) []"
    using hmac_New_repr [of key] assms by (simp add: hmac_Hash_def)
  fix s m p assume s: "hmac_repr rep size_f (hmac_key f key) s m"
  show "hmac_repr rep size_f (hmac_key f key) (fst (hash_Write (hmac_Hash H h) s p)) (m @ p)"
    using hmac_Write_repr [OF s] by (simp add: hmac_Hash_def)
  show "\<exists>s'. hash_Sum (hmac_Hash H h) s = Some (s', hmac_of f key m) \<and> hmac_repr rep size_f (hmac_key f key) s' m"
    using hmac_Sum_repr [OF s length_key] by (simp add: hmac_Hash_def hmac_of_def Let_def)
  show "\<exists>s'. hash_Reset (hmac_Hash H h) s = Some s' \<and> hmac_repr rep size_f (hmac_key f key) s' []"
    using hmac_Reset_repr [OF s length_key] by (simp add: hmac_Hash_def)
  show "hash_Size (hmac_Hash H h) s = size_f"
    using s by (simp add: hmac_Hash_def hmac_Size_def hmac_repr_def)
qed (simp_all add: hmac_Hash_def hmac_Write_def hmac_of_def Write_count length_f case_prod_unfold Let_def)

lemma hmac_run:
  "\<exists>h. hmac_New H key = Some h \<and> hmac_Size h = size_f \<and> hash_run (hmac_Hash H h) h cs = Some (hash_spec (hmac_of f key) [] cs)"
proof -
  obtain h where h: "hmac_New H key = Some h" "hmac_repr rep size_f (hmac_key f key) h []" using hmac_New_repr by blast
  then show ?thesis
    using hash_laws.New_run [OF hmac_laws [OF h(1)], of cs] by (simp add: hmac_Hash_def hmac_Size_def hmac_repr_def)
qed

end

interpretation md5_hmac: hmac_hash md5_Hash "digest_repr md5_code" "hash_of md5_code" md5_Size
  unfolding md5_Hash_eq hmac_hash_def hmac_hash_axioms_def
  using md5.laws.hash_laws_axioms by (simp add: md5_Size_def)

interpretation sha1_hmac: hmac_hash sha1_Hash "digest_repr sha1_code" "hash_of sha1_code" sha1_Size
  unfolding sha1_Hash_eq hmac_hash_def hmac_hash_axioms_def
  using sha1.laws.hash_laws_axioms by (simp add: sha1_Size_def)

interpretation sha256_hmac: hmac_hash "sha256_Hash b" "digest_repr (sha256_code b)" "hash_of (sha256_code b)" "sha256_Size b" for b
  unfolding sha256_Hash_eq hmac_hash_def hmac_hash_axioms_def
  using sha256.laws.hash_laws_axioms by (simp add: sha256_Size_def)

text \<open>
  C24. \<open>NewMD5\<close>, \<open>NewSHA1\<close> and \<open>NewSHA256\<close> return for every key, and on the value they return every sequence of
  calls of \<open>Write\<close>, \<open>Sum\<close> and \<open>Reset\<close> succeeds; each \<open>Sum\<close> is the HMAC of FIPS 198 of the bytes written since the
  last \<open>Reset\<close>. That \<open>Sum\<close> overwrites the shared buffer \<open>tmp\<close> and the outer hash does not disturb later calls.
\<close>

theorem hmac_correct:
  "(\<exists>h. hmac_NewMD5 key = Some h \<and> hmac_Size h = 16 \<and>
      hash_run (hmac_Hash md5_Hash h) h cs = Some (hash_spec (hmac_of (hash_of md5_code) key) [] cs)) \<and>
   (\<exists>h. hmac_NewSHA1 key = Some h \<and> hmac_Size h = 20 \<and>
      hash_run (hmac_Hash sha1_Hash h) h cs = Some (hash_spec (hmac_of (hash_of sha1_code) key) [] cs)) \<and>
   (\<exists>h. hmac_NewSHA256 key = Some h \<and> hmac_Size h = 32 \<and>
      hash_run (hmac_Hash (sha256_Hash False) h) h cs = Some (hash_spec (hmac_of (hash_of (sha256_code False)) key) [] cs))"
  using md5_hmac.hmac_run [of key cs] sha1_hmac.hmac_run [of key cs] sha256_hmac.hmac_run [of False key cs]
  by (simp add: hmac_NewMD5_def hmac_NewSHA1_def hmac_NewSHA256_def md5_Size_def sha1_Size_def sha256_Size_def)

end
