(* ===== verification/Hash_Crc.thy ===== *)
theory Hash_Crc
  imports Hash_Interface
begin

text \<open>
  hash/crc32/crc32.go (with the generic updateCastagnoli of crc32_generic.go) and hash/crc64/crc64.go.
  The two packages have the same table and the same loop at different widths; the definitions over
  any width are the code, and those of the packages are their instances.
\<close>

unbundle bit_operations_syntax

section \<open>The code\<close>

text \<open>The body of the inner loop of \<open>makeTable\<close>, and the table.\<close>

definition crc_bit :: "'w::len word \<Rightarrow> 'w word \<Rightarrow> 'w word" where
  "crc_bit poly crc = (if crc AND 1 = 1 then drop_bit 1 crc XOR poly else drop_bit 1 crc)"

definition crc_makeTable :: "'w::len word \<Rightarrow> 'w word list" where
  "crc_makeTable poly = map (\<lambda>i. (crc_bit poly ^^ 8) (of_nat i)) [0..<256]"

text \<open>The body of the loop of \<open>update\<close>, and \<open>update\<close>. The index is a byte and the table has 256 entries.\<close>

definition crc_byte :: "'w::len word list \<Rightarrow> byte \<Rightarrow> 'w word \<Rightarrow> 'w word" where
  "crc_byte tab v crc = tab ! unat (ucast crc XOR v) XOR drop_bit 8 crc"

definition crc_update :: "'w::len word \<Rightarrow> 'w word list \<Rightarrow> byte list \<Rightarrow> 'w word" where
  "crc_update crc tab p = NOT (fold (crc_byte tab) p (NOT crc))"

subsection \<open>crc32\<close>

definition crc32_IEEE :: uint32 where "crc32_IEEE = 0xedb88320"
definition crc32_Castagnoli :: uint32 where "crc32_Castagnoli = 0x82f63b78"
definition crc32_Koopman :: uint32 where "crc32_Koopman = 0xeb31d82e"

text \<open>
  A pointer to a \<open>Table\<close> is the address of the table with its contents, which nothing writes once
  the table is made. The global variables: \<open>IEEETable\<close>, and \<open>castagnoliTable\<close>, nil at first.
\<close>

record crc32_Table =
  tab_addr :: nat
  tab_words :: "uint32 list"

record crc32_globals =
  g_next :: nat
  g_IEEETable :: crc32_Table
  g_castagnoliTable :: "crc32_Table option"

definition crc32_makeTable :: "crc32_globals \<Rightarrow> uint32 \<Rightarrow> crc32_globals \<times> crc32_Table" where
  "crc32_makeTable g poly =
    (g\<lparr>g_next := g_next g + 1\<rparr>, \<lparr>tab_addr = g_next g, tab_words = crc_makeTable poly\<rparr>)"

text \<open>The state of the package after its initialization.\<close>

definition crc32_globals0 :: crc32_globals where
  "crc32_globals0 = \<lparr>g_next = 1, g_IEEETable = \<lparr>tab_addr = 0, tab_words = crc_makeTable crc32_IEEE\<rparr>, g_castagnoliTable = None\<rparr>"

text \<open>\<open>castagnoliOnce.Do(castagnoliInit)\<close>: the table is made by the first call only.\<close>

definition crc32_castagnoliInit :: "crc32_globals \<Rightarrow> crc32_globals \<times> crc32_Table" where
  "crc32_castagnoliInit g = (let (g, t) = crc32_makeTable g crc32_Castagnoli in (g\<lparr>g_castagnoliTable := Some t\<rparr>, t))"

definition crc32_MakeTable :: "crc32_globals \<Rightarrow> uint32 \<Rightarrow> crc32_globals \<times> crc32_Table" where
  "crc32_MakeTable g poly =
    (if poly = crc32_IEEE then (g, g_IEEETable g)
     else if poly = crc32_Castagnoli
     then (case g_castagnoliTable g of None \<Rightarrow> crc32_castagnoliInit g | Some t \<Rightarrow> (g, t))
     else crc32_makeTable g poly)"

definition crc32_update :: "uint32 \<Rightarrow> crc32_Table \<Rightarrow> byte list \<Rightarrow> uint32" where
  "crc32_update crc tab p = crc_update crc (tab_words tab) p"

text \<open>The generic version of \<open>updateCastagnoli\<close>; \<open>t\<close> is what the variable \<open>castagnoliTable\<close> points to.\<close>

definition crc32_updateCastagnoli :: "crc32_Table \<Rightarrow> uint32 \<Rightarrow> byte list \<Rightarrow> uint32" where
  "crc32_updateCastagnoli t crc p = crc32_update crc t p"

definition crc32_Update :: "crc32_globals \<Rightarrow> uint32 \<Rightarrow> crc32_Table \<Rightarrow> byte list \<Rightarrow> uint32" where
  "crc32_Update g crc tab p =
    (case g_castagnoliTable g of
       Some t \<Rightarrow> if tab_addr tab = tab_addr t then crc32_updateCastagnoli t crc p else crc32_update crc tab p
     | None \<Rightarrow> crc32_update crc tab p)"

definition crc32_Checksum :: "crc32_globals \<Rightarrow> byte list \<Rightarrow> crc32_Table \<Rightarrow> uint32" where
  "crc32_Checksum g data tab = crc32_Update g 0 tab data"

definition crc32_ChecksumIEEE :: "crc32_globals \<Rightarrow> byte list \<Rightarrow> uint32" where
  "crc32_ChecksumIEEE g data = crc32_update 0 (g_IEEETable g) data"

text \<open>The digest, with the global variables that its method \<open>Write\<close> reads.\<close>

record crc32_digest =
  c32_crc :: uint32
  c32_tab :: crc32_Table

definition crc32_New :: "crc32_Table \<Rightarrow> crc32_digest" where
  "crc32_New tab = \<lparr>c32_crc = 0, c32_tab = tab\<rparr>"

definition crc32_Reset :: "crc32_digest \<Rightarrow> crc32_digest" where
  "crc32_Reset d = d\<lparr>c32_crc := 0\<rparr>"

definition crc32_Write :: "crc32_globals \<Rightarrow> crc32_digest \<Rightarrow> byte list \<Rightarrow> crc32_digest \<times> nat" where
  "crc32_Write g d p = (d\<lparr>c32_crc := crc32_Update g (c32_crc d) (c32_tab d) p\<rparr>, length p)"

definition crc32_Sum :: "crc32_digest \<Rightarrow> byte list" where
  "crc32_Sum d = (let s = c32_crc d in
     [ucast (drop_bit 24 s), ucast (drop_bit 16 s), ucast (drop_bit 8 s), ucast s])"

definition crc32_Size :: nat where "crc32_Size = 4"

definition crc32_Hash :: "crc32_globals \<Rightarrow> crc32_Table \<Rightarrow> crc32_digest Hash" where
  "crc32_Hash g tab = \<lparr>hash_New = crc32_New tab, hash_Write = crc32_Write g, hash_Sum = \<lambda>d. Some (d, crc32_Sum d),
     hash_Reset = \<lambda>d. Some (crc32_Reset d), hash_Size = \<lambda>d. crc32_Size\<rparr>"

subsection \<open>crc64\<close>

definition crc64_ISO :: uint64 where "crc64_ISO = 0xD800000000000000"
definition crc64_ECMA :: uint64 where "crc64_ECMA = 0xC96C5795D7870F42"

definition crc64_MakeTable :: "uint64 \<Rightarrow> uint64 list" where
  "crc64_MakeTable poly = crc_makeTable poly"

definition crc64_update :: "uint64 \<Rightarrow> uint64 list \<Rightarrow> byte list \<Rightarrow> uint64" where
  "crc64_update crc tab p = crc_update crc tab p"

definition crc64_Update :: "uint64 \<Rightarrow> uint64 list \<Rightarrow> byte list \<Rightarrow> uint64" where
  "crc64_Update crc tab p = crc64_update crc tab p"

definition crc64_Checksum :: "byte list \<Rightarrow> uint64 list \<Rightarrow> uint64" where
  "crc64_Checksum data tab = crc64_update 0 tab data"

record crc64_digest =
  c64_crc :: uint64
  c64_tab :: "uint64 list"

definition crc64_New :: "uint64 list \<Rightarrow> crc64_digest" where
  "crc64_New tab = \<lparr>c64_crc = 0, c64_tab = tab\<rparr>"

definition crc64_Reset :: "crc64_digest \<Rightarrow> crc64_digest" where
  "crc64_Reset d = d\<lparr>c64_crc := 0\<rparr>"

definition crc64_Write :: "crc64_digest \<Rightarrow> byte list \<Rightarrow> crc64_digest \<times> nat" where
  "crc64_Write d p = (d\<lparr>c64_crc := crc64_update (c64_crc d) (c64_tab d) p\<rparr>, length p)"

definition crc64_Sum :: "crc64_digest \<Rightarrow> byte list" where
  "crc64_Sum d = (let s = c64_crc d in
     [ucast (drop_bit 56 s), ucast (drop_bit 48 s), ucast (drop_bit 40 s), ucast (drop_bit 32 s),
      ucast (drop_bit 24 s), ucast (drop_bit 16 s), ucast (drop_bit 8 s), ucast s])"

definition crc64_Size :: nat where "crc64_Size = 8"

definition crc64_Hash :: "uint64 list \<Rightarrow> crc64_digest Hash" where
  "crc64_Hash tab = \<lparr>hash_New = crc64_New tab, hash_Write = crc64_Write, hash_Sum = \<lambda>d. Some (d, crc64_Sum d),
     hash_Reset = \<lambda>d. Some (crc64_Reset d), hash_Size = \<lambda>d. crc64_Size\<rparr>"

section \<open>Reference\<close>

text \<open>
  The division of the message by the polynomial, one bit at a time: the shift register takes the bits of
  every byte from the lowest on.
\<close>

definition crc_shift :: "'w::len word \<Rightarrow> bool \<Rightarrow> 'w word \<Rightarrow> 'w word" where
  "crc_shift poly b crc = drop_bit 1 crc XOR (if bit crc 0 \<noteq> b then poly else 0)"

definition byte_bits :: "byte \<Rightarrow> bool list" where
  "byte_bits v = map (bit v) [0..<8]"

text \<open>The checksum of a message, and of a message that continues one whose checksum is \<open>crc\<close>.\<close>

definition crc_from :: "'w::len word \<Rightarrow> 'w word \<Rightarrow> byte list \<Rightarrow> 'w word" where
  "crc_from poly crc m = NOT (fold (crc_shift poly) (concat (map byte_bits m)) (NOT crc))"

definition crc_of :: "'w::len word \<Rightarrow> byte list \<Rightarrow> 'w word" where
  "crc_of poly m = NOT (fold (crc_shift poly) (concat (map byte_bits m)) (NOT 0))"

section \<open>Bits\<close>

lemma crc_bit_shift: "crc_bit poly crc = crc_shift poly False crc"
  by (simp add: crc_bit_def crc_shift_def and_one_eq odd_iff_mod_2_eq_one bit_0)

lemma crc_shift_xor:
  fixes poly :: "'w::len word"
  shows "crc_shift poly b crc = crc_bit poly (crc XOR of_bool b)"
proof -
  have "drop_bit 1 (of_bool b :: 'w word) = 0" by (cases b) (simp_all add: drop_bit_Suc)
  then show ?thesis by (simp add: crc_bit_shift crc_shift_def bit_simps drop_bit_xor)
qed

lemma crc_bit_linear: "crc_bit poly (x XOR y) = crc_bit poly x XOR crc_bit poly y"
  by (rule bit_word_eqI) (auto simp: crc_bit_shift crc_shift_def bit_simps)

lemma crc_bits_linear: "(crc_bit poly ^^ n) (x XOR y) = (crc_bit poly ^^ n) x XOR (crc_bit poly ^^ n) y"
  by (induction n) (simp_all add: crc_bit_linear)

text \<open>Zero bits only move.\<close>

lemma crc_bits_zero: "(\<And>i. i < n \<Longrightarrow> \<not> bit x i) \<Longrightarrow> (crc_bit poly ^^ n) x = drop_bit n x"
proof (induction n arbitrary: x)
  case (Suc n)
  have "crc_bit poly x = drop_bit 1 x" using Suc.prems [of 0] by (simp add: crc_bit_shift crc_shift_def)
  then show ?case
    using Suc.IH [of "drop_bit 1 x"] Suc.prems by (simp add: funpow_swap1 bit_simps drop_bit_drop_bit)
qed simp

text \<open>A sequence of bits that fits into the register can be added at once.\<close>

lemma crc_shifts:
  fixes poly :: "'w::len word"
  shows "length bs \<le> LENGTH('w) \<Longrightarrow> fold (crc_shift poly) bs c = (crc_bit poly ^^ length bs) (c XOR horner_sum of_bool 2 bs)"
proof (induction bs arbitrary: c)
  case (Cons b bs)
  let ?w = "horner_sum of_bool 2 bs :: 'w word"
  have "drop_bit 1 (push_bit 1 ?w) = ?w"
    using Cons.prems by (intro bit_word_eqI) (auto simp: bit_simps bit_horner_sum_bit_word_iff simp del: push_bit_Suc)
  then have "crc_bit poly (push_bit 1 ?w) = ?w"
    using crc_bits_zero [of 1 "push_bit 1 ?w" poly] by (simp add: bit_simps del: push_bit_Suc)
  then have "crc_bit poly (c XOR of_bool b) XOR ?w = crc_bit poly ((c XOR of_bool b) XOR push_bit 1 ?w)"
    by (simp add: crc_bit_linear)
  also have "(c XOR of_bool b) XOR push_bit 1 ?w = c XOR horner_sum of_bool 2 (b # bs)"
    by (rule bit_word_eqI) (auto simp: bit_simps bit_horner_sum_bit_word_iff nth_Cons split: nat.splits simp del: push_bit_Suc horner_sum_simps)
  finally show ?case
    using Cons by (simp add: crc_shift_xor funpow_swap1)
qed simp

section \<open>The table\<close>

lemma length_byte_bits [simp]: "length (byte_bits v) = 8"
  by (simp add: byte_bits_def)

lemma bit_byte: "bit (v :: byte) i \<longleftrightarrow> i < 8 \<and> byte_bits v ! i"
  using bit_imp_le_length [of v i] by (auto simp: byte_bits_def)

lemma no_bit_byte: "8 \<le> i \<Longrightarrow> \<not> bit (v :: byte) i"
  by (simp add: bit_byte)

lemma horner_byte_bits:
  assumes "8 \<le> LENGTH('w::len)"
  shows "horner_sum of_bool 2 (byte_bits v) = (ucast v :: 'w word)"
  using assms by (intro bit_word_eqI) (auto simp: bit_ucast_iff bit_byte bit_horner_sum_bit_word_iff)

lemma crc_byte_bits:
  fixes poly :: "'w::len word"
  assumes "8 \<le> LENGTH('w)"
  shows "crc_byte (crc_makeTable poly) v crc = fold (crc_shift poly) (byte_bits v) crc"
proof -
  let ?x = "crc XOR ucast v" and ?b = "ucast crc XOR v"
  let ?hi = "push_bit 8 (drop_bit 8 ?x)"
  have x: "?x = ucast ?b XOR ?hi"
  proof (rule bit_word_eqI)
    fix i assume "i < LENGTH('w)"
    then show "bit ?x i \<longleftrightarrow> bit (ucast ?b XOR ?hi) i"
      by (cases "i < 8") (simp_all add: bit_simps no_bit_byte)
  qed
  have "drop_bit 8 ?hi = drop_bit 8 crc"
    by (rule bit_word_eqI) (auto simp: bit_simps no_bit_byte dest: bit_imp_le_length)
  then have hi: "(crc_bit poly ^^ 8) ?hi = drop_bit 8 crc"
    by (subst crc_bits_zero) (auto simp: bit_simps)
  have "unat ?b < 256" by (rule byte_less)
  then have "crc_makeTable poly ! unat ?b = (crc_bit poly ^^ 8) (ucast ?b)"
    by (simp add: crc_makeTable_def del: of_nat_unat) simp
  then have "crc_byte (crc_makeTable poly) v crc = (crc_bit poly ^^ 8) ?x"
    unfolding crc_byte_def hi [symmetric] by (subst x) (simp only: crc_bits_linear)
  also have "\<dots> = fold (crc_shift poly) (byte_bits v) crc"
    using assms by (simp add: crc_shifts horner_byte_bits)
  finally show ?thesis .
qed

lemma crc_update_bits:
  fixes poly :: "'w::len word"
  assumes "8 \<le> LENGTH('w)"
  shows "crc_update crc (crc_makeTable poly) p = NOT (fold (crc_shift poly) (concat (map byte_bits p)) (NOT crc))"
proof -
  have "fold (crc_byte (crc_makeTable poly)) p c = fold (crc_shift poly) (concat (map byte_bits p)) c" for c
    by (induction p arbitrary: c) (simp_all add: crc_byte_bits [OF assms])
  then show ?thesis by (simp add: crc_update_def)
qed

lemma crc_update_append: "crc_update crc tab (p @ q) = crc_update (crc_update crc tab p) tab q"
  by (simp add: crc_update_def)

section \<open>Error detection\<close>

text \<open>A polynomial whose leading coefficient, the lowest bit, is stored as the highest bit of the word.\<close>

definition crc_monic :: "'w::len word \<Rightarrow> bool" where
  "crc_monic poly \<longleftrightarrow> bit poly (LENGTH('w) - 1)"

lemma xor_inj:
  fixes x y z :: "'w::len word"
  shows "x XOR z = y XOR z \<Longrightarrow> x = y" "z XOR x = z XOR y \<Longrightarrow> x = y" "x XOR y = 0 \<Longrightarrow> x = y"
proof -
  have inj: "x = y" if "x XOR z = y XOR z" for x y z :: "'w word"
    using arg_cong [OF that, of "\<lambda>w. w XOR z"] by (simp add: xor.assoc)
  then show "x XOR z = y XOR z \<Longrightarrow> x = y" "z XOR x = z XOR y \<Longrightarrow> x = y" "x XOR y = 0 \<Longrightarrow> x = y"
    using inj [of x y y] by (auto simp: xor.commute [of z])
qed

lemma crc_bit_inj:
  fixes poly :: "'w::len word"
  assumes "crc_monic poly" "crc_bit poly x = crc_bit poly y"
  shows "x = y"
proof -
  let ?z = "x XOR y"
  have z: "crc_shift poly False ?z = 0"
    using assms(2) by (simp add: crc_bit_shift [symmetric] crc_bit_linear)
  have "bit (crc_shift poly False ?z) (LENGTH('w) - 1) = bit ?z 0"
    using assms(1) by (auto simp: crc_shift_def crc_monic_def bit_simps dest: bit_imp_le_length)
  then have "\<not> bit ?z 0" using z by simp
  moreover have "\<not> bit ?z (Suc i)" for i
    using arg_cong [OF z, of "\<lambda>w. bit w i"] \<open>\<not> bit ?z 0\<close> by (simp add: crc_shift_def bit_simps)
  ultimately have "\<not> bit ?z i" for i by (cases i) auto
  then have "?z = 0" by (intro bit_word_eqI) simp
  then show ?thesis by (rule xor_inj(3))
qed

lemma crc_bits_inj: "crc_monic poly \<Longrightarrow> (crc_bit poly ^^ n) x = (crc_bit poly ^^ n) y \<Longrightarrow> x = y"
  by (induction n) (auto dest: crc_bit_inj)

lemma crc_shift_inj: "crc_monic poly \<Longrightarrow> fold (crc_shift poly) bs x = fold (crc_shift poly) bs y \<Longrightarrow> x = y"
proof (induction bs arbitrary: x y)
  case (Cons b bs)
  from Cons.prems(2) have "fold (crc_shift poly) bs (crc_shift poly b x) = fold (crc_shift poly) bs (crc_shift poly b y)" by simp
  then have "crc_shift poly b x = crc_shift poly b y" by (rule Cons.IH [OF Cons.prems(1)])
  then show ?case unfolding crc_shift_xor by (rule xor_inj(1) [OF crc_bit_inj [OF Cons.prems(1)]])
qed simp

lemma byte_bits_inj: "length x = length y \<Longrightarrow> concat (map byte_bits x) = concat (map byte_bits y) \<Longrightarrow> x = y"
proof (induction x y rule: list_induct2)
  case (Cons a x b y)
  then have "byte_bits a = byte_bits b" "x = y" by simp_all
  moreover have "a = b" if "byte_bits a = byte_bits b"
    using that by (intro bit_word_eqI) (simp add: byte_bits_def)
  ultimately show ?case by simp
qed simp

lemma length_bits [simp]: "length (concat (map byte_bits x)) = 8 * length x"
  by (induction x) simp_all

text \<open>Two messages that differ within a window of the width of the register have different checksums.\<close>

lemma crc_burst:
  fixes poly :: "'w::len word"
  assumes "crc_monic poly" "length X = length Y" "length X \<le> LENGTH('w)" "X \<noteq> Y"
  shows "fold (crc_shift poly) (P @ X @ S) c \<noteq> fold (crc_shift poly) (P @ Y @ S) c"
proof
  let ?c = "fold (crc_shift poly) P c"
  assume "fold (crc_shift poly) (P @ X @ S) c = fold (crc_shift poly) (P @ Y @ S) c"
  then have "fold (crc_shift poly) X ?c = fold (crc_shift poly) Y ?c"
    using crc_shift_inj [OF assms(1)] by simp
  then have "(crc_bit poly ^^ length X) (?c XOR horner_sum of_bool 2 X) = (crc_bit poly ^^ length X) (?c XOR horner_sum of_bool 2 Y)"
    using assms(2,3) by (simp add: crc_shifts)
  then have h: "horner_sum of_bool 2 X = (horner_sum of_bool 2 Y :: 'w word)"
    by (rule xor_inj(2) [OF crc_bits_inj [OF assms(1)]])
  have "X ! i = Y ! i" if "i < length X" for i
    using that assms(2,3) arg_cong [OF h, of "\<lambda>w. bit w i"] by (simp add: bit_horner_sum_bit_word_iff)
  then show False using assms(2,4) by (blast intro: nth_equalityI)
qed

section \<open>The tables of crc32\<close>

text \<open>A sequence of calls of \<open>MakeTable\<close>.\<close>

fun crc32_MakeTables :: "crc32_globals \<Rightarrow> uint32 list \<Rightarrow> crc32_globals \<times> crc32_Table list" where
  "crc32_MakeTables g [] = (g, [])"
| "crc32_MakeTables g (poly # ps) =
    (let (g, t) = crc32_MakeTable g poly; (g, ts) = crc32_MakeTables g ps in (g, t # ts))"

text \<open>
  The global variables hold the tables they name, and \<open>t\<close> is a table for \<open>poly\<close> that is not confused with the
  one \<open>castagnoliTable\<close> points to, now or after further calls.
\<close>

definition crc32_ok :: "crc32_globals \<Rightarrow> bool" where
  "crc32_ok g \<longleftrightarrow> tab_words (g_IEEETable g) = crc_makeTable crc32_IEEE \<and> tab_addr (g_IEEETable g) < g_next g \<and>
     (\<forall>t. g_castagnoliTable g = Some t \<longrightarrow> tab_words t = crc_makeTable crc32_Castagnoli \<and> tab_addr t < g_next g \<and>
        tab_addr t \<noteq> tab_addr (g_IEEETable g))"

definition crc32_good :: "crc32_globals \<Rightarrow> uint32 \<Rightarrow> crc32_Table \<Rightarrow> bool" where
  "crc32_good g poly t \<longleftrightarrow> tab_words t = crc_makeTable poly \<and> tab_addr t < g_next g \<and>
     (\<forall>c. g_castagnoliTable g = Some c \<longrightarrow> tab_addr c = tab_addr t \<longrightarrow> tab_words c = tab_words t)"

lemmas crc32_defs = crc32_ok_def crc32_good_def crc32_MakeTable_def crc32_makeTable_def crc32_castagnoliInit_def

lemma MakeTable_good:
  assumes "crc32_ok g" "crc32_MakeTable g poly = (g', t)"
  shows "crc32_ok g' \<and> crc32_good g' poly t \<and> (\<forall>q u. crc32_good g q u \<longrightarrow> crc32_good g' q u)"
  using assms by (auto simp: crc32_defs Let_def split: if_splits option.splits)

lemma MakeTables_good:
  "crc32_ok g \<Longrightarrow> crc32_MakeTables g ps = (g', ts) \<Longrightarrow>
    crc32_ok g' \<and> length ts = length ps \<and> (\<forall>i<length ps. crc32_good g' (ps ! i) (ts ! i)) \<and> (\<forall>q u. crc32_good g q u \<longrightarrow> crc32_good g' q u)"
proof (induction ps arbitrary: g ts)
  case (Cons poly ps)
  obtain g1 t where t: "crc32_MakeTable g poly = (g1, t)" by fastforce
  obtain us where us: "crc32_MakeTables g1 ps = (g', us)" "ts = t # us" using Cons.prems t by (auto split: prod.splits)
  have g1: "crc32_ok g1" "crc32_good g1 poly t" "\<And>q u. crc32_good g q u \<Longrightarrow> crc32_good g1 q u"
    using MakeTable_good [OF Cons.prems(1) t] by auto
  show ?case
    using Cons.IH [OF g1(1) us(1)] g1 us(2) by (auto simp: nth_Cons split: nat.splits)
qed simp

lemma crc32_Update_good: "crc32_good g poly t \<Longrightarrow> crc32_Update g crc t p = crc_update crc (crc_makeTable poly) p"
  by (auto simp: crc32_good_def crc32_Update_def crc32_updateCastagnoli_def crc32_update_def split: option.splits)

lemma crc32_ok0: "crc32_ok crc32_globals0"
  by (simp add: crc32_ok_def crc32_globals0_def)

section \<open>The interface\<close>

definition be_bytes32 :: "uint32 \<Rightarrow> byte list" where
  "be_bytes32 s = [ucast (drop_bit 24 s), ucast (drop_bit 16 s), ucast (drop_bit 8 s), ucast s]"

definition be_bytes64 :: "uint64 \<Rightarrow> byte list" where
  "be_bytes64 s = [ucast (drop_bit 56 s), ucast (drop_bit 48 s), ucast (drop_bit 40 s), ucast (drop_bit 32 s),
     ucast (drop_bit 24 s), ucast (drop_bit 16 s), ucast (drop_bit 8 s), ucast s]"

lemma crc32_laws:
  assumes "crc32_good g poly tab"
  shows "hash_laws (crc32_Hash g tab) (\<lambda>d m. d = \<lparr>c32_crc = crc_of poly m, c32_tab = tab\<rparr>) (\<lambda>m. be_bytes32 (crc_of poly m)) crc32_Size"
proof -
  have "crc_update 0 (crc_makeTable poly) m = crc_of poly m" for m
    by (simp add: crc_update_bits crc_of_def)
  then have "crc32_Update g (crc_of poly m) tab p = crc_of poly (m @ p)" for m p
    using crc_update_append [of 0 "crc_makeTable poly" m p] by (simp add: crc32_Update_good [OF assms])
  then show ?thesis
    by unfold_locales (auto simp: crc32_Hash_def crc32_New_def crc32_Write_def crc32_Sum_def crc32_Reset_def crc32_Size_def
        be_bytes32_def crc_of_def Let_def)
qed

interpretation crc64: hash_laws "crc64_Hash (crc64_MakeTable poly)" "\<lambda>d m. d = \<lparr>c64_crc = crc_of poly m, c64_tab = crc64_MakeTable poly\<rparr>"
    "\<lambda>m. be_bytes64 (crc_of poly m)" crc64_Size for poly
proof -
  have "crc_update 0 (crc_makeTable poly) m = crc_of poly m" for m
    by (simp add: crc_update_bits crc_of_def)
  then have "crc64_update (crc_of poly m) (crc64_MakeTable poly) p = crc_of poly (m @ p)" for m p
    using crc_update_append [of 0 "crc_makeTable poly" m p] by (simp add: crc64_update_def crc64_MakeTable_def)
  then show "hash_laws (crc64_Hash (crc64_MakeTable poly)) (\<lambda>d m. d = \<lparr>c64_crc = crc_of poly m, c64_tab = crc64_MakeTable poly\<rparr>)
      (\<lambda>m. be_bytes64 (crc_of poly m)) crc64_Size"
    by unfold_locales (auto simp: crc64_Hash_def crc64_New_def crc64_Write_def crc64_Sum_def crc64_Reset_def crc64_Size_def
        be_bytes64_def crc_of_def Let_def)
qed

section \<open>Correctness\<close>

text \<open>
  C25. The tables of any sequence of calls of \<open>MakeTable\<close> of crc32 compute the checksum of their polynomial: every
  sequence of calls of \<open>Write\<close>, \<open>Sum\<close> and \<open>Reset\<close> on a digest, \<open>Checksum\<close> and \<open>ChecksumIEEE\<close> return the
  remainder computed bit by bit, and \<open>Update\<close> with any value \<open>crc\<close> continues the division at the register that
  \<open>crc\<close> stands for; with the checksum of \<open>m0\<close> it returns the checksum of \<open>m0\<close> followed by the new bytes. The
  comparison of pointers that selects the code for Castagnoli's polynomial never selects it for another table.
  The same holds for crc64.
\<close>

theorem crc_correct:
  assumes "crc32_MakeTables crc32_globals0 ps = (g, ts)" "i < length ps"
  shows "hash_run (crc32_Hash g (ts ! i)) (crc32_New (ts ! i)) cs = Some (hash_spec (\<lambda>m. be_bytes32 (crc_of (ps ! i) m)) [] cs) \<and>
    crc32_Checksum g m (ts ! i) = crc_of (ps ! i) m \<and>
    crc32_ChecksumIEEE g m = crc_of crc32_IEEE m \<and>
    crc32_Update g crc (ts ! i) m = crc_from (ps ! i) crc m \<and>
    crc32_Update g (crc_of (ps ! i) m0) (ts ! i) m = crc_of (ps ! i) (m0 @ m) \<and>
    hash_run (crc64_Hash (crc64_MakeTable poly)) (crc64_New (crc64_MakeTable poly)) cs = Some (hash_spec (\<lambda>m. be_bytes64 (crc_of poly m)) [] cs) \<and>
    crc64_Checksum m (crc64_MakeTable poly) = crc_of poly m \<and>
    crc64_Update crc64 (crc64_MakeTable poly) m = crc_from poly crc64 m \<and>
    crc64_Update (crc_of poly m0) (crc64_MakeTable poly) m = crc_of poly (m0 @ m)"
proof (intro conjI)
  have good: "crc32_good g (ps ! i) (ts ! i)" and ok: "crc32_ok g"
    using MakeTables_good [OF crc32_ok0 assms(1)] assms(2) by auto
  show "hash_run (crc32_Hash g (ts ! i)) (crc32_New (ts ! i)) cs = Some (hash_spec (\<lambda>m. be_bytes32 (crc_of (ps ! i) m)) [] cs)"
    using hash_laws.New_run [OF crc32_laws [OF good]] by (simp add: crc32_Hash_def)
  show "crc32_Checksum g m (ts ! i) = crc_of (ps ! i) m"
    by (simp add: crc32_Checksum_def crc32_Update_good [OF good] crc_update_bits crc_of_def)
  show "crc32_ChecksumIEEE g m = crc_of crc32_IEEE m"
    using ok by (simp add: crc32_ChecksumIEEE_def crc32_update_def crc32_ok_def crc_update_bits crc_of_def)
  show "crc32_Update g crc (ts ! i) m = crc_from (ps ! i) crc m"
      "crc32_Update g (crc_of (ps ! i) m0) (ts ! i) m = crc_of (ps ! i) (m0 @ m)"
    by (simp_all add: crc32_Update_good [OF good] crc_update_bits crc_from_def crc_of_def)
  show "hash_run (crc64_Hash (crc64_MakeTable poly)) (crc64_New (crc64_MakeTable poly)) cs = Some (hash_spec (\<lambda>m. be_bytes64 (crc_of poly m)) [] cs)"
    using crc64.New_run by (simp add: crc64_Hash_def)
  show "crc64_Checksum m (crc64_MakeTable poly) = crc_of poly m" "crc64_Update crc64 (crc64_MakeTable poly) m = crc_from poly crc64 m"
      "crc64_Update (crc_of poly m0) (crc64_MakeTable poly) m = crc_of poly (m0 @ m)"
    by (simp_all add: crc64_Checksum_def crc64_Update_def crc64_update_def crc64_MakeTable_def crc_update_bits crc_from_def crc_of_def)
qed

text \<open>The check value of CRC-32: the checksum of the digits 1 to 9, at once and with \<open>Update\<close> after the first four.\<close>

theorem crc_correct_witness:
  "let (g, ts) = crc32_MakeTables crc32_globals0 [crc32_Castagnoli, crc32_IEEE];
       m = [0x31, 0x32, 0x33, 0x34]; m' = [0x35, 0x36, 0x37, 0x38, 0x39]
   in crc32_Checksum g (m @ m') (ts ! 1) = 0xcbf43926 \<and> crc32_Update g (crc32_Checksum g m (ts ! 1)) (ts ! 1) m' = 0xcbf43926"
proof -
  obtain g ts where g: "crc32_MakeTables crc32_globals0 [crc32_Castagnoli, crc32_IEEE] = (g, ts)" by fastforce
  have "crc_of crc32_IEEE ([0x31, 0x32, 0x33, 0x34] @ [0x35, 0x36, 0x37, 0x38, 0x39]) = 0xcbf43926" by code_simp
  moreover have "1 < length [crc32_Castagnoli, crc32_IEEE]" by simp
  moreover have "[crc32_Castagnoli, crc32_IEEE] ! 1 = crc32_IEEE" by simp
  ultimately show ?thesis
    unfolding g Let_def prod.case using crc_correct [OF g, of 1] by metis
qed

text \<open>
  C26. A checksum with a polynomial whose word has its highest bit set, as all predefined polynomials have, detects
  every burst error: if the bits of two messages, those of every byte taken from the lowest on, differ, but only
  within a window of at most 32 (crc32) or 64 (crc64) consecutive bits, then the checksums differ.
\<close>

theorem crc_detects_bursts:
  assumes "crc32_MakeTables crc32_globals0 ps = (g, ts)" "i < length ps"
    "concat (map byte_bits m) = P @ X @ S" "concat (map byte_bits m') = P @ Y @ S" "length X = length Y" "m \<noteq> m'"
  shows "(bit (ps ! i) 31 \<longrightarrow> length X \<le> 32 \<longrightarrow> crc32_Checksum g m (ts ! i) \<noteq> crc32_Checksum g m' (ts ! i)) \<and>
    (bit poly 63 \<longrightarrow> length X \<le> 64 \<longrightarrow>
      crc64_Checksum m (crc64_MakeTable poly) \<noteq> crc64_Checksum m' (crc64_MakeTable poly)) \<and>
    bit crc32_IEEE 31 \<and> bit crc32_Castagnoli 31 \<and> bit crc32_Koopman 31 \<and> bit crc64_ISO 63 \<and> bit crc64_ECMA 63"
proof -
  have good: "crc32_good g (ps ! i) (ts ! i)"
    using MakeTables_good [OF crc32_ok0 assms(1)] assms(2) by auto
  have "length m = length m'"
    using arg_cong [OF assms(3), of length] arg_cong [OF assms(4), of length] assms(5) by simp
  then have "X \<noteq> Y" using byte_bits_inj assms(3,4,6) by metis
  moreover have "bit crc32_IEEE 31 \<and> bit crc32_Castagnoli 31 \<and> bit crc32_Koopman 31 \<and> bit crc64_ISO 63 \<and> bit crc64_ECMA 63"
    by (simp add: crc32_IEEE_def crc32_Castagnoli_def crc32_Koopman_def crc64_ISO_def crc64_ECMA_def)
  ultimately show ?thesis
    using crc_burst [of "ps ! i" X Y P S "NOT 0"] crc_burst [of poly X Y P S "NOT 0"] assms(3-5)
    by (simp add: crc32_Checksum_def crc32_Update_good [OF good] crc64_Checksum_def crc64_update_def crc64_MakeTable_def
        crc_update_bits crc_monic_def del: fold_append)
qed

text \<open>The window runs across the border of two bytes.\<close>

theorem crc_detects_bursts_witness:
  "let (g, ts) = crc32_MakeTables crc32_globals0 [crc32_IEEE]
   in crc32_Checksum g [128, 1] (ts ! 0) \<noteq> crc32_Checksum g [0, 0] (ts ! 0) \<and>
     crc64_Checksum [128, 1] (crc64_MakeTable crc64_ISO) \<noteq> crc64_Checksum [0, 0] (crc64_MakeTable crc64_ISO)"
proof -
  obtain g ts where g: "crc32_MakeTables crc32_globals0 [crc32_IEEE] = (g, ts)" by fastforce
  have "concat (map byte_bits [128, 1]) = replicate 7 False @ [True, True] @ replicate 7 False"
      "concat (map byte_bits [0, 0]) = replicate 7 False @ [False, False] @ replicate 7 False"
    by code_simp+
  then show ?thesis
    unfolding g Let_def prod.case
    using crc_detects_bursts [OF g, of 0 "[128, 1]" "replicate 7 False" "[True, True]" "replicate 7 False" "[0, 0]" "[False, False]" crc64_ISO] by simp
qed

end
