(* ===== verification/Hash_Adler32.thy ===== *)
theory Hash_Adler32
  imports Hash_Crc
begin

text \<open>hash/adler32/adler32.go: the checksum of RFC 1950 with its reductions delayed.\<close>

unbundle bit_operations_syntax

section \<open>Adler-32: the code\<close>

definition adler_mod :: uint32 where
  "adler_mod = 65521"

record adler_digest =
  ad_a :: uint32
  ad_b :: uint32

definition adler_Reset :: "adler_digest \<Rightarrow> adler_digest" where
  "adler_Reset d = d\<lparr>ad_a := 1, ad_b := 0\<rparr>"

definition adler_New :: adler_digest where
  "adler_New = adler_Reset \<lparr>ad_a = 0, ad_b = 0\<rparr>"

definition adler_Size :: nat where
  "adler_Size = 4"

text \<open>The body of the loop of \<open>update\<close>.\<close>

definition adler_step :: "byte \<Rightarrow> uint32 \<times> uint32 \<Rightarrow> uint32 \<times> uint32" where
  "adler_step pi = (\<lambda>(a, b).
     let a = a + ucast pi;
         b = b + a
     in if b > (0xffffffff - 255) div 2 then (a mod adler_mod, b mod adler_mod) else (a, b))"

definition adler_update :: "uint32 \<Rightarrow> uint32 \<Rightarrow> byte list \<Rightarrow> uint32 \<times> uint32" where
  "adler_update a b p = fold adler_step p (a, b)"

definition adler_finish :: "uint32 \<Rightarrow> uint32 \<Rightarrow> uint32" where
  "adler_finish a b =
    (let (a, b) = (if b \<ge> adler_mod then (a mod adler_mod, b mod adler_mod) else (a, b))
     in push_bit 16 b OR a)"

definition adler_Write :: "adler_digest \<Rightarrow> byte list \<Rightarrow> adler_digest \<times> nat" where
  "adler_Write d p = (let (a, b) = adler_update (ad_a d) (ad_b d) p in (d\<lparr>ad_a := a, ad_b := b\<rparr>, length p))"

definition adler_Sum32 :: "adler_digest \<Rightarrow> uint32" where
  "adler_Sum32 d = adler_finish (ad_a d) (ad_b d)"

definition adler_Sum :: "adler_digest \<Rightarrow> byte list" where
  "adler_Sum d = (let s = adler_Sum32 d in
     [ucast (drop_bit 24 s), ucast (drop_bit 16 s), ucast (drop_bit 8 s), ucast s])"

definition adler_Checksum :: "byte list \<Rightarrow> uint32" where
  "adler_Checksum data = (let (a, b) = adler_update 1 0 data in adler_finish a b)"

definition adler_Hash :: "adler_digest Hash" where
  "adler_Hash = \<lparr>hash_New = adler_New, hash_Write = adler_Write, hash_Sum = \<lambda>d. Some (d, adler_Sum d),
     hash_Reset = \<lambda>d. Some (adler_Reset d), hash_Size = \<lambda>d. adler_Size\<rparr>"

section \<open>Adler-32: correctness\<close>

text \<open>RFC 1950: the sum of the bytes plus one, and the sum of these sums, as numbers without bound.\<close>

definition adler_sums :: "byte list \<Rightarrow> nat \<times> nat" where
  "adler_sums m = fold (\<lambda>d (a, b). (a + unat d, b + a + unat d)) m (1, 0)"

definition adler_of :: "byte list \<Rightarrow> uint32" where
  "adler_of m = (let (a, b) = adler_sums m in of_nat (b mod 65521 * 65536 + a mod 65521))"

text \<open>The two invariants of the comments of \<open>digest\<close>, and the meaning of \<open>a\<close> and \<open>b\<close>.\<close>

definition adler_inv :: "uint32 \<Rightarrow> uint32 \<Rightarrow> bool" where
  "adler_inv a b \<longleftrightarrow> ((a < adler_mod \<and> b < adler_mod) \<or> a \<le> b) \<and> unat a + unat b + 255 \<le> 0xffffffff"

definition adler_rep :: "adler_digest \<Rightarrow> byte list \<Rightarrow> bool" where
  "adler_rep d m \<longleftrightarrow> adler_inv (ad_a d) (ad_b d) \<and>
     unat (ad_a d) mod 65521 = fst (adler_sums m) mod 65521 \<and> unat (ad_b d) mod 65521 = snd (adler_sums m) mod 65521"

lemma unat_adler_mod [simp]: "unat adler_mod = 65521"
  by (simp add: adler_mod_def)

lemma unat_add_small: "unat x + unat y < 2 ^ LENGTH('w) \<Longrightarrow> unat (x + y) = unat x + unat y"
  for x y :: "'w::len word"
  by (simp add: unat_word_ariths)

lemma adler_step_inv:
  assumes "adler_inv a b" "adler_step v (a, b) = (a', b')"
  shows "adler_inv a' b' \<and> unat a' mod 65521 = (unat a + unat v) mod 65521 \<and>
    unat b' mod 65521 = (unat b + unat a + unat v) mod 65521"
proof -
  have v: "unat (ucast v :: uint32) = unat v" using byte_less [of v] by (simp add: unsigned_ucast_eq take_bit_nat_eq_self)
  have a: "unat (a + ucast v) = unat a + unat v"
    using assms(1) byte_less [of v] by (subst unat_add_small) (simp_all add: v adler_inv_def)
  have b: "unat (b + (a + ucast v)) = unat b + unat a + unat v"
    using assms(1) byte_less [of v] by (subst unat_add_small) (simp_all add: a adler_inv_def)
  show ?thesis
    using assms(2) a b
    by (auto simp: adler_step_def Let_def adler_inv_def word_less_nat_alt word_le_nat_alt unat_mod split: if_splits)
qed

lemma adler_update_inv:
  assumes "adler_inv a b" "adler_update a b p = (a', b')"
    and "unat a mod 65521 = x mod 65521" "unat b mod 65521 = y mod 65521"
  shows "adler_inv a' b' \<and>
    unat a' mod 65521 = fst (fold (\<lambda>d (a, b). (a + unat d, b + a + unat d)) p (x, y)) mod 65521 \<and>
    unat b' mod 65521 = snd (fold (\<lambda>d (a, b). (a + unat d, b + a + unat d)) p (x, y)) mod 65521"
  using assms
proof (induction p arbitrary: a b x y)
  case (Cons v p)
  obtain c d where s: "adler_step v (a, b) = (c, d)" by (cases "adler_step v (a, b)")
  note st = adler_step_inv [OF Cons.prems(1) s]
  have x: "(unat a + unat v) mod 65521 = (x + unat v) mod 65521"
    by (rule mod_add_cong) (simp_all only: Cons.prems(3))
  have "(unat b + (unat a + unat v)) mod 65521 = (y + (x + unat v)) mod 65521"
    by (rule mod_add_cong) (simp_all only: Cons.prems(4) x)
  then have "unat c mod 65521 = (x + unat v) mod 65521" "unat d mod 65521 = (y + x + unat v) mod 65521"
    using st x by (simp_all only: add.assoc)
  moreover have "adler_update c d p = (a', b')" using Cons.prems(2) s by (simp add: adler_update_def)
  ultimately show ?case using Cons.IH [of c d "x + unat v" "y + x + unat v"] st by simp
qed (simp add: adler_update_def)

lemma adler_finish_of:
  assumes "adler_inv a b" "unat a mod 65521 = x mod 65521" "unat b mod 65521 = y mod 65521"
  shows "adler_finish a b = of_nat (y mod 65521 * 65536 + x mod 65521)"
proof -
  define c d where "c = (if b \<ge> adler_mod then a mod adler_mod else a)"
    and "d = (if b \<ge> adler_mod then b mod adler_mod else b)"
  have "unat c = x mod 65521" "unat d = y mod 65521"
    using assms by (auto simp: c_def d_def adler_inv_def word_less_nat_alt word_le_nat_alt unat_mod)
  then have c: "c = of_nat (x mod 65521)" and d: "d = of_nat (y mod 65521)"
    by (simp_all add: word_unat_eq_iff unat_of_nat)
  have "take_bit 16 c = c"
    by (simp add: word_unat_eq_iff unsigned_take_bit_eq c unat_of_nat take_bit_nat_eq_self)
  then have "bit c n \<Longrightarrow> n < 16" for n by (metis bit_take_bit_iff)
  then have "push_bit 16 d OR c = push_bit 16 d + c"
    by (intro disjunctive_add_eq_or [symmetric] bit_word_eqI) (fastforce simp: bit_simps)
  moreover have "adler_finish a b = push_bit 16 d OR c"
    by (simp add: adler_finish_def c_def d_def Let_def)
  ultimately show ?thesis by (simp add: c d push_bit_eq_mult)
qed

lemma adler_sums_append: "adler_sums (m @ p) = fold (\<lambda>d (a, b). (a + unat d, b + a + unat d)) p (adler_sums m)"
  by (simp add: adler_sums_def)

lemma adler_rep_Write: "adler_rep d m \<Longrightarrow> adler_rep (fst (adler_Write d p)) (m @ p)"
  using adler_update_inv [of "ad_a d" "ad_b d" p _ _ "fst (adler_sums m)" "snd (adler_sums m)"]
  by (cases "adler_update (ad_a d) (ad_b d) p") (simp add: adler_rep_def adler_Write_def adler_sums_append)

lemma adler_rep_Reset: "adler_rep (adler_Reset d) []"
  by (simp add: adler_rep_def adler_Reset_def adler_inv_def adler_mod_def adler_sums_def)

lemma adler_rep_Sum32: "adler_rep d m \<Longrightarrow> adler_Sum32 d = adler_of m"
  unfolding adler_rep_def adler_Sum32_def adler_of_def
  by (cases "adler_sums m") (simp add: adler_finish_of)

lemma adler_rep_Sum: "adler_rep d m \<Longrightarrow> adler_Sum d = be_bytes32 (adler_of m)"
  by (simp add: adler_Sum_def be_bytes32_def adler_rep_Sum32 Let_def)

lemma adler_Write_count: "snd (adler_Write d p) = length p"
  by (simp add: adler_Write_def split: prod.splits)

interpretation adler: hash_laws adler_Hash adler_rep "\<lambda>m. be_bytes32 (adler_of m)" 4
  by unfold_locales
    (auto simp: adler_Hash_def adler_New_def adler_rep_Reset adler_rep_Write adler_rep_Sum adler_Size_def
      be_bytes32_def adler_Write_count)

text \<open>
  C27. The invariants of \<open>digest\<close> hold after any sequence of calls, so \<open>a + b + 255\<close> never wraps in 32 bits
  although the sums are reduced only when \<open>b\<close> gets large; and the hash returns, through every sequence of
  calls of \<open>Write\<close>, \<open>Sum\<close> and \<open>Reset\<close>, the Adler-32 checksum of RFC 1950 (computed with unbounded sums)
  of the bytes written since the last \<open>Reset\<close>, as \<open>Checksum\<close> does.
\<close>

theorem adler_correct:
  "hash_run adler_Hash adler_New cs = Some (hash_spec (\<lambda>m. be_bytes32 (adler_of m)) [] cs) \<and>
   adler_Checksum p = adler_of p \<and>
   (let d = fst (adler_Write adler_New p)
    in adler_inv (ad_a d) (ad_b d) \<and> unat (ad_a d) + unat (ad_b d) + 255 < 2 ^ 32)"
proof -
  have w: "adler_rep (fst (adler_Write adler_New p)) p"
    using adler_rep_Write [OF adler_rep_Reset, of _ p] by (simp add: adler_New_def)
  then have "adler_Checksum p = adler_of p"
    using adler_rep_Sum32 [OF w]
    by (simp add: adler_Checksum_def adler_Sum32_def adler_Write_def adler_New_def adler_Reset_def split: prod.splits)
  then show ?thesis
    using adler.New_run w by (simp add: adler_Hash_def adler_rep_def adler_inv_def Let_def)
qed

end
