(* ===== verification/Hash_Fnv.thy ===== *)
theory Hash_Fnv
  imports Hash_Crc Encoding_Binary
begin

text \<open>
  hash/fnv/fnv.go: the Fowler-Noll-Vo hashes FNV-1 and FNV-1a of 32 and 64 bits. The state of a hash is
  its word; the operations that the four types share line for line are one definition.
\<close>

unbundle bit_operations_syntax

section \<open>The code\<close>

definition offset32 :: uint32 where
  "offset32 = 2166136261"

definition offset64 :: uint64 where
  "offset64 = 14695981039346656037"

definition prime32 :: uint32 where
  "prime32 = 16777619"

definition prime64 :: uint64 where
  "prime64 = 1099511628211"

definition New32 :: uint32 where
  "New32 = offset32"

definition New32a :: uint32 where
  "New32a = offset32"

definition New64 :: uint64 where
  "New64 = offset64"

definition New64a :: uint64 where
  "New64a = offset64"

definition sum32_Reset :: "uint32 \<Rightarrow> uint32" where
  "sum32_Reset s = offset32"

definition sum64_Reset :: "uint64 \<Rightarrow> uint64" where
  "sum64_Reset s = offset64"

definition sum32_Write :: "uint32 \<Rightarrow> byte list \<Rightarrow> uint32 \<times> nat" where
  "sum32_Write s data = (fold (\<lambda>c hash. (hash * prime32) XOR ucast c) data s, length data)"

definition sum32a_Write :: "uint32 \<Rightarrow> byte list \<Rightarrow> uint32 \<times> nat" where
  "sum32a_Write s data = (fold (\<lambda>c hash. (hash XOR ucast c) * prime32) data s, length data)"

definition sum64_Write :: "uint64 \<Rightarrow> byte list \<Rightarrow> uint64 \<times> nat" where
  "sum64_Write s data = (fold (\<lambda>c hash. (hash * prime64) XOR ucast c) data s, length data)"

definition sum64a_Write :: "uint64 \<Rightarrow> byte list \<Rightarrow> uint64 \<times> nat" where
  "sum64a_Write s data = (fold (\<lambda>c hash. (hash XOR ucast c) * prime64) data s, length data)"

definition sum32_Size :: nat where
  "sum32_Size = 4"

definition sum64_Size :: nat where
  "sum64_Size = 8"

definition sum32_Sum :: "uint32 \<Rightarrow> byte list option" where
  "sum32_Sum s = PutUint32 BigEndian (replicate 4 0) s"

definition sum64_Sum :: "uint64 \<Rightarrow> byte list option" where
  "sum64_Sum s = PutUint64 BigEndian (replicate 8 0) s"

definition sum32_Hash :: "uint32 \<Rightarrow> (uint32 \<Rightarrow> byte list \<Rightarrow> uint32 \<times> nat) \<Rightarrow> uint32 Hash" where
  "sum32_Hash new wr = \<lparr>hash_New = new, hash_Write = wr, hash_Sum = \<lambda>s. do { a \<leftarrow> sum32_Sum s; Some (s, a) },
     hash_Reset = \<lambda>s. Some (sum32_Reset s), hash_Size = \<lambda>s. sum32_Size\<rparr>"

definition sum64_Hash :: "uint64 \<Rightarrow> (uint64 \<Rightarrow> byte list \<Rightarrow> uint64 \<times> nat) \<Rightarrow> uint64 Hash" where
  "sum64_Hash new wr = \<lparr>hash_New = new, hash_Write = wr, hash_Sum = \<lambda>s. do { a \<leftarrow> sum64_Sum s; Some (s, a) },
     hash_Reset = \<lambda>s. Some (sum64_Reset s), hash_Size = \<lambda>s. sum64_Size\<rparr>"

section \<open>Correctness\<close>

text \<open>
  The published definition on natural numbers: FNV-1 multiplies and then adds the byte without carry,
  FNV-1a in the other order, modulo \<open>2 ^ w\<close>.
\<close>

fun fnv1 :: "nat \<Rightarrow> nat \<Rightarrow> nat \<Rightarrow> byte list \<Rightarrow> nat" where
  "fnv1 w p h [] = h"
| "fnv1 w p h (c # m) = fnv1 w p ((h * p mod 2 ^ w) XOR unat c) m"

fun fnv1a :: "nat \<Rightarrow> nat \<Rightarrow> nat \<Rightarrow> byte list \<Rightarrow> nat" where
  "fnv1a w p h [] = h"
| "fnv1a w p h (c # m) = fnv1a w p ((h XOR unat c) * p mod 2 ^ w) m"

lemma unat_ucast_byte: "8 \<le> LENGTH('w) \<Longrightarrow> unat (ucast c :: 'w::len word) = unat c" for c :: byte
  using byte_less [of c] power_increasing [of 8 "LENGTH('w)" "2::nat"]
  by (simp add: unsigned_ucast_eq take_bit_nat_eq_self)

lemma fold_fnv1:
  "8 \<le> LENGTH('w) \<Longrightarrow> unat (fold (\<lambda>c h. (h * p) XOR ucast c) m (h :: 'w::len word)) =
     fnv1 LENGTH('w) (unat p) (unat h) m"
  by (induction m arbitrary: h) (simp_all add: unsigned_xor_eq unat_word_ariths unat_ucast_byte)

lemma fold_fnv1a:
  "8 \<le> LENGTH('w) \<Longrightarrow> unat (fold (\<lambda>c h. (h XOR ucast c) * p) m (h :: 'w::len word)) =
     fnv1a LENGTH('w) (unat p) (unat h) m"
  by (induction m arbitrary: h) (simp_all add: unsigned_xor_eq unat_word_ariths unat_ucast_byte)

lemma sum32_Sum: "sum32_Sum s = Some (be_bytes32 s)"
  by (simp add: sum32_Sum_def BigEndian_def be_bytes32_def numeral_eq_Suc)

lemma sum64_Sum: "sum64_Sum s = Some (be_bytes64 s)"
  by (simp add: sum64_Sum_def BigEndian_def be_bytes64_def numeral_eq_Suc)

lemmas fnv_defs = sum32_Hash_def sum64_Hash_def sum32_Write_def sum32a_Write_def sum64_Write_def sum64a_Write_def
  sum32_Reset_def sum64_Reset_def sum32_Sum sum64_Sum sum32_Size_def sum64_Size_def be_bytes32_def be_bytes64_def
  New32_def New32a_def New64_def New64a_def

interpretation fnv32: hash_laws "sum32_Hash New32 sum32_Write" "\<lambda>s m. s = fst (sum32_Write New32 m)"
  "\<lambda>m. be_bytes32 (fst (sum32_Write New32 m))" 4
  by unfold_locales (auto simp: fnv_defs)

interpretation fnv32a: hash_laws "sum32_Hash New32a sum32a_Write" "\<lambda>s m. s = fst (sum32a_Write New32a m)"
  "\<lambda>m. be_bytes32 (fst (sum32a_Write New32a m))" 4
  by unfold_locales (auto simp: fnv_defs)

interpretation fnv64: hash_laws "sum64_Hash New64 sum64_Write" "\<lambda>s m. s = fst (sum64_Write New64 m)"
  "\<lambda>m. be_bytes64 (fst (sum64_Write New64 m))" 8
  by unfold_locales (auto simp: fnv_defs)

interpretation fnv64a: hash_laws "sum64_Hash New64a sum64a_Write" "\<lambda>s m. s = fst (sum64a_Write New64a m)"
  "\<lambda>m. be_bytes64 (fst (sum64a_Write New64a m))" 8
  by unfold_locales (auto simp: fnv_defs)

lemma word_of_unat: "unat x = n \<Longrightarrow> x = of_nat n"
  by (metis of_nat_unat ucast_id)

lemma sum_Write_fnv:
  "fst (sum32_Write New32 m) = of_nat (fnv1 32 16777619 2166136261 m)"
  "fst (sum32a_Write New32a m) = of_nat (fnv1a 32 16777619 2166136261 m)"
  "fst (sum64_Write New64 m) = of_nat (fnv1 64 1099511628211 14695981039346656037 m)"
  "fst (sum64a_Write New64a m) = of_nat (fnv1a 64 1099511628211 14695981039346656037 m)"
  by (rule word_of_unat, simp add: fnv_defs fold_fnv1 fold_fnv1a offset32_def offset64_def prime32_def prime64_def)+

text \<open>
  Through every sequence of calls of \<open>Write\<close>, \<open>Sum\<close> and \<open>Reset\<close>, the four hashes return the FNV-1
  and FNV-1a hashes of 32 and 64 bits of the bytes written since the last \<open>Reset\<close>, in big-endian order.
\<close>

theorem fnv_correct:
  "hash_run (sum32_Hash New32 sum32_Write) New32 cs =
     Some (hash_spec (\<lambda>m. be_bytes32 (of_nat (fnv1 32 16777619 2166136261 m))) [] cs) \<and>
   hash_run (sum32_Hash New32a sum32a_Write) New32a cs =
     Some (hash_spec (\<lambda>m. be_bytes32 (of_nat (fnv1a 32 16777619 2166136261 m))) [] cs) \<and>
   hash_run (sum64_Hash New64 sum64_Write) New64 cs =
     Some (hash_spec (\<lambda>m. be_bytes64 (of_nat (fnv1 64 1099511628211 14695981039346656037 m))) [] cs) \<and>
   hash_run (sum64_Hash New64a sum64a_Write) New64a cs =
     Some (hash_spec (\<lambda>m. be_bytes64 (of_nat (fnv1a 64 1099511628211 14695981039346656037 m))) [] cs)"
  using fnv32.New_run [of cs] fnv32a.New_run [of cs] fnv64.New_run [of cs] fnv64a.New_run [of cs]
  by (simp add: sum_Write_fnv sum32_Hash_def sum64_Hash_def)

end
