(* ===== verification/Go_Steps.thy ===== *)
theory Go_Steps
  imports Go_Prelude
begin

text \<open>
  Goroutines that share memory, for package sync. A program counter \<open>'p\<close> is the place of a goroutine in
  the code together with its local variables; one step of a goroutine is one access to the shared memory
  \<open>'m\<close> (an atomic operation, a load, a store) or one operation on a semaphore, and the steps of the
  goroutines are interleaved in any order.

  The runtime's semaphores are the counters that runtime/extern.go documents: \<open>Semacquire(s)\<close> waits
  until \<open>*s > 0\<close> and atomically decrements it, \<open>Semrelease(s)\<close> atomically increments it. A step function
  is \<open>None\<close> where the goroutine waits, and where it is outside the package.
\<close>

section \<open>Interleaving\<close>

record ('m, 'p) system =
  shared :: 'm
  gos :: "'p list"

text \<open>
  A step is one of: a step of a goroutine in the code (\<open>internal\<close>); a call by the client of an operation,
  or any other change of a goroutine outside the package (\<open>client\<close>); two goroutines exchanging their roles
  (\<open>handoff\<close>), as when one locks a mutex and arranges for another to unlock it.
\<close>

inductive internal :: "('p \<Rightarrow> 'm \<Rightarrow> ('p \<times> 'm) option) \<Rightarrow> ('m, 'p) system \<Rightarrow> ('m, 'p) system \<Rightarrow> bool"
  for code where
  "i < length (gos s) \<Longrightarrow> code (gos s ! i) (shared s) = Some (p, m) \<Longrightarrow>
   internal code s (s\<lparr>shared := m, gos := (gos s)[i := p]\<rparr>)"

inductive go_step ::
  "('p \<Rightarrow> 'm \<Rightarrow> ('p \<times> 'm) option) \<Rightarrow> ('p \<Rightarrow> 'p \<Rightarrow> bool) \<Rightarrow> ('p \<Rightarrow> 'p \<Rightarrow> bool) \<Rightarrow>
   ('m, 'p) system \<Rightarrow> ('m, 'p) system \<Rightarrow> bool"
  for code call give where
  internal: "internal code s t \<Longrightarrow> go_step code call give s t"
| client: "i < length (gos s) \<Longrightarrow> call (gos s ! i) p \<Longrightarrow> go_step code call give s (s\<lparr>gos := (gos s)[i := p]\<rparr>)"
| handoff: "i < length (gos s) \<Longrightarrow> j < length (gos s) \<Longrightarrow> give (gos s ! i) (gos s ! j) \<Longrightarrow>
    go_step code call give s (s\<lparr>gos := (gos s)[i := gos s ! j, j := gos s ! i]\<rparr>)"

inductive_cases internalE: "internal code s t"
inductive_cases go_stepE: "go_step code call give s t"

text \<open>Steps in a given order: goroutine \<open>i\<close> makes a step, or the client makes a call in goroutine \<open>i\<close>.\<close>

datatype 'p act = Run nat | Client nat 'p

fun exec ::
  "('p \<Rightarrow> 'm \<Rightarrow> ('p \<times> 'm) option) \<Rightarrow> ('p \<Rightarrow> 'p \<Rightarrow> bool) \<Rightarrow> 'p act list \<Rightarrow> ('m, 'p) system \<Rightarrow> ('m, 'p) system option" where
  "exec code call [] s = Some s"
| "exec code call (Run i # as) s =
     (if i < length (gos s)
      then do { (p, m) \<leftarrow> code (gos s ! i) (shared s); exec code call as (s\<lparr>shared := m, gos := (gos s)[i := p]\<rparr>) }
      else None)"
| "exec code call (Client i p # as) s =
     (if i < length (gos s) \<and> call (gos s ! i) p then exec code call as (s\<lparr>gos := (gos s)[i := p]\<rparr>) else None)"

lemma exec_steps: "exec code call as s = Some t \<Longrightarrow> (go_step code call give)\<^sup>*\<^sup>* s t"
proof (induction as arbitrary: s)
  case (Cons a as)
  show ?case
  proof (cases a)
    case (Run i)
    then obtain p m where "i < length (gos s)" "code (gos s ! i) (shared s) = Some (p, m)"
      "exec code call as (s\<lparr>shared := m, gos := (gos s)[i := p]\<rparr>) = Some t"
      using Cons.prems by (auto split: if_splits bind_splits)
    then show ?thesis
      using Cons.IH go_step.internal [OF internal.intros, of i s code p m call give]
      by (blast intro: converse_rtranclp_into_rtranclp)
  next
    case (Client i p)
    then have "i < length (gos s)" "call (gos s ! i) p" "exec code call as (s\<lparr>gos := (gos s)[i := p]\<rparr>) = Some t"
      using Cons.prems by (auto split: if_splits)
    then show ?thesis
      using Cons.IH go_step.client [of i s call p code give] by (blast intro: converse_rtranclp_into_rtranclp)
  qed
qed simp

section \<open>Counting goroutines\<close>

definition cnt :: "('p \<Rightarrow> bool) \<Rightarrow> 'p list \<Rightarrow> nat" where
  "cnt P ps = length (filter P ps)"

lemma cnt_update:
  assumes "i < length ps"
  shows "cnt P (ps[i := p]) + of_bool (P (ps ! i)) = cnt P ps + of_bool (P p)"
proof -
  have "cnt P ps = cnt P (take i ps @ ps ! i # drop (Suc i) ps)" using assms by (simp add: id_take_nth_drop [symmetric])
  then show ?thesis using assms by (simp add: upd_conv_take_nth_drop cnt_def)
qed

lemma sum_update:
  assumes "i < length ps"
  shows "sum_list (map f (ps[i := p])) + f (ps ! i) = sum_list (map f ps) + (f p :: nat)"
proof -
  have "sum_list (map f ps) = sum_list (map f (take i ps @ ps ! i # drop (Suc i) ps))"
    using assms by (simp add: id_take_nth_drop [symmetric])
  then show ?thesis using assms by (simp add: upd_conv_take_nth_drop)
qed

lemma mset_swap_nth: "i < length ps \<Longrightarrow> j < length ps \<Longrightarrow> mset (ps[i := ps ! j, j := ps ! i]) = mset ps"
  using mset_swap by blast

lemma cnt_mset: "mset ps = mset qs \<Longrightarrow> cnt P ps = cnt P qs"
  by (metis cnt_def mset_filter size_mset)

lemma cnt_pos: "0 < cnt P ps \<longleftrightarrow> (\<exists>i < length ps. P (ps ! i))"
  by (simp add: cnt_def filter_empty_conv) (metis in_set_conv_nth)

lemma cnt_0: "cnt P ps = 0 \<longleftrightarrow> (\<forall>p \<in> set ps. \<not> P p)"
  by (auto simp: cnt_def filter_empty_conv)

lemma cnt_all: "\<forall>p \<in> set ps. p = x \<Longrightarrow> \<not> P x \<Longrightarrow> cnt P ps = 0"
  by (auto simp: cnt_0)

lemma cnt_le: "cnt P ps \<le> length ps"
  by (simp add: cnt_def)

lemma cnt_less: "i < length ps \<Longrightarrow> \<not> P (ps ! i) \<Longrightarrow> cnt P ps < length ps"
  using length_filter_less [of "ps ! i" ps P] by (simp add: cnt_def)

lemma cnt_mono: "(\<And>p. P p \<Longrightarrow> Q p) \<Longrightarrow> cnt P ps \<le> cnt Q ps"
  unfolding cnt_def by (induction ps) auto

lemma cnt_disjoint: "(\<And>p. \<not> (P p \<and> Q p)) \<Longrightarrow> cnt P ps + cnt Q ps = cnt (\<lambda>p. P p \<or> Q p) ps"
  unfolding cnt_def by (induction ps) auto

lemma cnt_unique:
  "cnt P ps \<le> 1 \<Longrightarrow> i < length ps \<Longrightarrow> j < length ps \<Longrightarrow> P (ps ! i) \<Longrightarrow> P (ps ! j) \<Longrightarrow> i = j"
proof (rule ccontr)
  assume a: "cnt P ps \<le> 1" "i < length ps" "j < length ps" "P (ps ! i)" "P (ps ! j)" "i \<noteq> j"
  have "card {i, j} \<le> card {k. k < length ps \<and> P (ps ! k)}" by (rule card_mono) (use a in auto)
  then show False using a by (simp add: cnt_def length_filter_conv_card)
qed

lemma cnt_only:
  assumes "i < length ps" "Q (ps ! i)" "cnt Q ps \<le> 1" "\<And>p. P p \<Longrightarrow> Q p" "\<not> P (ps ! i)"
  shows "cnt P ps = 0"
proof (rule ccontr)
  assume "cnt P ps \<noteq> 0"
  then obtain j where j: "j < length ps" "P (ps ! j)" using cnt_pos by blast
  then have "i = j" using cnt_unique [OF assms(3,1) _ assms(2)] assms(4) by blast
  then show False using j assms(5) by simp
qed

text \<open>Goroutines of a kind of which there is at most one.\<close>

lemma filter_update_other:
  "i < length ps \<Longrightarrow> \<not> P (ps ! i) \<Longrightarrow> \<not> P p \<Longrightarrow> filter P (ps[i := p]) = filter P ps"
  by (induction ps arbitrary: i) (auto split: nat.split)

lemma filter_update_enter:
  "i < length ps \<Longrightarrow> filter P ps = [] \<Longrightarrow> filter P (ps[i := p]) = (if P p then [p] else [])"
  by (induction ps arbitrary: i) (auto split: nat.split if_splits)

lemma filter_update_only:
  "i < length ps \<Longrightarrow> P (ps ! i) \<Longrightarrow> length (filter P ps) \<le> 1 \<Longrightarrow>
   filter P ps = [ps ! i] \<and> filter P (ps[i := p]) = (if P p then [p] else [])"
  by (induction ps arbitrary: i) (auto simp: filter_update_other filter_empty_conv split: nat.split if_splits)

lemma filter_mset_only:
  "mset qs = mset ps \<Longrightarrow> length (filter P ps) \<le> 1 \<Longrightarrow> filter P qs = filter P ps"
proof -
  assume "mset qs = mset ps" and l: "length (filter P ps) \<le> 1"
  then have m: "mset (filter P qs) = mset (filter P ps)" by (simp add: mset_filter)
  show ?thesis
  proof (cases "filter P ps")
    case (Cons p us)
    then have "filter P ps = [p]" using l by simp
    then show ?thesis using m by (simp del: mset_filter add: mset_single_iff)
  qed (use m in \<open>simp del: mset_filter\<close>)
qed

lemma sum_list_bound: "(\<And>p. p \<in> set ps \<Longrightarrow> f p \<le> g p + (c::nat)) \<Longrightarrow> sum_list (map f ps) \<le> sum_list (map g ps) + c * length ps"
  by (induction ps) (force simp: algebra_simps)+

section \<open>Invariants and progress\<close>

text \<open>An invariant of the reachable states.\<close>

locale step_system =
  fixes init :: "'s \<Rightarrow> bool" and step :: "'s \<Rightarrow> 's \<Rightarrow> bool" and inv :: "'s \<Rightarrow> bool"
  assumes init_inv: "init s \<Longrightarrow> inv s"
    and step_inv: "inv s \<Longrightarrow> step s t \<Longrightarrow> inv t"
begin

lemma steps_inv: "step\<^sup>*\<^sup>* s t \<Longrightarrow> inv s \<Longrightarrow> inv t"
  by (induction rule: rtranclp_induct) (auto intro: step_inv)

lemma reachable_inv: "init s \<Longrightarrow> step\<^sup>*\<^sup>* s t \<Longrightarrow> inv t"
  using steps_inv init_inv by blast

end

text \<open>
  A phase in which every step decreases \<open>\<mu>\<close>, and which cannot end in a state where nothing happens any
  more while somebody waits: however the goroutines are scheduled, within \<open>\<mu> s\<close> steps the phase is over or nobody
  waits, and until then there is always a goroutine that can make a step.
\<close>

locale step_progress = step_system +
  fixes phase waiting :: "'a \<Rightarrow> bool" and \<mu> :: "'a \<Rightarrow> nat" and inner :: "'a \<Rightarrow> 'a \<Rightarrow> bool"
  assumes decreases: "inv s \<Longrightarrow> phase s \<Longrightarrow> step s t \<Longrightarrow> phase t \<Longrightarrow> \<mu> t < \<mu> s"
    and enabled: "inv s \<Longrightarrow> phase s \<Longrightarrow> waiting s \<Longrightarrow> \<exists>t. inner s t"
    and inner_step: "inner s t \<Longrightarrow> step s t"
begin

lemma phase_bound:
  assumes "inv s" "((\<lambda>s t. step s t \<and> phase s \<and> phase t) ^^ k) s t"
  shows "k + \<mu> t \<le> \<mu> s \<and> inv t"
  using assms(2)
proof (induction k arbitrary: t)
  case (Suc k)
  then obtain u where u: "((\<lambda>s t. step s t \<and> phase s \<and> phase t) ^^ k) s u" "step u t" "phase u" "phase t"
    by auto
  with Suc.IH have "k + \<mu> u \<le> \<mu> s" "inv u" by blast+
  then show ?case using decreases u step_inv by fastforce
qed (use assms(1) in simp)

end

end
