(* ===== verification/Sync_Mutex.thy ===== *)
theory Sync_Mutex
  imports Go_Steps
begin

text \<open>
  sync/mutex.go: the mutex of package sync, whose \<open>state\<close> packs a locked bit, a woken bit and the number
  of sleeping goroutines. Every atomic operation and every load of \<open>state\<close> is one step.
\<close>

unbundle bit_operations_syntax

section \<open>The code\<close>

record Mutex =
  m_state :: int
  m_sema :: nat

definition mutexLocked :: int where
  "mutexLocked = 1"

definition mutexWoken :: int where
  "mutexWoken = 2"

definition mutexWaiterShift :: nat where
  "mutexWaiterShift = 2"

text \<open>
  The places of a goroutine. In \<open>Lock\<close>: before the fast path, before the load of \<open>state\<close>, before the
  compare-and-swap, in \<open>Semacquire\<close>; the arguments are the local variables \<open>awoke\<close> and \<open>old\<close>. In \<open>Unlock\<close>:
  before the \<open>AddInt32\<close>, before the tests on \<open>old\<close>, before the compare-and-swap, before \<open>Semrelease\<close>,
  before the load of \<open>state\<close>. Outside: not holding the mutex, holding it, panicked.
\<close>

datatype mutex_pc =
    Idle
  | Lock_fast
  | Lock_load bool
  | Lock_cas bool int
  | Lock_sema
  | Held
  | Unlock_add
  | Unlock_test int
  | Unlock_cas int
  | Unlock_sema
  | Unlock_load
  | Panicked

definition lock_new :: "bool \<Rightarrow> int \<Rightarrow> int" where
  "lock_new awoke old =
    (let new = (if old AND mutexLocked \<noteq> 0 then int32 (old + push_bit mutexWaiterShift 1) else old OR mutexLocked)
     in if awoke then new AND NOT mutexWoken else new)"

definition nobody_to_wake :: "int \<Rightarrow> bool" where
  "nobody_to_wake old \<longleftrightarrow> drop_bit mutexWaiterShift old = 0 \<or> old AND (mutexLocked OR mutexWoken) \<noteq> 0"

definition unlock_new :: "int \<Rightarrow> int" where
  "unlock_new old = int32 (old - push_bit mutexWaiterShift 1) OR mutexWoken"

fun mutex_code :: "mutex_pc \<Rightarrow> Mutex \<Rightarrow> (mutex_pc \<times> Mutex) option" where
  "mutex_code Lock_fast m =
     Some (if m_state m = 0 then (Held, m\<lparr>m_state := mutexLocked\<rparr>) else (Lock_load False, m))"
| "mutex_code (Lock_load awoke) m = Some (Lock_cas awoke (m_state m), m)"
| "mutex_code (Lock_cas awoke old) m =
     Some (if m_state m = old
           then (if old AND mutexLocked = 0 then Held else Lock_sema, m\<lparr>m_state := lock_new awoke old\<rparr>)
           else (Lock_load awoke, m))"
| "mutex_code Lock_sema m = (if 0 < m_sema m then Some (Lock_load True, m\<lparr>m_sema := m_sema m - 1\<rparr>) else None)"
| "mutex_code Unlock_add m =
     (let new = int32 (m_state m - mutexLocked)
      in Some (if int32 (new + mutexLocked) AND mutexLocked = 0 then Panicked else Unlock_test new, m\<lparr>m_state := new\<rparr>))"
| "mutex_code (Unlock_test old) m = Some (if nobody_to_wake old then Idle else Unlock_cas old, m)"
| "mutex_code (Unlock_cas old) m =
     Some (if m_state m = old then (Unlock_sema, m\<lparr>m_state := unlock_new old\<rparr>) else (Unlock_load, m))"
| "mutex_code Unlock_sema m = Some (Idle, m\<lparr>m_sema := m_sema m + 1\<rparr>)"
| "mutex_code Unlock_load m = Some (Unlock_test (m_state m), m)"
| "mutex_code Idle m = None"
| "mutex_code Held m = None"
| "mutex_code Panicked m = None"

text \<open>
  The client calls \<open>Lock\<close> where it does not hold the mutex and \<open>Unlock\<close> where it does; a goroutine that
  holds it may hand it over to another one.
\<close>

fun mutex_call :: "mutex_pc \<Rightarrow> mutex_pc \<Rightarrow> bool" where
  "mutex_call Idle p \<longleftrightarrow> p = Lock_fast"
| "mutex_call Held p \<longleftrightarrow> p = Unlock_add"
| "mutex_call _ _ \<longleftrightarrow> False"

definition mutex_give :: "mutex_pc \<Rightarrow> mutex_pc \<Rightarrow> bool" where
  "mutex_give p q \<longleftrightarrow> p = Held \<and> q = Idle"

type_synonym mutex_system = "(Mutex, mutex_pc) system"

abbreviation mutex_step :: "mutex_system \<Rightarrow> mutex_system \<Rightarrow> bool" where
  "mutex_step \<equiv> go_step mutex_code mutex_call mutex_give"

text \<open>The zero value of \<open>Mutex\<close>, and fewer than \<open>2 ^ 29\<close> goroutines, the number the waiter count of \<open>state\<close> has room for.\<close>

definition mutex_init :: "mutex_system \<Rightarrow> bool" where
  "mutex_init s \<longleftrightarrow> shared s = \<lparr>m_state = 0, m_sema = 0\<rparr> \<and> (\<forall>p \<in> set (gos s). p = Idle) \<and> length (gos s) < 2 ^ 29"

section \<open>The packed state\<close>

definition enc :: "bool \<Rightarrow> bool \<Rightarrow> nat \<Rightarrow> int" where
  "enc l w n = of_bool l + 2 * of_bool w + 4 * int n"

lemmas mutex_consts = mutexLocked_def mutexWoken_def mutexWaiterShift_def

lemma enc_inject [simp]: "enc l w n = enc l' w' n' \<longleftrightarrow> l = l' \<and> w = w' \<and> n = n'"
  unfolding enc_def by (cases l; cases w; cases l'; cases w'; simp; presburger)

lemma enc_0 [simp]: "enc l w n = 0 \<longleftrightarrow> \<not> l \<and> \<not> w \<and> n = 0"
  by (cases l; cases w) (simp_all add: enc_def)

lemma enc_bits:
  "bit (enc l w n) k \<longleftrightarrow> (if k = 0 then l else if k = 1 then w else bit (int n) (k - 2))"
proof -
  have "odd (enc l w n) \<longleftrightarrow> l" "enc l w n div 2 = of_bool w + 2 * int n"
    "odd (of_bool w + 2 * int n) \<longleftrightarrow> w" "(of_bool w + 2 * int n) div 2 = int n"
    by (cases l; cases w; simp add: enc_def)+
  then show ?thesis by (cases k; cases "k - 1") (simp_all add: bit_0 bit_Suc)
qed

lemma enc_and_locked [simp]: "enc l w n AND mutexLocked = of_bool l"
  by (simp add: mutex_consts enc_def and_one_eq mod_2_eq_odd)

lemma enc_or_locked [simp]: "enc l w n OR mutexLocked = enc True w n"
  by (rule bit_eqI) (auto simp: mutex_consts enc_bits bit_simps)

lemma enc_or_woken [simp]: "enc l w n OR mutexWoken = enc l True n"
  by (rule bit_eqI) (auto simp: mutex_consts enc_bits bit_simps)

lemma enc_not_woken [simp]: "enc l w n AND NOT mutexWoken = enc l False n"
  by (rule bit_eqI) (auto simp: mutex_consts enc_bits bit_simps)

lemma enc_nobody [simp]: "nobody_to_wake (enc l w n) \<longleftrightarrow> n = 0 \<or> l \<or> w"
proof -
  have "mutexLocked OR mutexWoken = mask 2" by (simp add: mutex_consts mask_eq_exp_minus_1)
  then have "enc l w n AND (mutexLocked OR mutexWoken) = enc l w n mod 4"
    by (simp flip: take_bit_eq_mask add: take_bit_eq_mod)
  then show ?thesis
    by (cases l; cases w) (simp_all add: nobody_to_wake_def mutexWaiterShift_def drop_bit_eq_div enc_def)
qed

lemma enc_bounds: "n < 2 ^ 29 \<Longrightarrow> int32 (enc l w n) = enc l w n"
  by (rule int32_id) (auto simp: enc_def)

lemma enc_add [simp]: "enc l w n + 2 ^ mutexWaiterShift = enc l w (Suc n)"
  by (simp add: enc_def mutexWaiterShift_def)

lemma enc_sub [simp]: "0 < n \<Longrightarrow> enc l w n - 2 ^ mutexWaiterShift = enc l w (n - 1)"
  by (cases n) (simp_all add: enc_def mutexWaiterShift_def)

lemma enc_unlock [simp]: "enc True w n - mutexLocked = enc False w n" "enc False w n + mutexLocked = enc True w n"
  by (simp_all add: enc_def mutexLocked_def)

lemma enc_locked: "mutexLocked = enc True False 0"
  by (simp add: enc_def mutexLocked_def)

lemma lock_new_enc:
  "Suc n < 2 ^ 29 \<Longrightarrow> lock_new awoke (enc l w n) =
     (if l then enc True (w \<and> \<not> awoke) (Suc n) else enc True (w \<and> \<not> awoke) n)"
  by (simp add: lock_new_def Let_def enc_bounds)

lemma unlock_new_enc: "0 < n \<Longrightarrow> n < 2 ^ 29 \<Longrightarrow> unlock_new (enc l w n) = enc l True (n - 1)"
  by (simp add: unlock_new_def enc_bounds)

section \<open>The invariant\<close>

text \<open>
  \<open>owner\<close>: has the locked bit; \<open>asleep\<close>: in \<open>Semacquire\<close>; \<open>releasing\<close>: has set the woken bit and is about to
  release the semaphore; \<open>awake\<close>: woken, and has not yet reset the woken bit; \<open>waker\<close>: will look at \<open>state\<close>
  again, or has seen that it must wake somebody.
\<close>

definition owner :: "mutex_pc \<Rightarrow> bool" where
  "owner p \<longleftrightarrow> p = Held \<or> p = Unlock_add"

definition asleep :: "mutex_pc \<Rightarrow> bool" where
  "asleep p \<longleftrightarrow> p = Lock_sema"

definition releasing :: "mutex_pc \<Rightarrow> bool" where
  "releasing p \<longleftrightarrow> p = Unlock_sema"

fun awake :: "mutex_pc \<Rightarrow> bool" where
  "awake (Lock_load b) \<longleftrightarrow> b"
| "awake (Lock_cas b old) \<longleftrightarrow> b"
| "awake _ \<longleftrightarrow> False"

fun waker :: "mutex_pc \<Rightarrow> bool" where
  "waker Unlock_load \<longleftrightarrow> True"
| "waker (Unlock_cas old) \<longleftrightarrow> True"
| "waker (Unlock_test old) \<longleftrightarrow> \<not> nobody_to_wake old"
| "waker _ \<longleftrightarrow> False"

fun mutex_pc_ok :: "mutex_pc \<Rightarrow> bool" where
  "mutex_pc_ok Panicked \<longleftrightarrow> False"
| "mutex_pc_ok (Unlock_cas old) \<longleftrightarrow> \<not> nobody_to_wake old"
| "mutex_pc_ok _ \<longleftrightarrow> True"

definition mutex_counts :: "bool \<Rightarrow> bool \<Rightarrow> nat \<Rightarrow> nat \<Rightarrow> mutex_pc list \<Rightarrow> bool" where
  "mutex_counts l w n sem ps \<longleftrightarrow>
     cnt owner ps = of_bool l \<and>
     n + cnt releasing ps + sem = cnt asleep ps \<and>
     cnt releasing ps + sem + cnt awake ps = of_bool w \<and>
     (0 < n \<and> \<not> l \<and> \<not> w \<longrightarrow> 0 < cnt waker ps) \<and>
     cnt (\<lambda>p. \<not> mutex_pc_ok p) ps = 0 \<and>
     length ps < 2 ^ 29"

definition mutex_inv :: "mutex_system \<Rightarrow> bool" where
  "mutex_inv s \<longleftrightarrow> (\<exists>l w n. m_state (shared s) = enc l w n \<and> mutex_counts l w n (m_sema (shared s)) (gos s))"

lemmas mutex_preds = owner_def asleep_def releasing_def

lemma mutex_counts_update:
  assumes "mutex_counts l w n sem ps" "i < length ps"
    and "of_bool l' + of_bool (owner (ps ! i)) = (of_bool l + of_bool (owner q) :: nat)"
    and "n' + sem' + of_bool (releasing q) + of_bool (asleep (ps ! i)) =
      n + sem + of_bool (asleep q) + of_bool (releasing (ps ! i))"
    and "sem' + of_bool (releasing q) + of_bool (awake q) + of_bool w =
      sem + of_bool (releasing (ps ! i)) + of_bool (awake (ps ! i)) + of_bool w'"
    and "0 < n' \<and> \<not> l' \<and> \<not> w' \<Longrightarrow> waker q \<or> (0 < n \<and> \<not> l \<and> \<not> w \<and> \<not> waker (ps ! i))"
    and "mutex_pc_ok q"
  shows "mutex_counts l' w' n' sem' (ps[i := q])"
proof -
  note up = cnt_update [OF assms(2), of _ q]
  have "0 < n' \<and> \<not> l' \<and> \<not> w' \<longrightarrow> 0 < cnt waker (ps[i := q])"
  proof (cases "waker q")
    case True
    then show ?thesis using assms(2) by (auto simp: cnt_pos)
  next
    case False
    then show ?thesis using assms(1,6) up [of waker] by (auto simp: mutex_counts_def)
  qed
  moreover have "cnt (\<lambda>p. \<not> mutex_pc_ok p) (ps[i := q]) = 0"
    using assms(1,7) up [of "\<lambda>p. \<not> mutex_pc_ok p"] by (simp add: mutex_counts_def)
  ultimately show ?thesis
    using assms(1,3-5) up [of owner] up [of asleep] up [of releasing] up [of awake]
    unfolding mutex_counts_def by simp
qed

lemma mutex_countsI:
  "m_state m = enc l w n \<Longrightarrow> mutex_counts l w n (m_sema m) ps \<Longrightarrow>
   \<exists>l w n. m_state m = enc l w n \<and> mutex_counts l w n (m_sema m) ps"
  by blast

lemma mutex_internal_inv:
  assumes inv: "mutex_inv s" and "internal mutex_code s t"
  shows "mutex_inv t"
  using assms(2)
proof (rule internalE)
  fix i p m
  assume t: "t = s\<lparr>shared := m, gos := (gos s)[i := p]\<rparr>" and i: "i < length (gos s)"
    and code: "mutex_code (gos s ! i) (shared s) = Some (p, m)"
  obtain l w n where st: "m_state (shared s) = enc l w n" and c: "mutex_counts l w n (m_sema (shared s)) (gos s)"
    using inv by (auto simp: mutex_inv_def)
  have ok: "mutex_pc_ok (gos s ! i)" using c i by (auto simp: mutex_counts_def cnt_0)
  have n: "n < 2 ^ 29" using c cnt_le [of asleep "gos s"] by (simp add: mutex_counts_def)
  have n': "Suc n < 2 ^ 29" if "\<not> asleep (gos s ! i)"
    using c cnt_less [OF i, of asleep, OF that] by (simp add: mutex_counts_def)
  have own: "l" if "owner (gos s ! i)" using that c i by (cases l) (auto simp: mutex_counts_def cnt_0)
  have awk: "w" if "awake (gos s ! i)" using that c i by (cases w) (auto simp: mutex_counts_def cnt_0)
  note keep = mutex_counts_update [OF c i]
  have "\<exists>l' w' n'. m_state m = enc l' w' n' \<and> mutex_counts l' w' n' (m_sema m) ((gos s)[i := p])"
  proof (cases "gos s ! i")
    case Lock_fast
    show ?thesis
    proof (cases "m_state (shared s) = 0")
      case True
      then show ?thesis using code st Lock_fast
        by (intro mutex_countsI [of _ True False 0] keep) (auto simp: mutex_preds enc_locked)
    next
      case False
      then show ?thesis using code st Lock_fast by (intro mutex_countsI [of _ l w n] keep) (auto simp: mutex_preds)
    qed
  next
    case (Lock_load awoke)
    then show ?thesis using code st by (intro mutex_countsI [of _ l w n] keep) (auto simp: mutex_preds)
  next
    case (Lock_cas awoke old)
    show ?thesis
    proof (cases "m_state (shared s) = old")
      case True
      then have "p = (if l then Lock_sema else Held)" "m = (shared s)\<lparr>m_state := lock_new awoke (enc l w n)\<rparr>"
        using code st Lock_cas by auto
      then show ?thesis using n' awk Lock_cas
        by (intro mutex_countsI [of _ True "w \<and> \<not> awoke" "if l then Suc n else n"] keep)
          (auto simp: mutex_preds lock_new_enc)
    next
      case False
      then show ?thesis using code st Lock_cas by (intro mutex_countsI [of _ l w n] keep) (auto simp: mutex_preds)
    qed
  next
    case Lock_sema
    then show ?thesis using code st
      by (intro mutex_countsI [of _ l w n] keep) (auto simp: mutex_preds split: if_splits)
  next
    case Unlock_add
    then show ?thesis using code st own n
      by (intro mutex_countsI [of _ False w n] keep) (auto simp: mutex_preds enc_bounds Let_def)
  next
    case (Unlock_test old)
    then show ?thesis using code st
      by (cases "nobody_to_wake old"; intro mutex_countsI [of _ l w n] keep) (auto simp: mutex_preds)
  next
    case (Unlock_cas old)
    show ?thesis
    proof (cases "m_state (shared s) = old")
      case True
      then have "p = Unlock_sema" "m = (shared s)\<lparr>m_state := unlock_new (enc l w n)\<rparr>" "0 < n \<and> \<not> l \<and> \<not> w"
        using code st ok Unlock_cas by auto
      then show ?thesis using n Unlock_cas
        by (intro mutex_countsI [of _ l True "n - 1"] keep) (auto simp: mutex_preds unlock_new_enc)
    next
      case False
      then show ?thesis using code st Unlock_cas by (intro mutex_countsI [of _ l w n] keep) (auto simp: mutex_preds)
    qed
  next
    case Unlock_sema
    then show ?thesis using code st by (intro mutex_countsI [of _ l w n] keep) (auto simp: mutex_preds)
  next
    case Unlock_load
    then show ?thesis using code st by (intro mutex_countsI [of _ l w n] keep) (auto simp: mutex_preds)
  qed (use code in simp_all)
  then show ?thesis using t by (simp add: mutex_inv_def)
qed

lemma mutex_call_inv:
  assumes "mutex_inv s" "i < length (gos s)" "mutex_call (gos s ! i) p"
  shows "mutex_inv (s\<lparr>gos := (gos s)[i := p]\<rparr>)"
proof -
  obtain l w n where "m_state (shared s) = enc l w n" and c: "mutex_counts l w n (m_sema (shared s)) (gos s)"
    using assms(1) by (auto simp: mutex_inv_def)
  moreover have "mutex_counts l w n (m_sema (shared s)) ((gos s)[i := p])"
    using assms(3) by (cases "gos s ! i"; intro mutex_counts_update [OF c assms(2)]) (auto simp: mutex_preds)
  ultimately show ?thesis by (auto simp: mutex_inv_def)
qed

lemma mutex_step_inv: "mutex_inv s \<Longrightarrow> mutex_step s t \<Longrightarrow> mutex_inv t"
proof (erule go_stepE)
  fix i j
  assume "mutex_inv s" "t = s\<lparr>gos := (gos s)[i := gos s ! j, j := gos s ! i]\<rparr>"
    "i < length (gos s)" "j < length (gos s)"
  then show "mutex_inv t" using cnt_mset [OF mset_swap_nth [of i "gos s" j]]
    by (simp add: mutex_inv_def mutex_counts_def)
qed (simp_all add: mutex_internal_inv mutex_call_inv)

lemma mutex_init_inv: "mutex_init s \<Longrightarrow> mutex_inv s"
  using cnt_all [of "gos s" Idle] unfolding mutex_inv_def mutex_init_def mutex_counts_def
  by (intro exI [of _ False] exI [of _ "0 :: nat"]) (simp add: enc_def mutex_preds)

section \<open>Progress\<close>

text \<open>Nobody owns the mutex; somebody is in \<open>Lock\<close>.\<close>

definition mutex_free :: "mutex_system \<Rightarrow> bool" where
  "mutex_free s \<longleftrightarrow> (\<forall>p \<in> set (gos s). \<not> owner p)"

fun locking :: "mutex_pc \<Rightarrow> bool" where
  "locking Lock_fast \<longleftrightarrow> True"
| "locking (Lock_load b) \<longleftrightarrow> True"
| "locking (Lock_cas b old) \<longleftrightarrow> True"
| "locking Lock_sema \<longleftrightarrow> True"
| "locking _ \<longleftrightarrow> False"

definition mutex_waiting :: "mutex_system \<Rightarrow> bool" where
  "mutex_waiting s \<longleftrightarrow> (\<exists>p \<in> set (gos s). locking p)"

text \<open>
  While the mutex is free its state changes at most once before somebody acquires it, from not woken to
  woken; and as long as it does not change, every goroutine makes only a few steps.
\<close>

fun mutex_rank :: "int \<Rightarrow> mutex_pc \<Rightarrow> nat" where
  "mutex_rank st (Lock_cas b old) = (if old = st then 1 else 3)"
| "mutex_rank st (Lock_load b) = 2"
| "mutex_rank st Lock_sema = 3"
| "mutex_rank st Lock_fast = 4"
| "mutex_rank st Idle = 5"
| "mutex_rank st Unlock_sema = 6"
| "mutex_rank st (Unlock_cas old) = (if old = st then 7 else 10)"
| "mutex_rank st (Unlock_test old) = (if old = st then 8 else 11)"
| "mutex_rank st Unlock_load = 9"
| "mutex_rank st _ = 0"

definition mutex_measure :: "mutex_system \<Rightarrow> nat" where
  "mutex_measure s = (if m_state (shared s) AND mutexWoken = 0 then 3 * length (gos s) + 1 else 0) +
     sum_list (map (mutex_rank (m_state (shared s))) (gos s))"

lemma mutex_rank_stale: "mutex_rank st' p \<le> mutex_rank st p + 3"
  by (cases p) auto

lemma enc_and_woken [simp]: "enc l w n AND mutexWoken = 2 * of_bool w"
  by (rule bit_eqI) (auto simp: mutex_consts enc_bits bit_simps bit_double_iff)

lemma mutex_measure_le: "mutex_measure s \<le> 14 * length (gos s) + 1"
proof -
  have "mutex_rank st p \<le> 11" for st p by (cases p) auto
  then have "sum_list (map (mutex_rank (m_state (shared s))) (gos s)) \<le> 11 * length (gos s)"
    using sum_list_bound [of "gos s" "mutex_rank (m_state (shared s))" "\<lambda>p. 0" 11] by simp
  then show ?thesis by (simp add: mutex_measure_def)
qed

lemma mutex_measure_internal:
  assumes inv: "mutex_inv s" and "mutex_free s" "mutex_free t" "internal mutex_code s t"
  shows "mutex_measure t < mutex_measure s"
  using assms(4)
proof (rule internalE)
  fix i p m
  assume t: "t = s\<lparr>shared := m, gos := (gos s)[i := p]\<rparr>" and i: "i < length (gos s)"
    and code: "mutex_code (gos s ! i) (shared s) = Some (p, m)"
  obtain l w n where st: "m_state (shared s) = enc l w n" and c: "mutex_counts l w n (m_sema (shared s)) (gos s)"
    using inv by (auto simp: mutex_inv_def)
  have l: "\<not> l" using c assms(2) by (auto simp: mutex_counts_def cnt_0 [THEN iffD2] mutex_free_def)
  have ok: "mutex_pc_ok (gos s ! i)" using c i by (auto simp: mutex_counts_def cnt_0)
  have n: "n < 2 ^ 29" using c cnt_le [of asleep "gos s"] by (simp add: mutex_counts_def)
  have facts: "m_state (shared s) AND mutexLocked = 0"
    "\<not> nobody_to_wake (m_state (shared s)) \<Longrightarrow> unlock_new (m_state (shared s)) = enc l True (n - 1) \<and> \<not> w"
    using st l n by (simp_all add: unlock_new_enc)
  have "\<not> owner p" "\<not> owner (gos s ! i)"
    using assms(2,3) t i by (auto simp: mutex_free_def set_update_memI)
  then have "m_state m = m_state (shared s) \<and> mutex_rank (m_state m) p < mutex_rank (m_state m) (gos s ! i) \<or>
      gos s ! i = Unlock_cas (m_state (shared s)) \<and> p = Unlock_sema \<and> m_state m = enc l True (n - 1) \<and> \<not> w"
    using code ok facts by (cases "gos s ! i") (auto simp: mutex_preds split: if_splits)
  then show ?thesis
  proof
    assume "m_state m = m_state (shared s) \<and> mutex_rank (m_state m) p < mutex_rank (m_state m) (gos s ! i)"
    then show ?thesis using sum_update [OF i, of "mutex_rank (m_state m)" p] by (auto simp: mutex_measure_def t)
  next
    let ?ps = "(gos s)[i := p]"
    assume a: "gos s ! i = Unlock_cas (m_state (shared s)) \<and> p = Unlock_sema \<and> m_state m = enc l True (n - 1) \<and> \<not> w"
    have "sum_list (map (mutex_rank (m_state m)) ?ps) \<le> sum_list (map (mutex_rank (m_state (shared s))) ?ps) + 3 * length (gos s)"
      using sum_list_bound [of ?ps "mutex_rank (m_state m)" "mutex_rank (m_state (shared s))" 3] mutex_rank_stale
      by simp
    then show ?thesis using a st sum_update [OF i, of "mutex_rank (m_state (shared s))" p] by (simp add: mutex_measure_def t)
  qed
qed

lemma mutex_measure_step:
  assumes "mutex_inv s" "mutex_free s" "mutex_step s t" "mutex_free t"
  shows "mutex_measure t < mutex_measure s"
  using assms(3)
proof (rule go_stepE)
  fix i p
  assume i: "i < length (gos s)" and p: "mutex_call (gos s ! i) p" and t: "t = s\<lparr>gos := (gos s)[i := p]\<rparr>"
  have "gos s ! i = Idle" "p = Lock_fast"
    using p assms(2) i by (cases "gos s ! i"; auto simp: mutex_free_def owner_def dest!: nth_mem)+
  then show ?thesis using sum_update [OF i, of "mutex_rank (m_state (shared s))" p] by (simp add: mutex_measure_def t)
next
  fix i j
  assume "i < length (gos s)" "mutex_give (gos s ! i) (gos s ! j)"
  then show ?thesis using assms(2) nth_mem by (fastforce simp: mutex_give_def mutex_free_def owner_def)
qed (use assms mutex_measure_internal in blast)

lemma mutex_can_step: "i < length (gos s) \<Longrightarrow> mutex_code (gos s ! i) (shared s) \<noteq> None \<Longrightarrow> \<exists>t. internal mutex_code s t"
  by (metis internal.intros not_None_eq surj_pair)

lemma mutex_enabled:
  assumes inv: "mutex_inv s" and "mutex_free s" "mutex_waiting s"
  shows "\<exists>t. internal mutex_code s t"
proof -
  obtain l w n where st: "m_state (shared s) = enc l w n" and c: "mutex_counts l w n (m_sema (shared s)) (gos s)"
    using inv by (auto simp: mutex_inv_def)
  have l: "\<not> l" using c assms(2) by (auto simp: mutex_counts_def cnt_0 [THEN iffD2] mutex_free_def)
  obtain i where i: "i < length (gos s)" "locking (gos s ! i)"
    using assms(3) by (auto simp: mutex_waiting_def in_set_conv_nth)
  consider "gos s ! i \<noteq> Lock_sema" | "gos s ! i = Lock_sema" "0 < m_sema (shared s)"
    | "gos s ! i = Lock_sema" "m_sema (shared s) = 0" by blast
  then show ?thesis
  proof cases
    case 3
    then have "0 < cnt asleep (gos s)" using i by (auto simp: cnt_pos asleep_def)
    then have "0 < cnt releasing (gos s) \<or> 0 < cnt awake (gos s) \<or> 0 < cnt waker (gos s)"
      using c l 3 by (cases w) (auto simp: mutex_counts_def)
    then obtain j where "j < length (gos s)" "releasing (gos s ! j) \<or> awake (gos s ! j) \<or> waker (gos s ! j)"
      by (auto simp: cnt_pos)
    then show ?thesis by (intro mutex_can_step [of j]) (cases "gos s ! j"; auto simp: releasing_def)+
  qed (use i in \<open>(intro mutex_can_step [of i]; cases "gos s ! i"; auto)+\<close>)
qed

interpretation mutex: step_progress mutex_init mutex_step mutex_inv mutex_free mutex_waiting mutex_measure "internal mutex_code"
  by unfold_locales
    (auto simp: mutex_init_inv mutex_measure_step mutex_enabled intro: mutex_step_inv go_step.internal)

definition mutex_run :: "mutex_pc act list \<Rightarrow> mutex_system option" where
  "mutex_run as = exec mutex_code mutex_call as \<lparr>shared = \<lparr>m_state = 0, m_sema = 0\<rparr>, gos = [Idle, Idle]\<rparr>"

lemma mutex_run_steps: "mutex_run as = Some s \<Longrightarrow> \<exists>s0. mutex_init s0 \<and> mutex_step\<^sup>*\<^sup>* s0 s"
  unfolding mutex_run_def
  by (rule exI [of _ "\<lparr>shared = \<lparr>m_state = 0, m_sema = 0\<rparr>, gos = [Idle, Idle]\<rparr>"]) (auto simp: mutex_init_def intro: exec_steps)

text \<open>One goroutine holds the mutex and another one sleeps; then the first one has dropped the locked bit.\<close>

lemma mutex_run_sleep:
  "mutex_run [Client 0 Lock_fast, Run 0, Client 1 Lock_fast, Run 1, Run 1, Run 1] =
     Some \<lparr>shared = \<lparr>m_state = 5, m_sema = 0\<rparr>, gos = [Held, Lock_sema]\<rparr>"
  by (simp add: mutex_run_def mutex_consts lock_new_def)

lemma mutex_run_drop:
  "mutex_run [Client 0 Lock_fast, Run 0, Client 1 Lock_fast, Run 1, Run 1, Run 1, Client 0 Unlock_add, Run 0] =
     Some \<lparr>shared = \<lparr>m_state = 4, m_sema = 0\<rparr>, gos = [Unlock_test 4, Lock_sema]\<rparr>"
  by (simp add: mutex_run_def mutex_consts lock_new_def int32_def Let_def)

section \<open>Properties\<close>

text \<open>
  C28. Mutual exclusion: whatever the interleaving of the calls of \<open>Lock\<close> and \<open>Unlock\<close> of any number of
  goroutines (below \<open>2 ^ 29\<close>), also when a mutex is handed from one goroutine to another, at most one of
  them holds the mutex; \<open>Unlock\<close> never panics with "unlock of unlocked mutex"; the semaphore is at
  most 1; and the locked bit of \<open>state\<close> is set exactly when a goroutine owns the mutex.
\<close>

theorem mutex_exclusion:
  assumes "mutex_init s0" "mutex_step\<^sup>*\<^sup>* s0 s"
  shows "cnt owner (gos s) \<le> 1 \<and> Panicked \<notin> set (gos s) \<and> m_sema (shared s) \<le> 1 \<and>
    (m_state (shared s) AND mutexLocked \<noteq> 0 \<longleftrightarrow> (\<exists>p \<in> set (gos s). owner p))"
proof -
  obtain l w n where st: "m_state (shared s) = enc l w n" and c: "mutex_counts l w n (m_sema (shared s)) (gos s)"
    using mutex.reachable_inv [OF assms] by (auto simp: mutex_inv_def)
  have "cnt owner (gos s) = of_bool l" "m_sema (shared s) \<le> of_bool w" "cnt (\<lambda>p. \<not> mutex_pc_ok p) (gos s) = 0"
    using c by (auto simp: mutex_counts_def)
  moreover from this(3) have "Panicked \<notin> set (gos s)" by (auto simp: cnt_0)
  moreover have "l \<longleftrightarrow> (\<exists>p \<in> set (gos s). owner p)"
    using calculation(1) cnt_0 [of owner "gos s"] by (cases l) auto
  ultimately show ?thesis using st by (cases w) auto
qed

theorem mutex_exclusion_witness:
  "let s = \<lparr>shared = \<lparr>m_state = 5, m_sema = 0\<rparr>, gos = [Held, Lock_sema]\<rparr>
   in (\<exists>s0. mutex_init s0 \<and> mutex_step\<^sup>*\<^sup>* s0 s) \<and> cnt owner (gos s) \<le> 1 \<and>
     (m_state (shared s) AND mutexLocked \<noteq> 0 \<longleftrightarrow> (\<exists>p \<in> set (gos s). owner p))"
  using mutex_run_steps [OF mutex_run_sleep] mutex_exclusion unfolding Let_def by blast

text \<open>
  C29. No lost wake-up: in every reachable state in which nobody owns the mutex and some goroutine is in
  \<open>Lock\<close>, asleep or not, a goroutine in \<open>Lock\<close> or \<open>Unlock\<close> can make a step; and whatever steps are made,
  by whatever scheduler, and however many new calls of \<open>Lock\<close> come in, after at most \<open>14 * N + 1\<close> of them
  (\<open>N\<close> goroutines) somebody owns the mutex.
\<close>

theorem mutex_progress:
  assumes "mutex_init s0" "mutex_step\<^sup>*\<^sup>* s0 s"
    and "((\<lambda>s t. mutex_step s t \<and> mutex_free s \<and> mutex_free t) ^^ k) s t" "mutex_free t" "mutex_waiting t"
  shows "k \<le> 14 * length (gos s) + 1 \<and> (\<exists>u. internal mutex_code t u)"
proof -
  have "k + mutex_measure t \<le> mutex_measure s \<and> mutex_inv t"
    using mutex.phase_bound [OF mutex.reachable_inv [OF assms(1,2)] assms(3)] .
  then show ?thesis using mutex_measure_le [of s] mutex.enabled [OF _ assms(4,5)] by auto
qed

theorem mutex_progress_witness:
  "\<exists>s t. s = \<lparr>shared = \<lparr>m_state = 4, m_sema = 0\<rparr>, gos = [Unlock_test 4, Lock_sema]\<rparr> \<and>
     t = \<lparr>shared = \<lparr>m_state = 4, m_sema = 0\<rparr>, gos = [Unlock_cas 4, Lock_sema]\<rparr> \<and>
     (\<exists>s0. mutex_init s0 \<and> mutex_step\<^sup>*\<^sup>* s0 s) \<and>
     ((\<lambda>s t. mutex_step s t \<and> mutex_free s \<and> mutex_free t) ^^ 1) s t \<and>
     1 \<le> 14 * length (gos s) + 1 \<and> (\<exists>u. internal mutex_code t u)"
proof -
  let ?s = "\<lparr>shared = \<lparr>m_state = 4, m_sema = 0\<rparr>, gos = [Unlock_test 4, Lock_sema]\<rparr> :: mutex_system"
  let ?t = "\<lparr>shared = \<lparr>m_state = 4, m_sema = 0\<rparr>, gos = [Unlock_cas 4, Lock_sema]\<rparr> :: mutex_system"
  have reach: "\<exists>s0. mutex_init s0 \<and> mutex_step\<^sup>*\<^sup>* s0 ?s" by (rule mutex_run_steps [OF mutex_run_drop])
  then obtain s0 where s0: "mutex_init s0" "mutex_step\<^sup>*\<^sup>* s0 ?s" by (elim exE conjE)
  have "internal mutex_code ?s ?t"
    using internal.intros [of 0 ?s mutex_code "Unlock_cas 4" "shared ?s"]
    by (simp add: nobody_to_wake_def mutex_consts drop_bit_eq_div)
  moreover have "mutex_free ?s" "mutex_free ?t" "mutex_waiting ?t"
    by (simp_all add: mutex_free_def mutex_waiting_def owner_def)
  ultimately have r: "((\<lambda>s t. mutex_step s t \<and> mutex_free s \<and> mutex_free t) ^^ 1) ?s ?t"
    by (simp add: go_step.internal eq_OO)
  note p = mutex_progress [OF s0 r \<open>mutex_free ?t\<close> \<open>mutex_waiting ?t\<close>]
  show ?thesis
    by (rule exI [of _ ?s], rule exI [of _ ?t])
      (intro conjI refl reach r p [THEN conjunct1] p [THEN conjunct2])
qed

end
