(* ===== verification/Sync_RWMutex.thy ===== *)
theory Sync_RWMutex
  imports Sync_Mutex
begin

text \<open>
  sync/rwmutex.go: the reader/writer lock. Every atomic operation and every operation on a semaphore is one
  step. The field \<open>w\<close>, a \<open>Mutex\<close>, is used through what the theory of the mutex shows of it: \<open>Lock\<close> returns
  only when nobody else holds it (mutual exclusion), and returns eventually when nobody does (progress), so
  it is a bit here that \<open>Lock\<close> waits for and sets and \<open>Unlock\<close> clears.
\<close>

section \<open>The code\<close>

record RWMutex =
  rw_w :: bool
  rw_writerSem :: nat
  rw_readerSem :: nat
  rw_readerCount :: int
  rw_readerWait :: int

definition rwmutexMaxReaders :: int where
  "rwmutexMaxReaders = 2 ^ 30"

text \<open>
  The places of a goroutine; the arguments are the local variables \<open>r\<close> and \<open>i\<close>. \<open>Reading\<close> and \<open>Writing\<close>
  are outside the package, between \<open>RLock\<close> and \<open>RUnlock\<close> and between \<open>Lock\<close> and \<open>Unlock\<close>.
\<close>

datatype rw_pc =
    Outside
  | RLock_add
  | RLock_sema
  | Reading
  | RUnlock_add
  | RUnlock_wait
  | RUnlock_release
  | WLock_mutex
  | WLock_add
  | WLock_wait int
  | WLock_sema
  | Writing
  | WUnlock_add
  | WUnlock_loop int int

fun rw_code :: "rw_pc \<Rightarrow> RWMutex \<Rightarrow> (rw_pc \<times> RWMutex) option" where
  "rw_code RLock_add m =
     (let c = int32 (rw_readerCount m + 1)
      in Some (if c < 0 then RLock_sema else Reading, m\<lparr>rw_readerCount := c\<rparr>))"
| "rw_code RLock_sema m =
     (if 0 < rw_readerSem m then Some (Reading, m\<lparr>rw_readerSem := rw_readerSem m - 1\<rparr>) else None)"
| "rw_code RUnlock_add m =
     (let c = int32 (rw_readerCount m - 1)
      in Some (if c < 0 then RUnlock_wait else Outside, m\<lparr>rw_readerCount := c\<rparr>))"
| "rw_code RUnlock_wait m =
     (let c = int32 (rw_readerWait m - 1)
      in Some (if c = 0 then RUnlock_release else Outside, m\<lparr>rw_readerWait := c\<rparr>))"
| "rw_code RUnlock_release m = Some (Outside, m\<lparr>rw_writerSem := rw_writerSem m + 1\<rparr>)"
| "rw_code WLock_mutex m = (if rw_w m then None else Some (WLock_add, m\<lparr>rw_w := True\<rparr>))"
| "rw_code WLock_add m =
     (let c = int32 (rw_readerCount m - rwmutexMaxReaders); r = int32 (c + rwmutexMaxReaders)
      in Some (if r \<noteq> 0 then WLock_wait r else Writing, m\<lparr>rw_readerCount := c\<rparr>))"
| "rw_code (WLock_wait r) m =
     (let c = int32 (rw_readerWait m + r)
      in Some (if c \<noteq> 0 then WLock_sema else Writing, m\<lparr>rw_readerWait := c\<rparr>))"
| "rw_code WLock_sema m =
     (if 0 < rw_writerSem m then Some (Writing, m\<lparr>rw_writerSem := rw_writerSem m - 1\<rparr>) else None)"
| "rw_code WUnlock_add m =
     (let r = int32 (rw_readerCount m + rwmutexMaxReaders)
      in Some (WUnlock_loop r 0, m\<lparr>rw_readerCount := r\<rparr>))"
| "rw_code (WUnlock_loop r i) m =
     Some (if i < r then (WUnlock_loop r (i + 1), m\<lparr>rw_readerSem := rw_readerSem m + 1\<rparr>)
           else (Outside, m\<lparr>rw_w := False\<rparr>))"
| "rw_code Outside m = None"
| "rw_code Reading m = None"
| "rw_code Writing m = None"

text \<open>\<open>RLocker\<close> adds no steps of its own: its \<open>Lock\<close> and \<open>Unlock\<close> are \<open>RLock\<close> and \<open>RUnlock\<close>.\<close>

fun rw_call :: "rw_pc \<Rightarrow> rw_pc \<Rightarrow> bool" where
  "rw_call Outside p \<longleftrightarrow> p = RLock_add \<or> p = WLock_mutex"
| "rw_call Reading p \<longleftrightarrow> p = RUnlock_add"
| "rw_call Writing p \<longleftrightarrow> p = WUnlock_add"
| "rw_call _ _ \<longleftrightarrow> False"

definition rw_give :: "rw_pc \<Rightarrow> rw_pc \<Rightarrow> bool" where
  "rw_give p q \<longleftrightarrow> (p = Reading \<or> p = Writing) \<and> q = Outside"

type_synonym rw_system = "(RWMutex, rw_pc) system"

abbreviation rw_step :: "rw_system \<Rightarrow> rw_system \<Rightarrow> bool" where
  "rw_step \<equiv> go_step rw_code rw_call rw_give"

definition rw_init :: "rw_system \<Rightarrow> bool" where
  "rw_init s \<longleftrightarrow> shared s = \<lparr>rw_w = False, rw_writerSem = 0, rw_readerSem = 0, rw_readerCount = 0, rw_readerWait = 0\<rparr> \<and>
     (\<forall>p \<in> set (gos s). p = Outside) \<and> int (length (gos s)) < rwmutexMaxReaders"

section \<open>The invariant\<close>

text \<open>
  The goroutine that holds \<open>w\<close>, of which there is at most one; the readers that hold the lock
  (\<open>active\<close>), and those that wait to be let in.
\<close>

fun holds_w :: "rw_pc \<Rightarrow> bool" where
  "holds_w WLock_add \<longleftrightarrow> True"
| "holds_w (WLock_wait r) \<longleftrightarrow> True"
| "holds_w WLock_sema \<longleftrightarrow> True"
| "holds_w Writing \<longleftrightarrow> True"
| "holds_w WUnlock_add \<longleftrightarrow> True"
| "holds_w (WUnlock_loop r i) \<longleftrightarrow> True"
| "holds_w _ \<longleftrightarrow> False"

fun announced :: "rw_pc list \<Rightarrow> bool" where
  "announced [WLock_wait r] \<longleftrightarrow> True"
| "announced [WLock_sema] \<longleftrightarrow> True"
| "announced [Writing] \<longleftrightarrow> True"
| "announced [WUnlock_add] \<longleftrightarrow> True"
| "announced _ \<longleftrightarrow> False"

definition active :: "rw_pc \<Rightarrow> bool" where
  "active p \<longleftrightarrow> p = Reading \<or> p = RUnlock_add"

text \<open>
  What the fields are, in terms of the goroutine at \<open>w\<close> and of the numbers of readers: \<open>rs\<close> in \<open>RLock\<close>'s
  \<open>Semacquire\<close>, \<open>a\<close> active, \<open>d\<close> departing (between the two decrements of \<open>RUnlock\<close>), \<open>e\<close> about to release
  the writer. Tokens in \<open>readerSem\<close> stand for readers that have been let in.
\<close>

fun rw_phase :: "rw_pc list \<Rightarrow> nat \<Rightarrow> nat \<Rightarrow> nat \<Rightarrow> nat \<Rightarrow> RWMutex \<Rightarrow> bool" where
  "rw_phase [WLock_wait r] rs a d e m \<longleftrightarrow>
     int (rw_readerSem m + a + d) = r + rw_readerWait m \<and> rw_readerWait m \<le> 0 \<and> r < rwmutexMaxReaders \<and>
     e + rw_writerSem m = 0 \<and> rw_readerSem m \<le> rs"
| "rw_phase [WLock_sema] rs a d e m \<longleftrightarrow>
     int (rw_readerSem m + a + d) = rw_readerWait m \<and>
     e + rw_writerSem m = of_bool (rw_readerWait m = 0) \<and> rw_readerSem m \<le> rs"
| "rw_phase [Writing] rs a d e m \<longleftrightarrow>
     rw_readerSem m + a + d = 0 \<and> rw_readerWait m = 0 \<and> e + rw_writerSem m = 0"
| "rw_phase [WUnlock_add] rs a d e m \<longleftrightarrow>
     rw_readerSem m + a + d = 0 \<and> rw_readerWait m = 0 \<and> e + rw_writerSem m = 0"
| "rw_phase [WUnlock_loop r i] rs a d e m \<longleftrightarrow>
     int rs = int (rw_readerSem m) + (r - i) \<and> i \<le> r \<and> d = 0 \<and> rw_readerWait m = 0 \<and> e + rw_writerSem m = 0"
| "rw_phase _ rs a d e m \<longleftrightarrow>
     rs = rw_readerSem m \<and> d = 0 \<and> rw_readerWait m = 0 \<and> e + rw_writerSem m = 0"

definition rw_inv :: "rw_system \<Rightarrow> bool" where
  "rw_inv s \<longleftrightarrow>
    (let ps = gos s; m = shared s; ws = filter holds_w ps; rs = cnt ((=) RLock_sema) ps; a = cnt active ps
     in length ws = of_bool (rw_w m) \<and>
        rw_readerCount m = int (rs + a) - (if announced ws then rwmutexMaxReaders else 0) \<and>
        rw_phase ws rs a (cnt ((=) RUnlock_wait) ps) (cnt ((=) RUnlock_release) ps) m \<and>
        int (length ps) < rwmutexMaxReaders)"

text \<open>The numbers on which the invariant depends.\<close>

definition rw_acc :: "rw_pc list \<Rightarrow> nat \<Rightarrow> nat \<Rightarrow> nat \<Rightarrow> nat \<Rightarrow> RWMutex \<Rightarrow> bool" where
  "rw_acc ws rs a d e m \<longleftrightarrow> length ws = of_bool (rw_w m) \<and>
     rw_readerCount m = int (rs + a) - (if announced ws then rwmutexMaxReaders else 0) \<and> rw_phase ws rs a d e m"

lemma rw_inv_acc:
  "rw_inv s \<longleftrightarrow> rw_acc (filter holds_w (gos s)) (cnt ((=) RLock_sema) (gos s)) (cnt active (gos s))
     (cnt ((=) RUnlock_wait) (gos s)) (cnt ((=) RUnlock_release) (gos s)) (shared s) \<and> int (length (gos s)) < rwmutexMaxReaders"
  by (simp add: rw_inv_def rw_acc_def Let_def)

lemma ws_cases:
  assumes "\<forall>p \<in> set ws. holds_w p" "length ws \<le> 1"
  obtains "ws = []" | "ws = [WLock_add]" | r where "ws = [WLock_wait r]" | "ws = [WLock_sema]" | "ws = [Writing]"
    | "ws = [WUnlock_add]" | r i where "ws = [WUnlock_loop r i]"
proof (cases ws)
  case (Cons p ps)
  then show thesis using assms that by (cases p) auto
qed (use that in blast)

text \<open>What a step of a reader does to the numbers, whatever the goroutine at \<open>w\<close> is doing.\<close>

lemma rw_acc_length: "rw_acc ws rs a d e m \<Longrightarrow> length ws \<le> 1"
  by (simp add: rw_acc_def)

lemma acc_RLock_add:
  assumes acc: "rw_acc ws rs a d e m" and ws: "\<forall>p \<in> set ws. holds_w p" and code: "rw_code RLock_add m = Some (q, m')"
    and n: "int (rs + a + 1) < rwmutexMaxReaders"
  shows "q = RLock_sema \<and> rw_acc ws (Suc rs) a d e m' \<or> q = Reading \<and> rw_acc ws rs (Suc a) d e m'"
proof -
  have c: "q = (if announced ws then RLock_sema else Reading)" "m' = m\<lparr>rw_readerCount := rw_readerCount m + 1\<rparr>"
    using acc code n by (auto simp: rw_acc_def Let_def rwmutexMaxReaders_def split: if_splits)
  have "rw_phase ws (if announced ws then Suc rs else rs) (if announced ws then a else Suc a) d e m'"
    using ws rw_acc_length [OF acc] acc unfolding c(2) rw_acc_def by (cases rule: ws_cases) simp_all
  then show ?thesis using acc c by (simp add: rw_acc_def split: if_splits)
qed

lemma acc_RLock_sema:
  assumes acc: "rw_acc ws (Suc rs) a d e m" and ws: "\<forall>p \<in> set ws. holds_w p" and code: "rw_code RLock_sema m = Some (q, m')"
  shows "q = Reading \<and> rw_acc ws rs (Suc a) d e m'"
proof -
  obtain t where c: "rw_readerSem m = Suc t" "q = Reading" "m' = m\<lparr>rw_readerSem := t\<rparr>"
    using code by (cases "rw_readerSem m") (simp_all split: if_splits)
  have "rw_phase ws rs (Suc a) d e m'"
    using ws rw_acc_length [OF acc] acc unfolding c(3) rw_acc_def by (cases rule: ws_cases) (simp_all add: c(1))
  then show ?thesis using acc c by (simp add: rw_acc_def)
qed

lemma acc_RUnlock_add:
  assumes acc: "rw_acc ws rs (Suc a) d e m" and ws: "\<forall>p \<in> set ws. holds_w p" and code: "rw_code RUnlock_add m = Some (q, m')"
    and n: "int (rs + Suc a) < rwmutexMaxReaders"
  shows "q = RUnlock_wait \<and> rw_acc ws rs a (Suc d) e m' \<or> q = Outside \<and> rw_acc ws rs a d e m'"
proof -
  have c: "q = (if announced ws then RUnlock_wait else Outside)" "m' = m\<lparr>rw_readerCount := rw_readerCount m - 1\<rparr>"
    using acc code n by (auto simp: rw_acc_def Let_def rwmutexMaxReaders_def split: if_splits)
  have "rw_phase ws rs a (if announced ws then Suc d else d) e m'"
    using ws rw_acc_length [OF acc] acc unfolding c(2) rw_acc_def by (cases rule: ws_cases) simp_all
  then show ?thesis using acc c by (simp add: rw_acc_def split: if_splits)
qed

lemma acc_RUnlock_wait:
  assumes acc: "rw_acc ws rs a (Suc d) e m" and ws: "\<forall>p \<in> set ws. holds_w p" and code: "rw_code RUnlock_wait m = Some (q, m')"
    and n: "int (rs + a + Suc d) < rwmutexMaxReaders"
  shows "q = RUnlock_release \<and> rw_acc ws rs a d (Suc e) m' \<or> q = Outside \<and> rw_acc ws rs a d e m'"
proof -
  have "- rwmutexMaxReaders \<le> rw_readerWait m \<and> rw_readerWait m < rwmutexMaxReaders"
    using ws rw_acc_length [OF acc] acc n unfolding rw_acc_def by (cases rule: ws_cases) auto
  then have c: "q = (if rw_readerWait m = 1 then RUnlock_release else Outside)" "m' = m\<lparr>rw_readerWait := rw_readerWait m - 1\<rparr>"
    using code by (auto simp: Let_def rwmutexMaxReaders_def split: if_splits)
  have "rw_phase ws rs a d (if rw_readerWait m = 1 then Suc e else e) m'"
    using ws rw_acc_length [OF acc] acc unfolding c(2) rw_acc_def by (cases rule: ws_cases) auto
  then show ?thesis using acc c by (simp add: rw_acc_def split: if_splits)
qed

lemma acc_RUnlock_release:
  assumes acc: "rw_acc ws rs a d (Suc e) m" and ws: "\<forall>p \<in> set ws. holds_w p" and code: "rw_code RUnlock_release m = Some (q, m')"
  shows "q = Outside \<and> rw_acc ws rs a d e m'"
proof -
  have c: "q = Outside" "m' = m\<lparr>rw_writerSem := rw_writerSem m + 1\<rparr>" using code by simp_all
  have "rw_phase ws rs a d e m'"
    using ws rw_acc_length [OF acc] acc unfolding c(2) rw_acc_def by (cases rule: ws_cases) simp_all
  then show ?thesis using acc c by (simp add: rw_acc_def)
qed

lemma acc_writerSem:
  assumes acc: "rw_acc ws rs a d e m" and ws: "\<forall>p \<in> set ws. holds_w p"
  shows "e + rw_writerSem m \<le> 1"
proof -
  have "rw_phase ws rs a d e m" using acc by (simp add: rw_acc_def)
  with ws rw_acc_length [OF acc] show ?thesis by (cases rule: ws_cases) simp_all
qed

text \<open>What a step of a writer does.\<close>

lemma acc_WLock_mutex:
  assumes "rw_acc ws rs a d e m" "rw_code WLock_mutex m = Some (q, m')"
  shows "q = WLock_add \<and> ws = [] \<and> rw_acc [WLock_add] rs a d e m'"
  using assms by (auto simp: rw_acc_def split: if_splits)

lemma acc_writer:
  assumes acc: "rw_acc [p] rs a d e m" and p: "holds_w p" and code: "rw_code p m = Some (q, m')"
    and n: "int (rs + a + d) < rwmutexMaxReaders"
  shows "q \<noteq> RLock_sema \<and> \<not> active q \<and> q \<noteq> RUnlock_wait \<and> q \<noteq> RUnlock_release \<and>
    rw_acc (if holds_w q then [q] else []) rs a d e m'"
proof (cases p)
  case WLock_add
  have "rw_readerCount m = int (rs + a)" using acc WLock_add by (simp add: rw_acc_def)
  then have "q = (if rs + a \<noteq> 0 then WLock_wait (int (rs + a)) else Writing)"
    "m' = m\<lparr>rw_readerCount := int (rs + a) - rwmutexMaxReaders\<rparr>"
    using code n WLock_add by (auto simp: Let_def rwmutexMaxReaders_def split: if_splits)
  then show ?thesis using acc n by (auto simp: WLock_add rw_acc_def active_def rwmutexMaxReaders_def)
next
  case (WLock_wait r)
  then have w: "rw_readerWait m + r = int (rw_readerSem m + a + d)" "rw_readerSem m \<le> rs"
    using acc by (auto simp: rw_acc_def)
  then have "q = (if rw_readerSem m + a + d \<noteq> 0 then WLock_sema else Writing)"
    "m' = m\<lparr>rw_readerWait := int (rw_readerSem m + a + d)\<rparr>"
    using code n WLock_wait by (auto simp: Let_def rwmutexMaxReaders_def split: if_splits)
  then show ?thesis using acc w by (auto simp: WLock_wait rw_acc_def active_def)
next
  case WLock_sema
  then have "q = Writing" "m' = m\<lparr>rw_writerSem := rw_writerSem m - 1\<rparr>" "0 < rw_writerSem m"
    using code by (auto split: if_splits)
  then show ?thesis using acc by (cases "rw_readerWait m = 0") (auto simp: WLock_sema rw_acc_def active_def)
next
  case WUnlock_add
  then have "q = WUnlock_loop (int rs) 0" "m' = m\<lparr>rw_readerCount := int rs\<rparr>"
    using acc code n by (auto simp: rw_acc_def Let_def rwmutexMaxReaders_def)
  then show ?thesis using acc by (auto simp: WUnlock_add rw_acc_def active_def)
next
  case (WUnlock_loop r i)
  then show ?thesis using acc code by (auto simp: rw_acc_def active_def split: if_splits)
qed (use p code in auto)

definition reader :: "rw_pc \<Rightarrow> bool" where
  "reader p \<longleftrightarrow> p = RLock_sema \<or> active p \<or> p = RUnlock_wait"

lemma cnt_reader: "cnt ((=) RLock_sema) ps + cnt active ps + cnt ((=) RUnlock_wait) ps = cnt reader ps"
  unfolding cnt_def reader_def active_def by (induction ps) auto

lemma rw_internal_inv:
  assumes inv: "rw_inv s" and "internal rw_code s t"
  shows "rw_inv t"
  using assms(2)
proof (rule internalE)
  fix i q m
  let ?ps = "gos s" and ?qs = "(gos s)[i := q]"
  assume t: "t = s\<lparr>shared := m, gos := ?qs\<rparr>" and i: "i < length ?ps"
    and code: "rw_code (?ps ! i) (shared s) = Some (q, m)"
  define ws where "ws = filter holds_w ?ps"
  have acc: "rw_acc ws (cnt ((=) RLock_sema) ?ps) (cnt active ?ps) (cnt ((=) RUnlock_wait) ?ps)
      (cnt ((=) RUnlock_release) ?ps) (shared s)" and len: "int (length ?ps) < rwmutexMaxReaders"
    using inv by (simp_all add: rw_inv_acc ws_def)
  have ws: "\<forall>p \<in> set ws. holds_w p" by (simp add: ws_def)
  note nn = cnt_reader [of ?ps] cnt_le [of reader ?ps] cnt_less [OF i, of reader]
  note up = cnt_update [OF i, of "(=) RLock_sema" q] cnt_update [OF i, of active q]
    cnt_update [OF i, of "(=) RUnlock_wait" q] cnt_update [OF i, of "(=) RUnlock_release" q]
  have pos: "\<exists>n. cnt P ?ps = Suc n" if "P (?ps ! i)" for P
    using that i cnt_pos [of P ?ps] gr0_conv_Suc by blast
  have keep: "rw_inv t" if "rw_acc ws (cnt ((=) RLock_sema) ?qs) (cnt active ?qs) (cnt ((=) RUnlock_wait) ?qs)
      (cnt ((=) RUnlock_release) ?qs) m" "\<not> holds_w (?ps ! i)" "\<not> holds_w q"
    using that len filter_update_other [OF i, of holds_w q] by (simp add: rw_inv_acc t ws_def)
  show ?thesis
  proof (cases "holds_w (?ps ! i)")
    case True
    have w: "ws = [?ps ! i]" "filter holds_w ?qs = (if holds_w q then [q] else [])"
      using filter_update_only [OF i, of holds_w q] True rw_acc_length [OF acc] by (auto simp: ws_def)
    have "\<not> active (?ps ! i)" "?ps ! i \<noteq> RLock_sema" "?ps ! i \<noteq> RUnlock_wait" "?ps ! i \<noteq> RUnlock_release"
      using True by (auto simp: active_def)
    moreover note acc_writer [OF acc [unfolded w(1)] True code]
    ultimately show ?thesis using up nn len w(2) by (auto simp: rw_inv_acc t)
  next
    case False
    show ?thesis
    proof (cases "?ps ! i")
      case RLock_add
      then show ?thesis using acc_RLock_add [OF acc ws, of q m] code nn len up
        by (intro keep) (auto simp: reader_def active_def)
    next
      case RLock_sema
      then obtain n where n: "cnt ((=) RLock_sema) ?ps = Suc n" using pos [of "(=) RLock_sema"] by (auto simp: active_def)
      show ?thesis using acc_RLock_sema [OF acc [unfolded n] ws code [unfolded RLock_sema]] up n nn len RLock_sema
        by (intro keep) (auto simp: active_def)
    next
      case RUnlock_add
      then obtain n where n: "cnt active ?ps = Suc n" using pos [of "active"] by (auto simp: active_def)
      show ?thesis using acc_RUnlock_add [OF acc [unfolded n] ws code [unfolded RUnlock_add]] up n nn len RUnlock_add
        by (intro keep) (auto simp: active_def)
    next
      case RUnlock_wait
      then obtain n where n: "cnt ((=) RUnlock_wait) ?ps = Suc n" using pos [of "(=) RUnlock_wait"] by (auto simp: active_def)
      show ?thesis using acc_RUnlock_wait [OF acc [unfolded n] ws code [unfolded RUnlock_wait]] up n nn len RUnlock_wait
        by (intro keep) (auto simp: active_def)
    next
      case RUnlock_release
      then obtain n where n: "cnt ((=) RUnlock_release) ?ps = Suc n" using pos [of "(=) RUnlock_release"] by (auto simp: active_def)
      show ?thesis using acc_RUnlock_release [OF acc [unfolded n] ws code [unfolded RUnlock_release]] up n nn len RUnlock_release
        by (intro keep) (auto simp: active_def)
    next
      case WLock_mutex
      then show ?thesis using acc_WLock_mutex [OF acc, of q m] code up len filter_update_enter [OF i, of holds_w q]
        by (simp add: rw_inv_acc t ws_def active_def)
    qed (use code False in simp_all)
  qed
qed

lemma rw_call_inv:
  assumes "rw_inv s" "i < length (gos s)" "rw_call (gos s ! i) p"
  shows "rw_inv (s\<lparr>gos := (gos s)[i := p]\<rparr>)"
proof -
  note up = cnt_update [OF assms(2), of "(=) RLock_sema" p] cnt_update [OF assms(2), of active p]
    cnt_update [OF assms(2), of "(=) RUnlock_wait" p] cnt_update [OF assms(2), of "(=) RUnlock_release" p]
  show ?thesis
  proof (cases "gos s ! i = Writing")
    case True
    then have "p = WUnlock_add" using assms(3) by simp
    moreover have "filter holds_w (gos s) = [Writing]" "filter holds_w ((gos s)[i := p]) = [p]"
      using filter_update_only [OF assms(2), of holds_w p] True \<open>p = _\<close> rw_acc_length assms(1) by (auto simp: rw_inv_acc)
    ultimately show ?thesis using up assms(1) True by (simp add: rw_inv_acc rw_acc_def active_def)
  next
    case False
    then have "\<not> holds_w (gos s ! i)" "\<not> holds_w p" using assms(3) by (cases "gos s ! i"; auto)+
    then show ?thesis using up assms(1,3) False filter_update_other [OF assms(2), of holds_w p]
      by (cases "gos s ! i") (auto simp: rw_inv_acc active_def)
  qed
qed

lemma rw_step_inv: "rw_inv s \<Longrightarrow> rw_step s t \<Longrightarrow> rw_inv t"
proof (erule go_stepE)
  fix i j
  let ?qs = "(gos s)[i := gos s ! j, j := gos s ! i]"
  assume inv: "rw_inv s" and t: "t = s\<lparr>gos := ?qs\<rparr>" and ij: "i < length (gos s)" "j < length (gos s)"
  note m = mset_swap_nth [OF ij]
  have "filter holds_w ?qs = filter holds_w (gos s)"
    using filter_mset_only [OF m] inv rw_acc_length by (auto simp: rw_inv_acc)
  then show "rw_inv t" using inv cnt_mset [OF m] by (simp add: rw_inv_acc t)
qed (simp_all add: rw_internal_inv rw_call_inv)

lemma rw_init_inv: "rw_init s \<Longrightarrow> rw_inv s"
proof -
  assume a: "rw_init s"
  then have "filter holds_w (gos s) = []" by (auto simp: rw_init_def filter_empty_conv)
  moreover have "cnt P (gos s) = 0" if "\<not> P Outside" for P
    using a that cnt_all [of "gos s" Outside P] by (auto simp: rw_init_def)
  ultimately show ?thesis using a by (simp add: rw_inv_acc rw_acc_def rw_init_def active_def)
qed

section \<open>Progress\<close>

definition rw_holder :: "rw_pc \<Rightarrow> bool" where
  "rw_holder p \<longleftrightarrow> p = Reading \<or> p = Writing"

text \<open>Somebody is in an operation, and nobody holds the lock.\<close>

definition rw_waiting :: "rw_system \<Rightarrow> bool" where
  "rw_waiting s \<longleftrightarrow> (\<forall>p \<in> set (gos s). \<not> rw_holder p) \<and> (\<exists>p \<in> set (gos s). p \<noteq> Outside)"

fun rw_rank :: "nat \<Rightarrow> rw_pc \<Rightarrow> nat" where
  "rw_rank n RLock_add = 2"
| "rw_rank n RLock_sema = 1"
| "rw_rank n RUnlock_add = 3"
| "rw_rank n RUnlock_wait = 2"
| "rw_rank n RUnlock_release = 1"
| "rw_rank n WLock_mutex = 4"
| "rw_rank n WLock_add = 3"
| "rw_rank n (WLock_wait r) = 2"
| "rw_rank n WLock_sema = 1"
| "rw_rank n WUnlock_add = n + 2"
| "rw_rank n (WUnlock_loop r i) = nat (r - i) + 1"
| "rw_rank n _ = 0"

definition rw_measure :: "rw_system \<Rightarrow> nat" where
  "rw_measure s = sum_list (map (rw_rank (length (gos s))) (gos s))"

text \<open>When the last goroutine at \<open>w\<close> is at the given place.\<close>

lemma rw_at:
  assumes "rw_inv s" "i < length (gos s)" "holds_w (gos s ! i)"
  shows "rw_acc [gos s ! i] (cnt ((=) RLock_sema) (gos s)) (cnt active (gos s))
     (cnt ((=) RUnlock_wait) (gos s)) (cnt ((=) RUnlock_release) (gos s)) (shared s)"
  using assms filter_update_only [OF assms(2), of holds_w] rw_acc_length by (auto simp: rw_inv_acc)

lemma rw_measure_internal:
  assumes inv: "rw_inv s" and "internal rw_code s t"
  shows "rw_measure t < rw_measure s"
  using assms(2)
proof (rule internalE)
  fix i q m
  assume t: "t = s\<lparr>shared := m, gos := (gos s)[i := q]\<rparr>" and i: "i < length (gos s)"
    and code: "rw_code (gos s ! i) (shared s) = Some (q, m)"
  have "rw_rank (length (gos s)) q < rw_rank (length (gos s)) (gos s ! i)"
  proof (cases "gos s ! i = WUnlock_add")
    case True
    then have "rw_readerCount (shared s) = int (cnt ((=) RLock_sema) (gos s)) - rwmutexMaxReaders"
      using rw_at [OF inv i] by (simp add: rw_acc_def)
    moreover have "cnt ((=) RLock_sema) (gos s) \<le> length (gos s)" by (rule cnt_le)
    ultimately show ?thesis using True code inv by (auto simp: rw_inv_acc Let_def rwmutexMaxReaders_def)
  next
    case False
    then show ?thesis using code by (cases "gos s ! i") (auto simp: Let_def split: if_splits)
  qed
  then show ?thesis using sum_update [OF i, of "rw_rank (length (gos s))" q] by (simp add: rw_measure_def t)
qed

lemma rw_measure_le: "rw_inv s \<Longrightarrow> rw_measure s \<le> (length (gos s) + 4) * length (gos s)"
proof -
  assume inv: "rw_inv s"
  have "rw_rank (length (gos s)) p \<le> 0 + (length (gos s) + 4)" if p: "p \<in> set (gos s)" for p
  proof (cases p)
    case (WUnlock_loop r j)
    obtain i where "i < length (gos s)" "gos s ! i = p" using p by (auto simp: in_set_conv_nth)
    then have "r - j \<le> int (cnt ((=) RLock_sema) (gos s))"
      using rw_at [OF inv, of i] WUnlock_loop by (simp add: rw_acc_def)
    moreover have "cnt ((=) RLock_sema) (gos s) \<le> length (gos s)" by (rule cnt_le)
    ultimately show ?thesis using WUnlock_loop by simp
  qed auto
  then show ?thesis using sum_list_bound [of "gos s" "rw_rank (length (gos s))" "\<lambda>p. 0"] by (simp add: rw_measure_def)
qed

lemma rw_can_step: "p \<in> set (gos s) \<Longrightarrow> rw_code p (shared s) \<noteq> None \<Longrightarrow> \<exists>t. internal rw_code s t"
  by (metis in_set_conv_nth internal.intros not_None_eq surj_pair)

text \<open>Where no goroutine can make a step, everybody is in a semaphore, waits for \<open>w\<close>, or is outside.\<close>

lemma rw_stuck_pc:
  assumes "\<nexists>t. internal rw_code s t" "p \<in> set (gos s)"
  shows "p = Outside \<or> p = Reading \<or> p = Writing \<or> p = RLock_sema \<and> rw_readerSem (shared s) = 0 \<or>
    p = WLock_mutex \<and> rw_w (shared s) \<or> p = WLock_sema \<and> rw_writerSem (shared s) = 0"
proof -
  have "rw_code p (shared s) = None" using rw_can_step [OF assms(2)] assms(1) by blast
  then show ?thesis by (cases p) (auto simp: Let_def split: if_splits)
qed

lemma rw_enabled:
  assumes inv: "rw_inv s" and wait: "rw_waiting s"
  shows "\<exists>t. internal rw_code s t"
proof (rule ccontr)
  assume st: "\<nexists>t. internal rw_code s t"
  note pc = rw_stuck_pc [OF st]
  have free: "p \<noteq> Reading \<and> p \<noteq> Writing" if "p \<in> set (gos s)" for p
    using that wait by (auto simp: rw_waiting_def rw_holder_def)
  have none: "cnt active (gos s) = 0" "cnt ((=) RUnlock_wait) (gos s) = 0" "cnt ((=) RUnlock_release) (gos s) = 0"
    using pc free by (auto simp: cnt_0 active_def)
  have sem: "cnt ((=) RLock_sema) (gos s) = 0 \<or> rw_readerSem (shared s) = 0" using pc by (fastforce simp: cnt_0)
  have nw: "\<not> holds_w p" if p: "p \<in> set (gos s)" for p
  proof
    assume "holds_w p"
    then have ws: "p = WLock_sema" "rw_writerSem (shared s) = 0" using pc [OF p] free [OF p] by auto
    obtain i where "i < length (gos s)" "gos s ! i = p" using p by (auto simp: in_set_conv_nth)
    then show False using rw_at [OF inv, of i] ws none sem by (auto simp: rw_acc_def)
  qed
  then have "filter holds_w (gos s) = []" by (simp add: filter_empty_conv)
  then have w: "\<not> rw_w (shared s)" and "cnt ((=) RLock_sema) (gos s) = rw_readerSem (shared s)"
    using inv by (auto simp: rw_inv_acc rw_acc_def)
  then have "RLock_sema \<notin> set (gos s)" using sem by (auto simp: cnt_0)
  then have "p = Outside" if p: "p \<in> set (gos s)" for p
    using pc [OF p] free [OF p] nw [OF p] w p by auto
  then show False using wait by (auto simp: rw_waiting_def)
qed

interpretation rw: step_system rw_init rw_step rw_inv
  by unfold_locales (auto intro: rw_init_inv rw_step_inv)

interpretation rw_run: step_progress rw_inv "internal rw_code" rw_inv "\<lambda>s. True" rw_waiting rw_measure "internal rw_code"
  by unfold_locales (auto intro: rw_internal_inv rw_measure_internal rw_enabled)

definition rw_exec :: "rw_pc act list \<Rightarrow> rw_system option" where
  "rw_exec as = exec rw_code rw_call as
     \<lparr>shared = \<lparr>rw_w = False, rw_writerSem = 0, rw_readerSem = 0, rw_readerCount = 0, rw_readerWait = 0\<rparr>,
      gos = [Outside, Outside, Outside]\<rparr>"

lemma rw_exec_steps: "rw_exec as = Some s \<Longrightarrow> \<exists>s0. rw_init s0 \<and> rw_step\<^sup>*\<^sup>* s0 s"
  unfolding rw_exec_def
  by (rule exI [of _ "\<lparr>shared = \<lparr>rw_w = False, rw_writerSem = 0, rw_readerSem = 0, rw_readerCount = 0, rw_readerWait = 0\<rparr>,
      gos = [Outside, Outside, Outside]\<rparr>"]) (auto simp: rw_init_def rwmutexMaxReaders_def intro: exec_steps)

text \<open>
  A reader holds the lock, a writer announces itself and waits for the reader, a second reader waits for the
  writer; then the first reader leaves and lets the writer in.
\<close>

lemma rw_exec_queue:
  "rw_exec [Client 0 RLock_add, Run 0, Client 1 WLock_mutex, Run 1, Run 1, Run 1, Client 2 RLock_add, Run 2,
      Client 0 RUnlock_add, Run 0] =
     Some \<lparr>shared = \<lparr>rw_w = True, rw_writerSem = 0, rw_readerSem = 0, rw_readerCount = 1 - 2 ^ 30, rw_readerWait = 1\<rparr>,
      gos = [RUnlock_wait, WLock_sema, RLock_sema]\<rparr>"
  by (simp add: rw_exec_def rwmutexMaxReaders_def int32_def Let_def)

lemma rw_exec_writing:
  "rw_exec [Client 0 RLock_add, Run 0, Client 1 WLock_mutex, Run 1, Run 1, Run 1, Client 2 RLock_add, Run 2,
      Client 0 RUnlock_add, Run 0, Run 0, Run 0, Run 1] =
     Some \<lparr>shared = \<lparr>rw_w = True, rw_writerSem = 0, rw_readerSem = 0, rw_readerCount = 1 - 2 ^ 30, rw_readerWait = 0\<rparr>,
      gos = [Outside, Writing, RLock_sema]\<rparr>"
  by (simp add: rw_exec_def rwmutexMaxReaders_def int32_def Let_def)

section \<open>Properties\<close>

text \<open>
  C30. Whatever the interleaving of the calls of fewer than \<open>rwmutexMaxReaders\<close> goroutines: at most one
  goroutine holds the lock for writing; while one does, no goroutine holds it for reading, and none that waits
  has been let in; the writer's semaphore is never released twice.
\<close>

theorem rw_exclusion:
  assumes "rw_init s0" "rw_step\<^sup>*\<^sup>* s0 s"
  shows "cnt ((=) Writing) (gos s) \<le> 1 \<and>
    (Writing \<in> set (gos s) \<longrightarrow> Reading \<notin> set (gos s) \<and> rw_readerSem (shared s) = 0 \<and> rw_readerWait (shared s) = 0) \<and>
    rw_writerSem (shared s) \<le> 1"
proof -
  have inv: "rw_inv s" by (rule rw.reachable_inv [OF assms])
  let ?ws = "filter holds_w (gos s)"
  have acc: "rw_acc ?ws (cnt ((=) RLock_sema) (gos s)) (cnt active (gos s)) (cnt ((=) RUnlock_wait) (gos s))
      (cnt ((=) RUnlock_release) (gos s)) (shared s)" using inv by (simp add: rw_inv_acc)
  have "cnt ((=) Writing) (gos s) \<le> cnt holds_w (gos s)" by (rule cnt_mono) auto
  then have "cnt ((=) Writing) (gos s) \<le> 1" using rw_acc_length [OF acc] by (simp add: cnt_def)
  moreover have "Reading \<notin> set (gos s) \<and> rw_readerSem (shared s) = 0 \<and> rw_readerWait (shared s) = 0" if w: "Writing \<in> set (gos s)"
  proof -
    obtain i where "i < length (gos s)" "gos s ! i = Writing" using w by (auto simp: in_set_conv_nth)
    then have "rw_phase [Writing] (cnt ((=) RLock_sema) (gos s)) (cnt active (gos s)) (cnt ((=) RUnlock_wait) (gos s))
        (cnt ((=) RUnlock_release) (gos s)) (shared s)" using rw_at [OF inv, of i] by (simp add: rw_acc_def)
    then show ?thesis by (auto simp: cnt_0 active_def)
  qed
  moreover have "rw_writerSem (shared s) \<le> 1" using acc_writerSem [OF acc] by simp
  ultimately show ?thesis by simp
qed

theorem rw_exclusion_witness:
  "let s = \<lparr>shared = \<lparr>rw_w = True, rw_writerSem = 0, rw_readerSem = 0, rw_readerCount = 1 - 2 ^ 30, rw_readerWait = 0\<rparr>,
      gos = [Outside, Writing, RLock_sema]\<rparr>
   in (\<exists>s0. rw_init s0 \<and> rw_step\<^sup>*\<^sup>* s0 s) \<and> cnt ((=) Writing) (gos s) \<le> 1 \<and> Reading \<notin> set (gos s) \<and>
      rw_writerSem (shared s) \<le> 1"
proof -
  note r = rw_exec_steps [OF rw_exec_writing]
  then obtain s0 where s0: "rw_init s0"
    "rw_step\<^sup>*\<^sup>* s0 \<lparr>shared = \<lparr>rw_w = True, rw_writerSem = 0, rw_readerSem = 0, rw_readerCount = 1 - 2 ^ 30, rw_readerWait = 0\<rparr>,
      gos = [Outside, Writing, RLock_sema]\<rparr>" by (elim exE conjE)
  show ?thesis unfolding Let_def using r rw_exclusion [OF s0] by (intro conjI) auto
qed

text \<open>
  C31. The lock always becomes available: from every reachable state, the goroutines inside the operations
  can make at most \<open>(N + 4) * N\<close> steps before each of them has returned or waits; and if nobody holds the lock
  then, all of them have returned: nobody waits in \<open>RLock\<close> or \<open>Lock\<close> for a lock that nobody holds.
\<close>

theorem rw_progress:
  assumes "rw_init s0" "rw_step\<^sup>*\<^sup>* s0 s" "(internal rw_code ^^ k) s t"
  shows "k \<le> (length (gos s) + 4) * length (gos s) \<and>
    ((\<nexists>u. internal rw_code t u) \<and> (\<forall>p \<in> set (gos t). \<not> rw_holder p) \<longrightarrow> (\<forall>p \<in> set (gos t). p = Outside))"
proof -
  have inv: "rw_inv s" by (rule rw.reachable_inv [OF assms(1,2)])
  have "k + rw_measure t \<le> rw_measure s \<and> rw_inv t" using rw_run.phase_bound [OF inv] assms(3) by simp
  then show ?thesis using rw_measure_le [OF inv] rw_enabled [of t] by (auto simp: rw_waiting_def)
qed

theorem rw_progress_witness:
  "let s = \<lparr>shared = \<lparr>rw_w = True, rw_writerSem = 0, rw_readerSem = 0, rw_readerCount = 1 - 2 ^ 30, rw_readerWait = 1\<rparr>,
         gos = [RUnlock_wait, WLock_sema, RLock_sema]\<rparr>;
       t = \<lparr>shared = \<lparr>rw_w = True, rw_writerSem = 0, rw_readerSem = 0, rw_readerCount = 1 - 2 ^ 30, rw_readerWait = 0\<rparr>,
         gos = [RUnlock_release, WLock_sema, RLock_sema]\<rparr>
   in (\<exists>s0. rw_init s0 \<and> rw_step\<^sup>*\<^sup>* s0 s) \<and> (internal rw_code ^^ 1) s t \<and> 1 \<le> (length (gos s) + 4) * length (gos s) \<and>
     (\<exists>u. internal rw_code t u)"
proof -
  let ?s = "\<lparr>shared = \<lparr>rw_w = True, rw_writerSem = 0, rw_readerSem = 0, rw_readerCount = 1 - 2 ^ 30, rw_readerWait = 1\<rparr>,
         gos = [RUnlock_wait, WLock_sema, RLock_sema]\<rparr> :: rw_system"
  let ?t = "\<lparr>shared = \<lparr>rw_w = True, rw_writerSem = 0, rw_readerSem = 0, rw_readerCount = 1 - 2 ^ 30, rw_readerWait = 0\<rparr>,
         gos = [RUnlock_release, WLock_sema, RLock_sema]\<rparr> :: rw_system"
  note r = rw_exec_steps [OF rw_exec_queue]
  then obtain s0 where s0: "rw_init s0" "rw_step\<^sup>*\<^sup>* s0 ?s" by (elim exE conjE)
  have "internal rw_code ?s ?t"
    using internal.intros [of 0 ?s rw_code RUnlock_release "shared ?t"] by (simp add: Let_def)
  then have k: "(internal rw_code ^^ 1) ?s ?t" by (simp add: eq_OO)
  have "\<not> (\<forall>p \<in> set (gos ?t). p = Outside)" "\<forall>p \<in> set (gos ?t). \<not> rw_holder p" by (simp_all add: rw_holder_def)
  then have "\<exists>u. internal rw_code ?t u" using rw_progress [OF s0 k] by blast
  then show ?thesis unfolding Let_def using r k by (intro conjI) simp_all
qed

end
