(* ===== verification/Sync_Once.thy ===== *)
theory Sync_Once
  imports Go_Steps
begin

text \<open>
  sync/once.go. The function \<open>f\<close> is the client's: it returns or panics after any number of steps of others.
  The counters \<open>calls\<close>, \<open>returns\<close> and \<open>panics\<close> are not in the code; they record what happened to \<open>f\<close>.
  The mutex \<open>m\<close> is a bit, as in the reader/writer lock.
\<close>

section \<open>The code\<close>

record Once =
  once_m :: bool
  once_done :: nat
  calls :: nat
  returns :: nat
  panics :: nat

text \<open>
  The places of a goroutine: before the load of \<open>done\<close>, before \<open>o.m.Lock()\<close>, before the test of \<open>done\<close>,
  in \<open>f\<close>, after \<open>f\<close> has returned, at the deferred \<open>Unlock\<close> (on the way to the return or, with \<open>True\<close>, in a
  panic of \<open>f\<close>); and outside, before a call, after \<open>Do\<close> has returned, after a panic.
\<close>

datatype once_pc =
    Before_Do
  | Do_load
  | Do_lock
  | Do_test
  | Do_f
  | Do_cas
  | Do_unlock bool
  | After_Do
  | After_panic

fun once_code :: "once_pc \<Rightarrow> Once \<Rightarrow> (once_pc \<times> Once) option" where
  "once_code Do_load o' = Some (if once_done o' = 1 then After_Do else Do_lock, o')"
| "once_code Do_lock o' = (if once_m o' then None else Some (Do_test, o'\<lparr>once_m := True\<rparr>))"
| "once_code Do_test o' =
     Some (if once_done o' = 0 then (Do_f, o'\<lparr>calls := calls o' + 1\<rparr>) else (Do_unlock False, o'))"
| "once_code Do_f o' = Some (Do_cas, o'\<lparr>returns := returns o' + 1\<rparr>)"
| "once_code Do_cas o' = Some (Do_unlock False, if once_done o' = 0 then o'\<lparr>once_done := 1\<rparr> else o')"
| "once_code (Do_unlock panicking) o' = Some (if panicking then After_panic else After_Do, o'\<lparr>once_m := False\<rparr>)"
| "once_code Before_Do o' = None"
| "once_code After_Do o' = None"
| "once_code After_panic o' = None"

text \<open>\<open>f\<close> panics: the deferred \<open>Unlock\<close> runs.\<close>

fun once_panic :: "once_pc \<Rightarrow> Once \<Rightarrow> (once_pc \<times> Once) option" where
  "once_panic Do_f o' = Some (Do_unlock True, o'\<lparr>panics := panics o' + 1\<rparr>)"
| "once_panic _ o' = None"

fun once_call :: "once_pc \<Rightarrow> once_pc \<Rightarrow> bool" where
  "once_call p q \<longleftrightarrow> (p = Before_Do \<or> p = After_Do \<or> p = After_panic) \<and> q = Do_load"

type_synonym once_system = "(Once, once_pc) system"

definition once_step :: "once_system \<Rightarrow> once_system \<Rightarrow> bool" where
  "once_step s t \<longleftrightarrow> go_step once_code once_call (\<lambda>p q. False) s t \<or> internal once_panic s t"

definition once_init :: "once_system \<Rightarrow> bool" where
  "once_init s \<longleftrightarrow> shared s = \<lparr>once_m = False, once_done = 0, calls = 0, returns = 0, panics = 0\<rparr> \<and>
     (\<forall>p \<in> set (gos s). p = Before_Do)"

text \<open>Two goroutines: while the first one runs \<open>f\<close>, the second one finds \<open>done\<close> not set; then the first one is through.\<close>

lemma once_exec:
  "exec once_code once_call [Client 0 Do_load, Run 0, Run 0, Run 0, Client 1 Do_load, Run 1, Run 0, Run 0, Run 0]
     \<lparr>shared = \<lparr>once_m = False, once_done = 0, calls = 0, returns = 0, panics = 0\<rparr>, gos = [Before_Do, Before_Do]\<rparr> =
   Some \<lparr>shared = \<lparr>once_m = False, once_done = 1, calls = 1, returns = 1, panics = 0\<rparr>, gos = [After_Do, Do_lock]\<rparr>"
  by simp

text \<open>A call of \<open>Do\<close> after one in which \<open>f\<close> panicked calls \<open>f\<close> again: \<open>done\<close> is still 0 and the mutex has been released.\<close>

lemma once_exec_steps: "exec once_code once_call as s = Some t \<Longrightarrow> once_step\<^sup>*\<^sup>* s t"
  using exec_steps [of once_code once_call as s t "\<lambda>p q. False"]
  by (rule rtranclp_mono [THEN predicate2D, rotated]) (auto simp: once_step_def)

lemma once_called_again:
  "\<exists>s0 s. once_init s0 \<and> once_step\<^sup>*\<^sup>* s0 s \<and> calls (shared s) = 2 \<and> panics (shared s) = 1 \<and> gos s = [Do_f]"
proof -
  let ?s = "\<lambda>m c q p. \<lparr>shared = \<lparr>once_m = m, once_done = 0, calls = c, returns = 0, panics = q\<rparr>, gos = [p]\<rparr> :: once_system"
  have a: "once_step\<^sup>*\<^sup>* (?s False 0 0 Before_Do) (?s True 1 0 Do_f)"
    by (rule once_exec_steps [of "[Client 0 Do_load, Run 0, Run 0, Run 0]"]) simp
  have "internal once_panic (?s True 1 0 Do_f) (?s True 1 1 (Do_unlock True))"
    using internal.intros [of 0 "?s True 1 0 Do_f" once_panic] by simp
  then have b: "once_step (?s True 1 0 Do_f) (?s True 1 1 (Do_unlock True))" by (simp add: once_step_def)
  have c: "once_step\<^sup>*\<^sup>* (?s True 1 1 (Do_unlock True)) (?s True 2 1 Do_f)"
    by (rule once_exec_steps [of "[Run 0, Client 0 Do_load, Run 0, Run 0, Run 0]"]) simp
  have "once_init (?s False 0 0 Before_Do)" by (simp add: once_init_def)
  moreover have "once_step\<^sup>*\<^sup>* (?s False 0 0 Before_Do) (?s True 2 1 Do_f)"
    using rtranclp_trans [OF rtranclp.rtrancl_into_rtrancl [OF a b] c] .
  moreover have "calls (shared (?s True 2 1 Do_f)) = 2 \<and> panics (shared (?s True 2 1 Do_f)) = 1 \<and> gos (?s True 2 1 Do_f) = [Do_f]" by simp
  ultimately show ?thesis by blast
qed

section \<open>The invariant\<close>

fun in_m :: "once_pc \<Rightarrow> bool" where
  "in_m Do_test \<longleftrightarrow> True"
| "in_m Do_f \<longleftrightarrow> True"
| "in_m Do_cas \<longleftrightarrow> True"
| "in_m (Do_unlock b) \<longleftrightarrow> True"
| "in_m _ \<longleftrightarrow> False"

text \<open>A call of \<open>Do\<close> that has returned, or is about to.\<close>

definition done_pc :: "once_pc \<Rightarrow> bool" where
  "done_pc p \<longleftrightarrow> p = After_Do \<or> p = Do_unlock False"

definition once_inv :: "once_system \<Rightarrow> bool" where
  "once_inv s \<longleftrightarrow>
     cnt in_m (gos s) = of_bool (once_m (shared s)) \<and>
     calls (shared s) = returns (shared s) + panics (shared s) + cnt ((=) Do_f) (gos s) \<and>
     returns (shared s) = once_done (shared s) + cnt ((=) Do_cas) (gos s) \<and>
     once_done (shared s) \<le> 1 \<and>
     (0 < cnt (\<lambda>p. p = Do_f \<or> p = Do_cas) (gos s) \<longrightarrow> once_done (shared s) = 0) \<and>
     (0 < cnt done_pc (gos s) \<longrightarrow> once_done (shared s) = 1)"

lemma once_internal_inv:
  assumes inv: "once_inv s" and "internal once_code s t \<or> internal once_panic s t"
  shows "once_inv t"
proof -
  obtain i p m where t: "t = s\<lparr>shared := m, gos := (gos s)[i := p]\<rparr>" and i: "i < length (gos s)"
    and code: "once_code (gos s ! i) (shared s) = Some (p, m) \<or> once_panic (gos s ! i) (shared s) = Some (p, m)"
    using assms(2) by (auto elim!: internalE)
  note up = cnt_update [OF i, of in_m p] cnt_update [OF i, of "(=) Do_f" p] cnt_update [OF i, of "(=) Do_cas" p]
    cnt_update [OF i, of "\<lambda>p. p = Do_f \<or> p = Do_cas" p] cnt_update [OF i, of done_pc p]
  have pos: "0 < cnt P (gos s)" if "P (gos s ! i)" for P using i that by (auto simp: cnt_pos)
  have only: "cnt P (gos s) = 0" if "in_m (gos s ! i)" "\<And>p. P p \<Longrightarrow> in_m p" "\<not> P (gos s ! i)" for P
    using cnt_only [OF i, of in_m P] that inv by (auto simp: once_inv_def)
  have lk: "once_m (shared s)" if "in_m (gos s ! i)" using that inv pos [of in_m] by (auto simp: once_inv_def)
  have "cnt (\<lambda>p. p = Do_f \<or> p = Do_cas) (gos s) \<le> cnt in_m (gos s)" by (rule cnt_mono) auto
  then have sub: "cnt (\<lambda>p. p = Do_f \<or> p = Do_cas) (gos s) \<le> 1" using inv by (cases "once_m (shared s)") (simp_all add: once_inv_def)
  show ?thesis
  proof (cases "gos s ! i")
    case Do_load
    then show ?thesis using inv code up by (auto simp: once_inv_def Let_def t done_pc_def split: if_splits)
  next
    case Do_lock
    then show ?thesis using inv code up by (auto simp: once_inv_def Let_def t done_pc_def split: if_splits)
  next
    case Do_test
    have z: "cnt (\<lambda>p. p = Do_f \<or> p = Do_cas) (gos s) = 0" "cnt ((=) Do_f) (gos s) = 0" "cnt ((=) Do_cas) (gos s) = 0"
      using Do_test by (intro only; auto)+
    then show ?thesis using inv code up Do_test lk
      by (cases "once_done (shared s) = 0") (simp_all add: once_inv_def t done_pc_def, auto)
  next
    case Do_f
    have z: "cnt ((=) Do_cas) (gos s) = 0" using only [of "(=) Do_cas"] Do_f by auto
    have "once_done (shared s) = 0" using inv pos [of "\<lambda>p. p = Do_f \<or> p = Do_cas"] Do_f by (auto simp: once_inv_def)
    then show ?thesis using inv code up Do_f z lk by (auto simp: once_inv_def t done_pc_def)
  next
    case Do_cas
    have z: "cnt ((=) Do_f) (gos s) = 0" using only [of "(=) Do_f"] Do_cas by auto
    have "once_done (shared s) = 0" using inv pos [of "\<lambda>p. p = Do_f \<or> p = Do_cas"] Do_cas by (auto simp: once_inv_def)
    then show ?thesis using inv code up Do_cas z sub lk by (auto simp: once_inv_def t done_pc_def)
  next
    case (Do_unlock b)
    then show ?thesis using inv code up lk by (cases b) (auto simp: once_inv_def t done_pc_def)
  qed (use code in auto)
qed

lemma once_step_inv: "once_inv s \<Longrightarrow> once_step s t \<Longrightarrow> once_inv t"
  unfolding once_step_def
proof (elim disjE)
  assume inv: "once_inv s" and "go_step once_code once_call (\<lambda>p q. False) s t"
  from this(2) show "once_inv t"
  proof (rule go_stepE)
    fix i p
    assume i: "i < length (gos s)" and p: "once_call (gos s ! i) p" and t: "t = s\<lparr>gos := (gos s)[i := p]\<rparr>"
    note up = cnt_update [OF i, of in_m p] cnt_update [OF i, of "(=) Do_f" p] cnt_update [OF i, of "(=) Do_cas" p]
      cnt_update [OF i, of "\<lambda>p. p = Do_f \<or> p = Do_cas" p] cnt_update [OF i, of done_pc p]
    then show ?thesis using inv p by (auto simp: once_inv_def t done_pc_def)
  qed (use inv once_internal_inv in auto)
qed (auto intro: once_internal_inv)

lemma once_init_inv: "once_init s \<Longrightarrow> once_inv s"
  using cnt_all [of "gos s" Before_Do] by (auto simp: once_init_def once_inv_def done_pc_def)

interpretation once: step_system once_init once_step once_inv
  by unfold_locales (auto intro: once_init_inv once_step_inv)

section \<open>Properties\<close>

text \<open>
  C32. However the calls of \<open>Do\<close> of any number of goroutines are interleaved: \<open>f\<close> returns at most once and
  runs at most once at a time; it is called again only after a call has panicked; and when any call of
  \<open>Do\<close> has returned, the one call of \<open>f\<close> that does not panic has returned before.
\<close>

theorem once_exactly_once:
  assumes "once_init s0" "once_step\<^sup>*\<^sup>* s0 s"
  shows "returns (shared s) \<le> 1 \<and> cnt ((=) Do_f) (gos s) \<le> 1 \<and> calls (shared s) \<le> panics (shared s) + 1 \<and>
    (After_Do \<in> set (gos s) \<longrightarrow> returns (shared s) = 1 \<and> Do_f \<notin> set (gos s) \<and> calls (shared s) = panics (shared s) + 1)"
proof -
  let ?r = "\<lambda>p. p = Do_f \<or> p = Do_cas"
  have inv: "once_inv s" by (rule once.reachable_inv [OF assms])
  have "cnt ?r (gos s) \<le> cnt in_m (gos s)" by (rule cnt_mono) auto
  then have r: "cnt ?r (gos s) \<le> 1" using inv by (cases "once_m (shared s)") (simp_all add: once_inv_def)
  have sum: "cnt ?r (gos s) = cnt ((=) Do_f) (gos s) + cnt ((=) Do_cas) (gos s)"
    using cnt_disjoint [of "(=) Do_f" "(=) Do_cas" "gos s"] by (simp add: eq_commute)
  have "once_done (shared s) = 1" if "After_Do \<in> set (gos s)"
    using that inv cnt_0 [of done_pc "gos s"] by (auto simp: once_inv_def done_pc_def)
  moreover have "once_done (shared s) + cnt ?r (gos s) \<le> 1" using inv r by (cases "cnt ?r (gos s)") (auto simp: once_inv_def)
  moreover have "Do_f \<notin> set (gos s)" if "cnt ((=) Do_f) (gos s) = 0" using that by (auto simp: cnt_0)
  ultimately show ?thesis using inv sum by (auto simp: once_inv_def)
qed

theorem once_exactly_once_witness:
  "let s = \<lparr>shared = \<lparr>once_m = False, once_done = 1, calls = 1, returns = 1, panics = 0\<rparr>, gos = [After_Do, Do_lock]\<rparr>
   in (\<exists>s0. once_init s0 \<and> once_step\<^sup>*\<^sup>* s0 s) \<and> returns (shared s) \<le> 1 \<and> Do_f \<notin> set (gos s)"
proof -
  let ?a = "\<lparr>shared = \<lparr>once_m = False, once_done = 0, calls = 0, returns = 0, panics = 0\<rparr>, gos = [Before_Do, Before_Do]\<rparr> :: once_system"
  let ?s = "\<lparr>shared = \<lparr>once_m = False, once_done = 1, calls = 1, returns = 1, panics = 0\<rparr>, gos = [After_Do, Do_lock]\<rparr> :: once_system"
  from once_exec have "once_step\<^sup>*\<^sup>* ?a ?s" by (rule once_exec_steps)
  moreover have "once_init ?a" by (simp add: once_init_def)
  ultimately show ?thesis unfolding Let_def using once_exactly_once [of ?a ?s] by (intro conjI) auto
qed

end
