(* ===== verification/Sync_WaitGroup.thy ===== *)
theory Sync_WaitGroup
  imports Go_Steps
begin

text \<open>
  sync/waitgroup.go. A semaphore is made for every generation of waiters; \<open>wg_sems\<close> holds all that have been
  made, and a pointer to one is its number. The mutex \<open>m\<close> is a bit, as in the reader/writer lock.
\<close>

section \<open>The code\<close>

record WaitGroup =
  wg_m :: bool
  wg_counter :: int
  wg_waiters :: int
  wg_sema :: "nat option"
  wg_sems :: "nat list"

text \<open>
  The places of a goroutine, in the order of the code of \<open>Add\<close> and of \<open>Wait\<close>; the arguments are the parameter
  \<open>delta\<close> and the local variables \<open>i\<close> and \<open>s\<close>.
\<close>

datatype wg_pc =
    WG_out
  | WG_panic
  | Add_add int
  | Add_load
  | Add_lock
  | Add_loop int
  | Add_zero
  | Add_nil
  | Add_unlock
  | Wait_load
  | Wait_lock
  | Wait_inc
  | Wait_test
  | Wait_dec
  | Wait_return
  | Wait_sema
  | Wait_unlock nat
  | Wait_sleep nat

fun wg_code :: "wg_pc \<Rightarrow> WaitGroup \<Rightarrow> (wg_pc \<times> WaitGroup) option" where
  "wg_code (Add_add delta) wg =
     (let v = int32 (wg_counter wg + int32 delta)
      in Some (if v < 0 then WG_panic else if v > 0 then WG_out else Add_load, wg\<lparr>wg_counter := v\<rparr>))"
| "wg_code Add_load wg = Some (if wg_waiters wg = 0 then WG_out else Add_lock, wg)"
| "wg_code Add_lock wg = (if wg_m wg then None else Some (Add_loop 0, wg\<lparr>wg_m := True\<rparr>))"
| "wg_code (Add_loop i) wg =
     Some (if i < wg_waiters wg
           then (case wg_sema wg of
                   None \<Rightarrow> (WG_panic, wg)
                 | Some s \<Rightarrow> (Add_loop (i + 1), wg\<lparr>wg_sems := (wg_sems wg)[s := wg_sems wg ! s + 1]\<rparr>))
           else (Add_zero, wg))"
| "wg_code Add_zero wg = Some (Add_nil, wg\<lparr>wg_waiters := 0\<rparr>)"
| "wg_code Add_nil wg = Some (Add_unlock, wg\<lparr>wg_sema := None\<rparr>)"
| "wg_code Add_unlock wg = Some (WG_out, wg\<lparr>wg_m := False\<rparr>)"
| "wg_code Wait_load wg = Some (if wg_counter wg = 0 then WG_out else Wait_lock, wg)"
| "wg_code Wait_lock wg = (if wg_m wg then None else Some (Wait_inc, wg\<lparr>wg_m := True\<rparr>))"
| "wg_code Wait_inc wg = Some (Wait_test, wg\<lparr>wg_waiters := int32 (wg_waiters wg + 1)\<rparr>)"
| "wg_code Wait_test wg = Some (if wg_counter wg = 0 then Wait_dec else Wait_sema, wg)"
| "wg_code Wait_dec wg = Some (Wait_return, wg\<lparr>wg_waiters := int32 (wg_waiters wg - 1)\<rparr>)"
| "wg_code Wait_return wg = Some (WG_out, wg\<lparr>wg_m := False\<rparr>)"
| "wg_code Wait_sema wg =
     Some (case wg_sema wg of
             None \<Rightarrow> (Wait_unlock (length (wg_sems wg)),
                      wg\<lparr>wg_sema := Some (length (wg_sems wg)), wg_sems := wg_sems wg @ [0]\<rparr>)
           | Some s \<Rightarrow> (Wait_unlock s, wg))"
| "wg_code (Wait_unlock s) wg = Some (Wait_sleep s, wg\<lparr>wg_m := False\<rparr>)"
| "wg_code (Wait_sleep s) wg =
     (if 0 < wg_sems wg ! s then Some (WG_out, wg\<lparr>wg_sems := (wg_sems wg)[s := wg_sems wg ! s - 1]\<rparr>) else None)"
| "wg_code WG_out wg = None"
| "wg_code WG_panic wg = None"

text \<open>\<open>Done\<close> is \<open>Add(-1)\<close>.\<close>

definition wg_Done :: wg_pc where
  "wg_Done = Add_add (-1)"

fun wg_call :: "wg_pc \<Rightarrow> wg_pc \<Rightarrow> bool" where
  "wg_call WG_out p \<longleftrightarrow> (case p of Add_add d \<Rightarrow> True | Wait_load \<Rightarrow> True | _ \<Rightarrow> False)"
| "wg_call _ _ \<longleftrightarrow> False"

type_synonym wg_system = "(WaitGroup, wg_pc) system"

abbreviation wg_step :: "wg_system \<Rightarrow> wg_system \<Rightarrow> bool" where
  "wg_step \<equiv> go_step wg_code wg_call (\<lambda>p q. False)"

definition wg_init :: "wg_system \<Rightarrow> bool" where
  "wg_init s \<longleftrightarrow> shared s = \<lparr>wg_m = False, wg_counter = 0, wg_waiters = 0, wg_sema = None, wg_sems = []\<rparr> \<and>
     (\<forall>p \<in> set (gos s). p = WG_out) \<and> int (length (gos s)) + 1 < 2 ^ 31"

section \<open>The invariant\<close>

text \<open>The goroutines that hold \<open>m\<close>; that will release the waiters; that wait on the semaphore \<open>s\<close>, or are about to.\<close>

fun wg_locked :: "wg_pc \<Rightarrow> bool" where
  "wg_locked (Add_loop i) \<longleftrightarrow> True"
| "wg_locked Add_zero \<longleftrightarrow> True"
| "wg_locked Add_nil \<longleftrightarrow> True"
| "wg_locked Add_unlock \<longleftrightarrow> True"
| "wg_locked Wait_inc \<longleftrightarrow> True"
| "wg_locked Wait_test \<longleftrightarrow> True"
| "wg_locked Wait_dec \<longleftrightarrow> True"
| "wg_locked Wait_return \<longleftrightarrow> True"
| "wg_locked Wait_sema \<longleftrightarrow> True"
| "wg_locked (Wait_unlock s) \<longleftrightarrow> True"
| "wg_locked _ \<longleftrightarrow> False"

fun releaser :: "wg_pc \<Rightarrow> bool" where
  "releaser Add_load \<longleftrightarrow> True"
| "releaser Add_lock \<longleftrightarrow> True"
| "releaser (Add_loop i) \<longleftrightarrow> True"
| "releaser _ \<longleftrightarrow> False"

definition on_sema :: "nat \<Rightarrow> wg_pc \<Rightarrow> bool" where
  "on_sema s p \<longleftrightarrow> p = Wait_unlock s \<or> p = Wait_sleep s"

text \<open>
  The number of goroutines on the current semaphore that have not been released yet, in terms of the field
  \<open>waiters\<close> and of the goroutine that holds \<open>m\<close>.
\<close>

fun wg_rest :: "wg_pc list \<Rightarrow> int \<Rightarrow> int" where
  "wg_rest [Add_loop i] w = w - i"
| "wg_rest [Add_zero] w = 0"
| "wg_rest [Wait_test] w = w - 1"
| "wg_rest [Wait_dec] w = w - 1"
| "wg_rest [Wait_sema] w = w - 1"
| "wg_rest _ w = w"

fun wg_pc_ok :: "int \<Rightarrow> wg_pc \<Rightarrow> bool" where
  "wg_pc_ok w (Add_loop i) \<longleftrightarrow> 0 \<le> i \<and> i \<le> w"
| "wg_pc_ok w Add_nil \<longleftrightarrow> w = 0"
| "wg_pc_ok w _ \<longleftrightarrow> True"

definition wg_sems_ok :: "int \<Rightarrow> (nat \<Rightarrow> nat) \<Rightarrow> WaitGroup \<Rightarrow> bool" where
  "wg_sems_ok r on wg \<longleftrightarrow> 0 \<le> r \<and>
     (case wg_sema wg of None \<Rightarrow> r = 0 | Some c \<Rightarrow> c < length (wg_sems wg) \<and> int (on c) = r + int (wg_sems wg ! c)) \<and>
     (\<forall>s. wg_sema wg \<noteq> Some s \<longrightarrow> on s = (if s < length (wg_sems wg) then wg_sems wg ! s else 0))"

definition wg_acc :: "wg_pc list \<Rightarrow> (nat \<Rightarrow> nat) \<Rightarrow> nat \<Rightarrow> WaitGroup \<Rightarrow> bool" where
  "wg_acc ws on rel wg \<longleftrightarrow>
     length ws \<le> 1 \<and> (wg_m wg \<longleftrightarrow> ws \<noteq> []) \<and> (\<forall>p \<in> set ws. wg_pc_ok (wg_waiters wg) p) \<and>
     wg_sems_ok (wg_rest ws (wg_waiters wg)) on wg \<and>
     (wg_counter wg = 0 \<and> (0 < wg_rest ws (wg_waiters wg) \<or> ws = [Wait_sema]) \<longrightarrow> 0 < rel)"

definition wg_inv :: "wg_system \<Rightarrow> bool" where
  "wg_inv s \<longleftrightarrow> wg_acc (filter wg_locked (gos s)) (\<lambda>c. cnt (on_sema c) (gos s)) (cnt releaser (gos s)) (shared s) \<and>
     int (length (gos s)) + 1 < 2 ^ 31"

lemma wg_acc_length: "wg_acc ws on rel wg \<Longrightarrow> length ws \<le> 1"
  by (simp add: wg_acc_def)

text \<open>What the operations on the semaphores do.\<close>

lemma wg_sems_other [simp]:
  "wg_sems_ok r on (wg\<lparr>wg_m := b\<rparr>) = wg_sems_ok r on wg"
  "wg_sems_ok r on (wg\<lparr>wg_counter := x\<rparr>) = wg_sems_ok r on wg"
  "wg_sems_ok r on (wg\<lparr>wg_waiters := x\<rparr>) = wg_sems_ok r on wg"
  by (simp_all add: wg_sems_ok_def split: option.split)

lemma wg_sems_release:
  assumes "wg_sems_ok r on wg" "0 < r"
  obtains c where "wg_sema wg = Some c" "wg_sems_ok (r - 1) on (wg\<lparr>wg_sems := (wg_sems wg)[c := wg_sems wg ! c + 1]\<rparr>)"
  using assms by (cases "wg_sema wg") (auto simp: wg_sems_ok_def)

lemma wg_sems_nil: "wg_sems_ok 0 on wg \<Longrightarrow> wg_sems_ok 0 on (wg\<lparr>wg_sema := None\<rparr>)"
  unfolding wg_sems_ok_def by (cases "wg_sema wg") (simp_all, metis)

lemma wg_sems_new:
  "wg_sems_ok r on wg \<Longrightarrow> wg_sema wg = None \<Longrightarrow>
   wg_sems_ok (r + 1) (on(length (wg_sems wg) := Suc (on (length (wg_sems wg)))))
     (wg\<lparr>wg_sema := Some (length (wg_sems wg)), wg_sems := wg_sems wg @ [0]\<rparr>)"
  by (auto simp: wg_sems_ok_def nth_append)

lemma wg_sems_join: "wg_sems_ok r on wg \<Longrightarrow> wg_sema wg = Some c \<Longrightarrow> wg_sems_ok (r + 1) (on(c := Suc (on c))) wg"
  by (simp add: wg_sems_ok_def)

lemma wg_sems_wake:
  assumes "wg_sems_ok r on wg" "0 < wg_sems wg ! c" "0 < on c"
  shows "wg_sems_ok r (on(c := on c - 1)) (wg\<lparr>wg_sems := (wg_sems wg)[c := wg_sems wg ! c - 1]\<rparr>)"
proof -
  have "c < length (wg_sems wg)" using assms by (cases "wg_sema wg = Some c") (auto simp: wg_sems_ok_def split: if_splits)
  then show ?thesis using assms by (cases "wg_sema wg") (auto simp: wg_sems_ok_def)
qed

lemma wg_sems_rest: "wg_sems_ok r on wg \<Longrightarrow> 0 \<le> r \<and> (\<exists>c. r \<le> int (on c))"
  by (cases "wg_sema wg") (auto simp: wg_sems_ok_def intro: exI [of _ "the (wg_sema wg)"])

text \<open>The goroutine that holds \<open>m\<close> makes a step.\<close>

definition wg_on :: "wg_pc \<Rightarrow> wg_pc \<Rightarrow> (nat \<Rightarrow> nat) \<Rightarrow> nat \<Rightarrow> nat" where
  "wg_on p q on = (case q of Wait_unlock c \<Rightarrow> if p = Wait_sema then on(c := Suc (on c)) else on | _ \<Rightarrow> on)"

lemma wg_acc_locked:
  assumes acc: "wg_acc [p] on rel wg" and p: "wg_locked p" and code: "wg_code p wg = Some (q, wg')"
    and n: "\<And>c. int (on c) + 1 < 2 ^ 31"
  shows "wg_acc (if wg_locked q then [q] else []) (wg_on p q on) (if q = Add_zero then rel - 1 else rel) wg' \<and> q \<noteq> WG_panic"
proof -
  define r where "r = wg_rest [p] (wg_waiters wg)"
  have sems: "wg_sems_ok r on wg" and m: "wg_m wg" and ok: "wg_pc_ok (wg_waiters wg) p"
    and c: "wg_counter wg = 0 \<and> (0 < r \<or> p = Wait_sema) \<Longrightarrow> 0 < rel"
    using acc by (auto simp: wg_acc_def r_def)
  have r: "0 \<le> r" "r + 1 < 2 ^ 31" using wg_sems_rest [OF sems] n by (auto intro: order.strict_trans1)
  show ?thesis
  proof (cases p)
    case (Add_loop i)
    show ?thesis
    proof (cases "0 < r")
      case True
      obtain c where "wg_sema wg = Some c" "wg_sems_ok (r - 1) on (wg\<lparr>wg_sems := (wg_sems wg)[c := wg_sems wg ! c + 1]\<rparr>)"
        using wg_sems_release [OF sems True] .
      then show ?thesis using True Add_loop code m ok c by (auto simp: wg_acc_def wg_on_def r_def algebra_simps)
    next
      case False
      then show ?thesis using Add_loop code m ok sems r(1) by (auto simp: wg_acc_def wg_on_def r_def)
    qed
  next
    case Wait_sema
    show ?thesis
    proof (cases "wg_sema wg")
      case None
      then show ?thesis using Wait_sema code m wg_sems_new [OF sems] c by (auto simp: wg_acc_def wg_on_def r_def)
    next
      case (Some d)
      then show ?thesis using Wait_sema code m wg_sems_join [OF sems] c by (auto simp: wg_acc_def wg_on_def r_def)
    qed
  qed (use p code m sems ok c r wg_sems_nil in \<open>auto simp: wg_acc_def wg_on_def r_def split: if_splits\<close>)
qed

text \<open>A goroutine that does not hold \<open>m\<close> makes a step.\<close>

lemma wg_acc_Add_add:
  "wg_acc ws on rel wg \<Longrightarrow> wg_code (Add_add d) wg = Some (q, wg') \<Longrightarrow>
   (q = Add_load \<and> wg_acc ws on (Suc rel) wg' \<or> (q = WG_out \<or> q = WG_panic) \<and> wg_acc ws on rel wg')"
  by (cases "int32 (wg_counter wg + int32 d)" "0 :: int" rule: linorder_cases) (auto simp: wg_acc_def Let_def)

lemma wg_acc_Add_load:
  assumes acc: "wg_acc ws on (Suc rel) wg" and code: "wg_code Add_load wg = Some (q, wg')"
  shows "q = Add_lock \<and> wg' = wg \<or> q = WG_out \<and> wg' = wg \<and> wg_acc ws on rel wg"
proof (cases "wg_waiters wg = 0")
  case True
  then have "\<not> 0 < wg_rest ws (wg_waiters wg) \<and> ws \<noteq> [Wait_sema]"
    using acc unfolding wg_acc_def wg_sems_ok_def by (cases "(ws, wg_waiters wg)" rule: wg_rest.cases) auto
  then show ?thesis using True acc code by (simp add: wg_acc_def)
qed (use code in simp)

lemma wg_acc_lock:
  "wg_acc ws on rel wg \<Longrightarrow> \<not> wg_m wg \<Longrightarrow> q = Add_loop 0 \<or> q = Wait_inc \<Longrightarrow> wg_acc [q] on rel (wg\<lparr>wg_m := True\<rparr>)"
  using wg_sems_rest [of "wg_waiters wg" on wg] by (auto simp: wg_acc_def)

lemma wg_acc_wake:
  assumes "wg_acc ws on rel wg" "0 < wg_sems wg ! c" "0 < on c"
  shows "wg_acc ws (on(c := on c - 1)) rel (wg\<lparr>wg_sems := (wg_sems wg)[c := wg_sems wg ! c - 1]\<rparr>)"
  using assms wg_sems_wake [of _ on wg c] by (simp add: wg_acc_def)

lemma wg_locked_counts:
  assumes i: "i < length ps" and p: "wg_locked (ps ! i)" and code: "wg_code (ps ! i) wg = Some (q, wg')" "q \<noteq> WG_panic"
  shows "(\<lambda>c. cnt (on_sema c) (ps[i := q])) = wg_on (ps ! i) q (\<lambda>c. cnt (on_sema c) ps) \<and>
    cnt releaser (ps[i := q]) = (if q = Add_zero then cnt releaser ps - 1 else cnt releaser ps)"
proof -
  have "cnt (on_sema c) (ps[i := q]) = wg_on (ps ! i) q (\<lambda>c. cnt (on_sema c) ps) c" for c
    using cnt_update [OF i, of "on_sema c" q] p code
    by (cases "ps ! i") (auto simp: on_sema_def wg_on_def split: if_splits option.splits)
  moreover have "cnt releaser (ps[i := q]) = (if q = Add_zero then cnt releaser ps - 1 else cnt releaser ps)"
    using cnt_update [OF i, of releaser q] p code by (cases "ps ! i") (auto split: if_splits option.splits)
  ultimately show ?thesis by auto
qed

lemma wg_internal_inv:
  assumes inv: "wg_inv s" and "internal wg_code s t"
  shows "wg_inv t"
  using assms(2)
proof (rule internalE)
  fix i q m
  let ?ps = "gos s" and ?qs = "(gos s)[i := q]"
  let ?on = "\<lambda>c. cnt (on_sema c) (gos s)"
  assume t: "t = s\<lparr>shared := m, gos := ?qs\<rparr>" and i: "i < length ?ps"
    and code: "wg_code (?ps ! i) (shared s) = Some (q, m)"
  define ws where "ws = filter wg_locked ?ps"
  have acc: "wg_acc ws ?on (cnt releaser ?ps) (shared s)" and len: "int (length ?ps) + 1 < 2 ^ 31"
    using inv by (simp_all add: wg_inv_def ws_def)
  have keep: "wg_inv t" if "wg_acc ws (\<lambda>c. cnt (on_sema c) ?qs) (cnt releaser ?qs) m" "\<not> wg_locked (?ps ! i)" "\<not> wg_locked q"
    using that len filter_update_other [OF i, of wg_locked q] by (simp add: wg_inv_def t ws_def)
  note up = cnt_update [OF i, of releaser q]
  have same: "(\<lambda>c. cnt (on_sema c) ?qs) = ?on" if "\<And>c. \<not> on_sema c (?ps ! i) \<and> \<not> on_sema c q"
    using cnt_update [OF i, of "on_sema _" q] that by simp
  have enter: "filter wg_locked ?qs = [q]" if "\<not> wg_m (shared s)" "wg_locked q"
    using that acc filter_update_enter [OF i, of wg_locked q] by (simp add: wg_acc_def ws_def)
  show ?thesis
  proof (cases "wg_locked (?ps ! i)")
    case True
    have w: "ws = [?ps ! i]" "filter wg_locked ?qs = (if wg_locked q then [q] else [])"
      using filter_update_only [OF i, of wg_locked q] True wg_acc_length [OF acc] by (auto simp: ws_def)
    have "int (?on c) + 1 < 2 ^ 31" for c using len cnt_le [of "on_sema c" ?ps] by linarith
    then have "wg_acc (if wg_locked q then [q] else []) (wg_on (?ps ! i) q ?on) (if q = Add_zero then cnt releaser ?ps - 1 else cnt releaser ?ps) m
        \<and> q \<noteq> WG_panic"
      by (rule wg_acc_locked [OF acc [unfolded w(1)] True code])
    then show ?thesis using wg_locked_counts [OF i True code] w(2) len by (simp add: wg_inv_def t)
  next
    case False
    show ?thesis
    proof (cases "?ps ! i")
      case (Add_add d)
      note c = wg_acc_Add_add [OF acc, of d q m, folded Add_add, OF code]
      have "(\<lambda>c. cnt (on_sema c) ?qs) = ?on" using c Add_add by (intro same) (auto simp: on_sema_def)
      then show ?thesis using c up Add_add by (intro keep) auto
    next
      case Add_load
      obtain n where n: "cnt releaser ?ps = Suc n"
        using Add_load i cnt_pos [of releaser ?ps] gr0_conv_Suc by fastforce
      note c = wg_acc_Add_load [OF acc [unfolded n], of q m, folded Add_load, OF code]
      have "(\<lambda>c. cnt (on_sema c) ?qs) = ?on" using c Add_load by (intro same) (auto simp: on_sema_def)
      then show ?thesis using c n up Add_load acc by (intro keep) auto
    next
      case Add_lock
      then have c: "\<not> wg_m (shared s)" "q = Add_loop 0" "m = (shared s)\<lparr>wg_m := True\<rparr>" using code by (auto split: if_splits)
      have "(\<lambda>c. cnt (on_sema c) ?qs) = ?on" using c Add_lock by (intro same) (auto simp: on_sema_def)
      then show ?thesis using enter c wg_acc_lock [OF acc c(1)] up Add_lock len by (simp add: wg_inv_def t)
    next
      case Wait_load
      then have c: "q = WG_out \<or> q = Wait_lock" "m = shared s" using code by (auto split: if_splits)
      have "(\<lambda>c. cnt (on_sema c) ?qs) = ?on" using c Wait_load by (intro same) (auto simp: on_sema_def)
      then show ?thesis using c up Wait_load acc by (intro keep) auto
    next
      case Wait_lock
      then have c: "\<not> wg_m (shared s)" "q = Wait_inc" "m = (shared s)\<lparr>wg_m := True\<rparr>" using code by (auto split: if_splits)
      have "(\<lambda>c. cnt (on_sema c) ?qs) = ?on" using c Wait_lock by (intro same) (auto simp: on_sema_def)
      then show ?thesis using enter c wg_acc_lock [OF acc c(1)] up Wait_lock len by (simp add: wg_inv_def t)
    next
      case (Wait_sleep c)
      have "cnt (on_sema d) ?qs = (?on(c := ?on c - 1)) d" for d
        using cnt_update [OF i, of "on_sema d" q] Wait_sleep code by (auto simp: on_sema_def split: if_splits)
      then have e: "(\<lambda>d. cnt (on_sema d) ?qs) = ?on(c := ?on c - 1)" by auto
      have "0 < ?on c" using Wait_sleep i by (auto simp: cnt_pos on_sema_def)
      then have "wg_acc ws (?on(c := ?on c - 1)) (cnt releaser ?ps) m"
        using wg_acc_wake [OF acc, of c] Wait_sleep code by (auto split: if_splits)
      then show ?thesis using up Wait_sleep code by (intro keep) (auto simp: e split: if_splits)
    qed (use code False in simp_all)
  qed
qed

lemma wg_at:
  assumes "wg_inv s" "i < length (gos s)" "wg_locked (gos s ! i)"
  shows "wg_acc [gos s ! i] (\<lambda>c. cnt (on_sema c) (gos s)) (cnt releaser (gos s)) (shared s)"
  using assms filter_update_only [OF assms(2), of wg_locked] wg_acc_length by (auto simp: wg_inv_def)

lemma wg_waiters_le:
  assumes inv: "wg_inv s" and w: "wg_waiters (shared s) \<le> int (length (gos s))" and "internal wg_code s t"
  shows "wg_waiters (shared t) \<le> int (length (gos t))"
  using assms(3)
proof (rule internalE)
  fix i q m
  assume t: "t = s\<lparr>shared := m, gos := (gos s)[i := q]\<rparr>" and i: "i < length (gos s)"
    and code: "wg_code (gos s ! i) (shared s) = Some (q, m)"
  have len: "int (length (gos s)) + 1 < 2 ^ 31" using inv by (simp add: wg_inv_def)
  show ?thesis
  proof (cases "gos s ! i")
    case Wait_inc
    then have "wg_sems_ok (wg_waiters (shared s)) (\<lambda>c. cnt (on_sema c) (gos s)) (shared s)"
      using wg_at [OF inv i] by (simp add: wg_acc_def)
    then obtain c where c: "0 \<le> wg_waiters (shared s)" "wg_waiters (shared s) \<le> int (cnt (on_sema c) (gos s))"
      using wg_sems_rest by blast
    have "cnt (on_sema c) (gos s) < length (gos s)" using Wait_inc by (intro cnt_less [OF i]) (simp add: on_sema_def)
    then show ?thesis using Wait_inc code c len by (auto simp: t)
  next
    case Wait_dec
    then have "0 \<le> wg_waiters (shared s) - 1" using wg_at [OF inv i] by (simp add: wg_acc_def wg_sems_ok_def)
    then show ?thesis using Wait_dec code w len by (auto simp: t)
  qed (use code w in \<open>auto simp: t Let_def split: if_splits option.splits\<close>)
qed

lemma wg_call_inv:
  assumes inv: "wg_inv s" and i: "i < length (gos s)" and p: "wg_call (gos s ! i) p"
  shows "wg_inv (s\<lparr>gos := (gos s)[i := p]\<rparr>)"
proof -
  have c: "gos s ! i = WG_out" "\<not> wg_locked p" "\<not> releaser p" "\<And>c. \<not> on_sema c p"
    using p by (cases "gos s ! i"; cases p; simp add: on_sema_def)+
  have "cnt (on_sema c) ((gos s)[i := p]) = cnt (on_sema c) (gos s)" for c
    using cnt_update [OF i, of "on_sema c" p] c by (simp add: on_sema_def)
  then show ?thesis using inv c cnt_update [OF i, of releaser p] filter_update_other [OF i, of wg_locked p]
    by (simp add: wg_inv_def)
qed

lemma wg_step_inv: "wg_inv s \<Longrightarrow> wg_step s t \<Longrightarrow> wg_inv t"
  by (erule go_stepE) (simp_all add: wg_internal_inv wg_call_inv)

lemma wg_init_inv: "wg_init s \<Longrightarrow> wg_inv s"
proof -
  assume a: "wg_init s"
  then have "filter wg_locked (gos s) = []" by (auto simp: wg_init_def filter_empty_conv)
  moreover have "cnt P (gos s) = 0" if "\<not> P WG_out" for P
    using a that cnt_all [of "gos s" WG_out P] by (auto simp: wg_init_def)
  ultimately show ?thesis using a by (simp add: wg_inv_def wg_acc_def wg_sems_ok_def wg_init_def on_sema_def)
qed

section \<open>Progress\<close>

fun wg_rank :: "nat \<Rightarrow> wg_pc \<Rightarrow> nat" where
  "wg_rank n (Add_add d) = n + 7"
| "wg_rank n Add_load = n + 6"
| "wg_rank n Add_lock = n + 5"
| "wg_rank n (Add_loop i) = nat (int n - i) + 4"
| "wg_rank n Add_zero = 3"
| "wg_rank n Add_nil = 2"
| "wg_rank n Add_unlock = 1"
| "wg_rank n Wait_load = 7"
| "wg_rank n Wait_lock = 6"
| "wg_rank n Wait_inc = 5"
| "wg_rank n Wait_test = 4"
| "wg_rank n Wait_dec = 3"
| "wg_rank n Wait_sema = 3"
| "wg_rank n (Wait_unlock s) = 2"
| "wg_rank n (Wait_sleep s) = 1"
| "wg_rank n Wait_return = 1"
| "wg_rank n _ = 0"

definition wg_measure :: "wg_system \<Rightarrow> nat" where
  "wg_measure s = sum_list (map (wg_rank (length (gos s))) (gos s))"

text \<open>The counter is zero, and somebody is in \<open>Add\<close> or in \<open>Wait\<close>.\<close>

definition wg_waiting :: "wg_system \<Rightarrow> bool" where
  "wg_waiting s \<longleftrightarrow> wg_counter (shared s) = 0 \<and> (\<exists>p \<in> set (gos s). p \<noteq> WG_out \<and> p \<noteq> WG_panic)"

lemma wg_measure_internal:
  assumes inv: "wg_inv s" and len: "wg_waiters (shared s) \<le> int (length (gos s))" and "internal wg_code s t"
  shows "wg_measure t < wg_measure s"
  using assms(3)
proof (rule internalE)
  fix i q m
  assume t: "t = s\<lparr>shared := m, gos := (gos s)[i := q]\<rparr>" and i: "i < length (gos s)"
    and code: "wg_code (gos s ! i) (shared s) = Some (q, m)"
  have ok: "wg_pc_ok (wg_waiters (shared s)) (gos s ! i)" if "wg_locked (gos s ! i)"
    using wg_at [OF inv i that] by (simp add: wg_acc_def)
  have "wg_rank (length (gos s)) q < wg_rank (length (gos s)) (gos s ! i)"
    using code len ok by (cases "gos s ! i") (auto simp: Let_def split: if_splits option.splits)
  then show ?thesis using sum_update [OF i, of "wg_rank (length (gos s))" q] by (simp add: wg_measure_def t)
qed

lemma wg_measure_le:
  assumes inv: "wg_inv s"
  shows "wg_measure s \<le> (length (gos s) + 7) * length (gos s)"
proof -
  have "wg_rank (length (gos s)) p \<le> 0 + (length (gos s) + 7)" if p: "p \<in> set (gos s)" for p
  proof (cases p)
    case (Add_loop k)
    obtain i where "i < length (gos s)" "gos s ! i = p" using p by (auto simp: in_set_conv_nth)
    then have "0 \<le> k" using wg_at [OF inv, of i] Add_loop by (simp add: wg_acc_def)
    then show ?thesis using Add_loop by simp
  qed auto
  then show ?thesis using sum_list_bound [of "gos s" "wg_rank (length (gos s))" "\<lambda>p. 0"] by (simp add: wg_measure_def)
qed

lemma wg_can_step: "p \<in> set (gos s) \<Longrightarrow> wg_code p (shared s) \<noteq> None \<Longrightarrow> \<exists>t. internal wg_code s t"
  by (metis in_set_conv_nth internal.intros not_None_eq surj_pair)

lemma wg_enabled:
  assumes inv: "wg_inv s" and wait: "wg_waiting s"
  shows "\<exists>t. internal wg_code s t"
proof (rule ccontr)
  assume st: "\<nexists>t. internal wg_code s t"
  have none: "wg_code p (shared s) = None" if "p \<in> set (gos s)" for p using wg_can_step [OF that] st by blast
  have "\<not> wg_locked p" if "p \<in> set (gos s)" for p
    using none [OF that] by (cases p) (auto split: if_splits option.splits)
  then have ws: "filter wg_locked (gos s) = []" by (simp add: filter_empty_conv)
  then have m: "\<not> wg_m (shared s)" using inv by (simp add: wg_inv_def wg_acc_def)
  have pc: "p = WG_out \<or> p = WG_panic \<or> (\<exists>c. p = Wait_sleep c \<and> wg_sems (shared s) ! c = 0)" if "p \<in> set (gos s)" for p
    using none [OF that] m by (cases p) (auto simp: Let_def split: if_splits option.splits)
  have "cnt releaser (gos s) = 0" using pc by (fastforce simp: cnt_0)
  moreover have sems: "wg_sems_ok (wg_waiters (shared s)) (\<lambda>c. cnt (on_sema c) (gos s)) (shared s)"
    using inv ws by (simp add: wg_inv_def wg_acc_def)
  ultimately have "wg_waiters (shared s) = 0"
    using inv ws wait wg_sems_rest [OF sems] by (auto simp: wg_inv_def wg_acc_def wg_waiting_def)
  with sems have on: "cnt (on_sema c) (gos s) = (if c < length (wg_sems (shared s)) then wg_sems (shared s) ! c else 0)" for c
    by (cases "wg_sema (shared s) = Some c") (auto simp: wg_sems_ok_def split: option.splits)
  obtain p where p: "p \<in> set (gos s)" "p \<noteq> WG_out" "p \<noteq> WG_panic" using wait by (auto simp: wg_waiting_def)
  then obtain c where c: "p = Wait_sleep c" "wg_sems (shared s) ! c = 0" using pc by blast
  then have "cnt (on_sema c) (gos s) \<noteq> 0" using p by (auto simp: cnt_0 on_sema_def)
  then show False using on [of c] c(2) by (simp split: if_splits)
qed

definition wg_full_inv :: "wg_system \<Rightarrow> bool" where
  "wg_full_inv s \<longleftrightarrow> wg_inv s \<and> wg_waiters (shared s) \<le> int (length (gos s))"

lemma wg_full_step: "wg_full_inv s \<Longrightarrow> wg_step s t \<Longrightarrow> wg_full_inv t"
  unfolding wg_full_inv_def
  by (auto elim!: go_stepE intro: wg_call_inv wg_internal_inv wg_waiters_le)

interpretation wg: step_system wg_init wg_step wg_full_inv
  by unfold_locales (simp add: wg_full_inv_def wg_init_inv, simp add: wg_init_def, rule wg_full_step)

interpretation wg_run: step_progress wg_full_inv "internal wg_code" wg_full_inv "\<lambda>s. True" wg_waiting wg_measure "internal wg_code"
  by unfold_locales
    (auto simp: wg_full_inv_def intro: wg_internal_inv wg_waiters_le wg_measure_internal wg_enabled)

definition wg_start :: wg_system where
  "wg_start = \<lparr>shared = \<lparr>wg_m = False, wg_counter = 0, wg_waiters = 0, wg_sema = None, wg_sems = []\<rparr>,
     gos = [WG_out, WG_out, WG_out]\<rparr>"

definition wg_exec :: "wg_pc act list \<Rightarrow> wg_system option" where
  "wg_exec as = exec wg_code wg_call as wg_start"

lemma wg_exec_steps: "wg_exec as = Some s \<Longrightarrow> wg_init wg_start \<and> wg_step\<^sup>*\<^sup>* wg_start s"
  unfolding wg_exec_def by (auto simp: wg_init_def wg_start_def intro: exec_steps)

text \<open>
  Goroutine 0 adds one and later calls \<open>Done\<close>; goroutine 1 waits, and is asleep when the counter becomes zero.
\<close>

definition wg_sched :: "wg_pc act list" where
  "wg_sched = [Client 0 (Add_add 1), Run 0, Client 1 Wait_load, Run 1, Run 1, Run 1, Run 1, Run 1, Run 1,
     Client 0 (Add_add (-1)), Run 0, Run 0]"

lemma wg_exec_asleep:
  "wg_exec wg_sched = Some \<lparr>shared = \<lparr>wg_m = False, wg_counter = 0, wg_waiters = 1, wg_sema = Some 0, wg_sems = [0]\<rparr>,
     gos = [Add_lock, Wait_sleep 0, WG_out]\<rparr>"
  by (simp add: wg_exec_def wg_start_def wg_sched_def int32_def Let_def)

section \<open>Properties\<close>

text \<open>
  C33. No lost wake-up: whatever the interleaving of the calls of \<open>Add\<close>, \<open>Done\<close> and \<open>Wait\<close> of \<open>N\<close> goroutines,
  the steps inside these operations come to an end after at most \<open>(N + 7) * N\<close> of them; and if then
  the counter is zero, every call has returned (or panicked with a negative counter): no goroutine sleeps in \<open>Wait\<close>
  on a semaphore that nobody will release.
\<close>

theorem wg_no_lost_wakeup:
  assumes "wg_init s0" "wg_step\<^sup>*\<^sup>* s0 s" "(internal wg_code ^^ k) s t"
  shows "k \<le> (length (gos s) + 7) * length (gos s) \<and>
    ((\<nexists>u. internal wg_code t u) \<and> wg_counter (shared t) = 0 \<longrightarrow> (\<forall>p \<in> set (gos t). p = WG_out \<or> p = WG_panic))"
proof -
  have inv: "wg_full_inv s" by (rule wg.reachable_inv [OF assms(1,2)])
  have "k + wg_measure t \<le> wg_measure s \<and> wg_full_inv t" using wg_run.phase_bound [OF inv] assms(3) by simp
  then show ?thesis using wg_measure_le [of s] inv wg_enabled [of t] by (auto simp: wg_waiting_def wg_full_inv_def)
qed

theorem wg_no_lost_wakeup_witness:
  "let s = \<lparr>shared = \<lparr>wg_m = False, wg_counter = 0, wg_waiters = 1, wg_sema = Some 0, wg_sems = [0]\<rparr>,
        gos = [Add_lock, Wait_sleep 0, WG_out]\<rparr>
   in wg_step\<^sup>*\<^sup>* wg_start s \<and> (\<exists>u. internal wg_code s u)"
proof -
  let ?s = "\<lparr>shared = \<lparr>wg_m = False, wg_counter = 0, wg_waiters = 1, wg_sema = Some 0, wg_sems = [0]\<rparr>,
        gos = [Add_lock, Wait_sleep 0, WG_out]\<rparr> :: wg_system"
  have r: "wg_init wg_start" "wg_step\<^sup>*\<^sup>* wg_start ?s" using wg_exec_steps [OF wg_exec_asleep] by blast+
  have k: "(internal wg_code ^^ 0) ?s ?s" by simp
  have c: "wg_counter (shared ?s) = 0" "\<not> (\<forall>p \<in> set (gos ?s). p = WG_out \<or> p = WG_panic)" by simp_all
  have "\<exists>u. internal wg_code ?s u"
    by (rule ccontr) (use wg_no_lost_wakeup [OF r k, THEN conjunct2] c in \<open>simp only: simp_thms\<close>)
  then show ?thesis using r(2) by (simp add: Let_def)
qed

text \<open>
  The schedule: goroutine 2 calls \<open>Wait\<close>, which falls asleep; goroutine 0 goes on in \<open>Done\<close> and releases; goroutine 2
  wakes up. \<open>wg_trace\<close> lists all states on the way.
\<close>
definition wg_race :: "wg_pc act list" where
  "wg_race = [Client 2 Wait_load, Run 2, Run 2, Run 2, Run 2, Run 2, Run 2,
     Run 0, Run 0, Run 0, Run 0, Run 0, Run 0, Run 0, Run 2]"

lemma wg_exec_append: "exec code call (as @ bs) s = Option.bind (exec code call as s) (exec code call bs)"
  by (induction code call as s rule: exec.induct) (auto split: Option.bind_split)

lemma wg_race_start:
  "wg_exec (wg_sched @ [Client 2 (Add_add 1), Run 2]) =
     Some \<lparr>shared = \<lparr>wg_m = False, wg_counter = 1, wg_waiters = 1, wg_sema = Some 0, wg_sems = [0]\<rparr>,
       gos = [Add_lock, Wait_sleep 0, WG_out]\<rparr>"
  using wg_exec_asleep by (simp add: wg_exec_def wg_exec_append int32_def Let_def)

fun wg_trace :: "wg_pc act list \<Rightarrow> wg_system \<Rightarrow> wg_system list option" where
  "wg_trace [] s = Some [s]"
| "wg_trace (a # as) s = do { t \<leftarrow> exec wg_code wg_call [a] s; ts \<leftarrow> wg_trace as t; Some (s # ts) }"

text \<open>
  C36. \<open>Add\<close> releases the waiters without looking at the counter again once it has the mutex. Goroutine 0 calls \<open>Done\<close>
  and has seen the counter become zero with goroutine 1 waiting, but does not have the mutex yet; goroutine 2 adds one
  and then waits; goroutine 0 goes on and releases both. The call of \<open>Wait\<close> in goroutine 2 returns although the
  counter has been one from before the call until after its return.
\<close>

theorem wait_returns_early:
  "\<exists>s ts. wg_exec (wg_sched @ [Client 2 (Add_add 1), Run 2]) = Some s \<and> wg_trace wg_race s = Some ts \<and>
     list_all (\<lambda>t. wg_counter (shared t) = 1) ts \<and> gos (ts ! 1) ! 2 = Wait_load \<and> gos (last ts) ! 2 = WG_out"
  unfolding wg_race_start by (simp add: wg_race_def int32_def Let_def)

end
