(* ===== verification/Encoding_Base64.thy ===== *)
theory Encoding_Base64
  imports Go_Bytes
begin

text \<open>
  encoding/base64/base64.go: the encodings of RFC 4648, \<open>Encode\<close>, \<open>Decode\<close> and their variants on strings,
  and the stream encoder. A write outside \<open>dst\<close> or a read outside the alphabet is a panic, \<open>None\<close>.
\<close>

unbundle bit_operations_syntax

section \<open>The code\<close>

record Encoding =
  enc_encode :: "byte list"
  enc_decodeMap :: "byte list"

definition encodeStd :: "byte list" where
  "encodeStd = str ''ABCDEFGHIJKLMNOPQRSTUVWXYZabcdefghijklmnopqrstuvwxyz0123456789+/''"

definition encodeURL :: "byte list" where
  "encodeURL = str ''ABCDEFGHIJKLMNOPQRSTUVWXYZabcdefghijklmnopqrstuvwxyz0123456789-_''"

definition NewEncoding :: "byte list \<Rightarrow> Encoding" where
  "NewEncoding encoder = \<lparr>enc_encode = encoder,
     enc_decodeMap = fold (\<lambda>i m. m[unat (encoder ! i) := of_nat i]) [0..<length encoder] (replicate 256 0xFF)\<rparr>"

definition StdEncoding :: Encoding where
  "StdEncoding = NewEncoding encodeStd"

definition URLEncoding :: Encoding where
  "URLEncoding = NewEncoding encodeURL"

definition EncodedLen :: "nat \<Rightarrow> nat" where
  "EncodedLen n = (n + 2) div 3 * 4"

definition DecodedLen :: "nat \<Rightarrow> nat" where
  "DecodedLen n = n div 4 * 3"

subsection \<open>Encode\<close>

text \<open>The switch on \<open>len(src)\<close>: the four 6-bit values of a quantum, starting from zeros.\<close>

fun b64_sextets :: "byte list \<Rightarrow> byte list" where
  "b64_sextets (a # b # c # _) =
     [drop_bit 2 a, drop_bit 4 b OR (push_bit 4 a AND 0x3F), drop_bit 6 c OR (push_bit 2 b AND 0x3F), c AND 0x3F]"
| "b64_sextets [a, b] = [drop_bit 2 a, drop_bit 4 b OR (push_bit 4 a AND 0x3F), push_bit 2 b AND 0x3F, 0]"
| "b64_sextets [a] = [drop_bit 2 a, push_bit 4 a AND 0x3F, 0, 0]"
| "b64_sextets [] = [0, 0, 0, 0]"

text \<open>The padding of the final quantum; 61 is the character =.\<close>

definition b64_pad :: "nat \<Rightarrow> byte list \<Rightarrow> byte list" where
  "b64_pad n q = (if n < 3 then (if n < 2 then q[3 := 61, 2 := 61] else q[3 := 61]) else q)"

function b64_Encode :: "Encoding \<Rightarrow> byte list \<Rightarrow> byte list \<Rightarrow> byte list option" where
  "b64_Encode enc dst src =
    (if src = [] then Some dst
     else if length dst < 4 then None
     else do {
       q \<leftarrow> those (map (\<lambda>v. slice_at (enc_encode enc) (uint v)) (b64_sextets src));
       let q = b64_pad (length src) q;
       if length src < 3 then Some (q @ drop 4 dst)
       else do {
         rest \<leftarrow> b64_Encode enc (drop 4 dst) (drop 3 src);
         Some (q @ rest)
       }
     })"
  by auto
termination by (relation "measure (\<lambda>(enc, dst, src). length src)") auto

declare b64_Encode.simps [simp del]

definition b64_EncodeToString :: "Encoding \<Rightarrow> byte list \<Rightarrow> byte list option" where
  "b64_EncodeToString enc src = b64_Encode enc (replicate (EncodedLen (length src)) 0) src"

subsection \<open>Decode\<close>

datatype CorruptInputError = CorruptInputError int

text \<open>
  The loop \<open>dbufloop\<close> over a quantum, from its byte \<open>j\<close> on: the offset of an error, or the values read and whether
  padding was found. \<open>s3\<close> is the last byte of the quantum, and \<open>final\<close> says that it is the last one of \<open>src\<close>.
\<close>

fun b64_dbufloop :: "Encoding \<Rightarrow> bool \<Rightarrow> byte \<Rightarrow> nat \<Rightarrow> byte list \<Rightarrow> nat + byte list \<times> bool" where
  "b64_dbufloop enc final s3 j [] = Inr ([], False)"
| "b64_dbufloop enc final s3 j (x # xs) =
    (if x = 61 \<and> 2 \<le> j \<and> final then (if s3 \<noteq> 61 then Inl 2 else Inr ([], True))
     else let v = enc_decodeMap enc ! unat x
          in if v = 0xFF then Inl j
             else (case b64_dbufloop enc final s3 (Suc j) xs of
                     Inl k \<Rightarrow> Inl k
                   | Inr (vs, end) \<Rightarrow> Inr (v # vs, end)))"

text \<open>The switch on \<open>dlen\<close>, which is the number of values read.\<close>

fun b64_pack :: "byte list \<Rightarrow> int \<Rightarrow> byte list \<Rightarrow> byte list option" where
  "b64_pack dst i [a, b, c, d] = do {
     dst \<leftarrow> slice_put dst (i * 3 + 2) (push_bit 6 c OR d);
     dst \<leftarrow> slice_put dst (i * 3 + 1) (push_bit 4 b OR drop_bit 2 c);
     slice_put dst (i * 3) (push_bit 2 a OR drop_bit 4 b) }"
| "b64_pack dst i [a, b, c] = do {
     dst \<leftarrow> slice_put dst (i * 3 + 1) (push_bit 4 b OR drop_bit 2 c);
     slice_put dst (i * 3) (push_bit 2 a OR drop_bit 4 b) }"
| "b64_pack dst i [a, b] = slice_put dst (i * 3) (push_bit 2 a OR drop_bit 4 b)"
| "b64_pack dst i _ = Some dst"

text \<open>The loop of \<open>decode\<close>, from quantum \<open>i\<close> on; \<open>src\<close> is what is left of the input.\<close>

fun b64_decode ::
  "Encoding \<Rightarrow> byte list \<Rightarrow> byte list \<Rightarrow> int \<Rightarrow> nat \<Rightarrow> (byte list \<times> nat \<times> bool \<times> CorruptInputError option) option" where
  "b64_decode enc dst (s0 # s1 # s2 # s3 # src) i n =
    (case b64_dbufloop enc (length src < 4) s3 0 [s0, s1, s2, s3] of
       Inl j \<Rightarrow> Some (dst, n, False, Some (CorruptInputError (i * 4 + int j)))
     | Inr (dbuf, end) \<Rightarrow> do {
         dst \<leftarrow> b64_pack dst i dbuf;
         let n = n + length dbuf - 1;
         if end then Some (dst, n, True, None) else b64_decode enc dst src (i + 1) n })"
| "b64_decode enc dst src i n = Some (dst, n, False, None)"

definition b64_Decode :: "Encoding \<Rightarrow> byte list \<Rightarrow> byte list \<Rightarrow> (byte list \<times> nat \<times> CorruptInputError option) option" where
  "b64_Decode enc dst src =
    (if length src mod 4 \<noteq> 0 then Some (dst, 0, Some (CorruptInputError (int (length src div 4 * 4))))
     else do { (dst, n, end, err) \<leftarrow> b64_decode enc dst src 0 0; Some (dst, n, err) })"

definition b64_DecodeString :: "Encoding \<Rightarrow> byte list \<Rightarrow> (byte list \<times> CorruptInputError option) option" where
  "b64_DecodeString enc s = do {
     (dbuf, n, err) \<leftarrow> b64_Decode enc (replicate (DecodedLen (length s)) 0) s;
     Some (take n dbuf, err) }"

section \<open>Encoding and decoding\<close>

text \<open>An alphabet that \<open>NewEncoding\<close> is documented for: 64 different bytes; without the padding character.\<close>

definition b64_alphabet :: "byte list \<Rightarrow> bool" where
  "b64_alphabet al \<longleftrightarrow> length al = 64 \<and> distinct al \<and> 61 \<notin> set al"

lemma b64_alphabets: "b64_alphabet encodeStd" "b64_alphabet encodeURL"
  by (simp_all add: b64_alphabet_def encodeStd_def encodeURL_def)

lemma decodeMap_fold:
  fixes al :: "byte list"
  assumes "distinct al" "n \<le> length al"
  defines "m \<equiv> \<lambda>n. fold (\<lambda>i m. m[unat (al ! i) := of_nat i]) [0..<n] (replicate 256 0xFF) :: byte list"
  shows "length (m n) = 256 \<and> (\<forall>i < n. m n ! unat (al ! i) = of_nat i) \<and> (\<forall>x. x \<notin> set (take n al) \<longrightarrow> m n ! unat x = 0xFF)"
  using assms(2)
proof (induction n)
  case (Suc n)
  then have n: "n < length al" by simp
  have step: "m (Suc n) = (m n)[unat (al ! n) := of_nat n]" by (simp add: m_def)
  have "unat (al ! n) \<noteq> unat (al ! j)" if "j < n" for j
    using assms(1) that n by (simp add: word_unat_eq_iff [symmetric] nth_eq_iff_index_eq)
  moreover have "unat x \<noteq> unat (al ! n)" if "x \<notin> set (take (Suc n) al)" for x
    using that n by (auto simp: take_Suc_conv_app_nth word_unat_eq_iff [symmetric])
  moreover have "unat (al ! n) < length (m n)" using Suc byte_less [of "al ! n"] by simp
  ultimately show ?case using Suc n unfolding step
    by (simp add: less_Suc_eq all_conj_distrib take_Suc_conv_app_nth) (metis nth_list_update_eq nth_list_update_neq)
qed (simp add: byte_less m_def)

lemma decodeMap_hit: "distinct al \<Longrightarrow> i < length al \<Longrightarrow> enc_decodeMap (NewEncoding al) ! unat (al ! i) = of_nat i"
  using decodeMap_fold [of al "length al"] by (simp add: NewEncoding_def)

lemma decodeMap_miss: "distinct al \<Longrightarrow> x \<notin> set al \<Longrightarrow> enc_decodeMap (NewEncoding al) ! unat x = 0xFF"
  using decodeMap_fold [of al "length al"] by (simp add: NewEncoding_def)

lemma byte_bit_high: "8 \<le> n \<Longrightarrow> \<not> bit (b :: byte) n"
  using bit_imp_le_length [of b n] by auto

text \<open>A quantum is unpacked and packed again.\<close>

lemma b64_bytes:
  "push_bit 2 (drop_bit 2 a) OR drop_bit 4 (drop_bit 4 b OR (push_bit 4 a AND 0x3F)) = a"
  "push_bit 4 (drop_bit 4 b OR (push_bit 4 a AND 0x3F)) OR drop_bit 2 (drop_bit 6 c OR (push_bit 2 b AND 0x3F)) = b"
  "push_bit 6 (drop_bit 6 c OR (push_bit 2 b AND 0x3F)) OR (c AND 0x3F) = c"
  "push_bit 2 (drop_bit 2 a) OR drop_bit 4 (push_bit 4 a AND 0x3F) = a"
  "push_bit 4 (drop_bit 4 b OR (push_bit 4 a AND 0x3F)) OR drop_bit 2 (push_bit 2 b AND 0x3F) = b"
  for a b c :: byte
  by (rule byte_eqI; auto simp: byte_bits byte_bit_high)+

lemma byte_less64: "\<not> bit v 6 \<Longrightarrow> \<not> bit v 7 \<Longrightarrow> unat v < 64" for v :: byte
proof -
  assume "\<not> bit v 6" "\<not> bit v 7"
  then have "v = v AND mask 6" by (intro byte_eqI) (auto simp: byte_bits byte_bit_high)
  then have "unat v = unat v mod 2 ^ 6" by (metis unat_mask_byte)
  also have "\<dots> < 64" by simp
  finally show ?thesis .
qed

lemma b64_sextets_less: "v \<in> set (b64_sextets src) \<Longrightarrow> unat v < 64"
  by (cases src rule: b64_sextets.cases) (auto intro!: byte_less64 simp: byte_bits byte_bit_high)

text \<open>The characters of the encoding, in groups of three bytes.\<close>

fun b64_chars :: "byte list \<Rightarrow> byte list \<Rightarrow> byte list" where
  "b64_chars al (a # b # c # src) = map (\<lambda>v. al ! unat v) (b64_sextets [a, b, c]) @ b64_chars al src"
| "b64_chars al [] = []"
| "b64_chars al [a] = b64_pad (length [a]) (map (\<lambda>v. al ! unat v) (b64_sextets [a]))"
| "b64_chars al [a, b] = b64_pad (length [a, b]) (map (\<lambda>v. al ! unat v) (b64_sextets [a, b]))"

lemma those_map_Some: "(\<And>x. x \<in> set xs \<Longrightarrow> f x = Some (g x)) \<Longrightarrow> those (map f xs) = Some (map g xs)"
  by (induction xs) simp_all

lemma slice_at_word: "unat v < length xs \<Longrightarrow> slice_at xs (uint v) = Some (xs ! unat v)"
  unfolding slice_at_def by (metis nat_uint_eq of_nat_less_iff unsigned_greater_eq uint_nat)

lemma b64_alphabet_at:
  "length al = 64 \<Longrightarrow> those (map (\<lambda>v. slice_at al (uint v)) (b64_sextets src)) = Some (map (\<lambda>v. al ! unat v) (b64_sextets src))"
  by (rule those_map_Some, rule slice_at_word) (simp add: b64_sextets_less)

lemma b64_sextets_length: "length (b64_sextets src) = 4"
  by (cases src rule: b64_sextets.cases) simp_all

lemma EncodedLen_simps [simp]:
  "EncodedLen 0 = 0" "EncodedLen (Suc 0) = 4" "EncodedLen (Suc (Suc 0)) = 4"
  "EncodedLen (Suc (Suc (Suc n))) = 4 + EncodedLen n"
proof -
  have "(5 + n) div 3 = Suc (Suc (Suc n) div 3)" by presburger
  then show "EncodedLen (Suc (Suc (Suc n))) = 4 + EncodedLen n" by (simp add: EncodedLen_def)
qed (simp_all add: EncodedLen_def)

lemma enc_encode_New [simp]: "enc_encode (NewEncoding al) = al"
  by (simp add: NewEncoding_def)

lemma Encode_chars:
  "length al = 64 \<Longrightarrow> EncodedLen (length src) \<le> length dst \<Longrightarrow>
   b64_Encode (NewEncoding al) dst src = Some (b64_chars al src @ drop (EncodedLen (length src)) dst)"
proof (induction al src arbitrary: dst rule: b64_chars.induct)
  case (1 al a b c src)
  have "b64_Encode (NewEncoding al) (drop 4 dst) src = Some (b64_chars al src @ drop (EncodedLen (length src)) (drop 4 dst))"
    using 1 by simp
  then show ?case using 1(2,3) b64_alphabet_at [of al "a # b # c # src"]
    by (subst b64_Encode.simps) (simp add: b64_pad_def add.commute)
qed (subst b64_Encode.simps; simp add: b64_alphabet_at del: b64_sextets.simps)+

lemma length_b64_chars: "length (b64_chars al src) = EncodedLen (length src)"
  by (induction al src rule: b64_chars.induct) (simp_all add: b64_pad_def)

section \<open>The encoding of RFC 4648\<close>

text \<open>
  The bits of the bytes, the most significant first, are cut into groups of six, the last one filled with zeros; each
  group is a character of the alphabet; and padding characters make the length a multiple of four.
\<close>

definition msb_bits :: "byte \<Rightarrow> bool list" where
  "msb_bits b = map (bit b) [7, 6, 5, 4, 3, 2, 1, 0]"

definition bits_val :: "bool list \<Rightarrow> byte" where
  "bits_val bs = horner_sum of_bool 2 (rev bs)"

function sixes :: "bool list \<Rightarrow> byte list" where
  "sixes bs = (if bs = [] then [] else bits_val (take 6 (bs @ replicate 5 False)) # sixes (drop 6 bs))"
  by auto
termination by (relation "measure length") auto

declare sixes.simps [simp del]

definition rfc4648 :: "byte list \<Rightarrow> byte list \<Rightarrow> byte list" where
  "rfc4648 al src =
    (let cs = map (\<lambda>v. al ! unat v) (sixes (concat (map msb_bits src))) in cs @ replicate ((4 - length cs mod 4) mod 4) 61)"

lemma bits_val_bit: "bit (bits_val bs) n \<longleftrightarrow> n < 8 \<and> n < length bs \<and> bs ! (length bs - Suc n)"
  by (auto simp: bits_val_def bit_horner_sum_bit_word_iff rev_nth)

lemma sixes_3:
  "sixes (msb_bits a @ msb_bits b @ msb_bits c @ bs) = b64_sextets [a, b, c] @ sixes bs"
proof -
  have "sixes (msb_bits a @ msb_bits b @ msb_bits c @ bs) =
    [bits_val (map (bit a) [7, 6, 5, 4, 3, 2]), bits_val (map (bit a) [1, 0] @ map (bit b) [7, 6, 5, 4]),
     bits_val (map (bit b) [3, 2, 1, 0] @ map (bit c) [7, 6]), bits_val (map (bit c) [5, 4, 3, 2, 1, 0])] @ sixes bs"
    by (subst sixes.simps, simp add: msb_bits_def, subst sixes.simps, simp, subst sixes.simps, simp, subst sixes.simps, simp)
  moreover have "bits_val (map (bit a) [7, 6, 5, 4, 3, 2]) = drop_bit 2 a"
    "bits_val (map (bit a) [1, 0] @ map (bit b) [7, 6, 5, 4]) = drop_bit 4 b OR (push_bit 4 a AND 0x3F)"
    "bits_val (map (bit b) [3, 2, 1, 0] @ map (bit c) [7, 6]) = drop_bit 6 c OR (push_bit 2 b AND 0x3F)"
    "bits_val (map (bit c) [5, 4, 3, 2, 1, 0]) = c AND 0x3F"
    by (rule byte_eqI; auto simp: bits_val_bit byte_bits byte_bit_high nth_Cons')+
  ultimately show ?thesis by simp
qed

lemma sixes_2: "sixes (msb_bits a @ msb_bits b) = take 3 (b64_sextets [a, b])"
proof -
  have "sixes (msb_bits a @ msb_bits b) =
    [bits_val (map (bit a) [7, 6, 5, 4, 3, 2]), bits_val (map (bit a) [1, 0] @ map (bit b) [7, 6, 5, 4]),
     bits_val (map (bit b) [3, 2, 1, 0] @ [False, False])]"
    by (subst sixes.simps, simp add: msb_bits_def, subst sixes.simps, simp, subst sixes.simps, simp add: numeral_eq_Suc, subst sixes.simps, simp)
  moreover have "bits_val (map (bit a) [7, 6, 5, 4, 3, 2]) = drop_bit 2 a"
    "bits_val (map (bit a) [1, 0] @ map (bit b) [7, 6, 5, 4]) = drop_bit 4 b OR (push_bit 4 a AND 0x3F)"
    "bits_val (map (bit b) [3, 2, 1, 0] @ [False, False]) = push_bit 2 b AND 0x3F"
    by (rule byte_eqI; auto simp: bits_val_bit byte_bits byte_bit_high nth_Cons')+
  ultimately show ?thesis by simp
qed

lemma sixes_1: "sixes (msb_bits a) = take 2 (b64_sextets [a])"
proof -
  have "sixes (msb_bits a) =
    [bits_val (map (bit a) [7, 6, 5, 4, 3, 2]), bits_val (map (bit a) [1, 0] @ [False, False, False, False])]"
    by (subst sixes.simps, simp add: msb_bits_def, subst sixes.simps, simp add: numeral_eq_Suc, subst sixes.simps, simp)
  moreover have "bits_val (map (bit a) [7, 6, 5, 4, 3, 2]) = drop_bit 2 a"
    "bits_val (map (bit a) [1, 0] @ [False, False, False, False]) = push_bit 4 a AND 0x3F"
    by (rule byte_eqI; auto simp: bits_val_bit byte_bits byte_bit_high nth_Cons')+
  ultimately show ?thesis by simp
qed

lemma replicate_2: "replicate 2 x = [x, x]" "replicate 1 x = [x]"
  by (simp_all add: numeral_eq_Suc)

lemma chars_rfc4648: "b64_chars al src = rfc4648 al src"
proof (induction al src rule: b64_chars.induct)
  case (1 al a b c src)
  have "sixes (concat (map msb_bits (a # b # c # src))) = b64_sextets [a, b, c] @ sixes (concat (map msb_bits src))"
    by (simp only: list.map concat.simps sixes_3)
  then show ?case using 1 unfolding rfc4648_def Let_def by simp
next
  case (2 al)
  then show ?case by (simp add: rfc4648_def sixes.simps)
next
  case (3 al v)
  then show ?case by (simp add: rfc4648_def sixes_1 b64_pad_def take_Cons' list_update_code replicate_2)
next
  case (4 al v vb)
  then show ?case by (simp add: rfc4648_def sixes_2 b64_pad_def take_Cons' replicate_2)
qed

section \<open>Decoding what was encoded\<close>

lemma alphabet_char:
  "b64_alphabet al \<Longrightarrow> unat v < 64 \<Longrightarrow> al ! unat v \<noteq> 61 \<and> enc_decodeMap (NewEncoding al) ! unat (al ! unat v) = v \<and> v \<noteq> 0xFF"
proof -
  assume al: "b64_alphabet al" and v: "unat v < 64"
  then have "al ! unat v \<in> set al" by (intro nth_mem) (simp add: b64_alphabet_def)
  then have "al ! unat v \<noteq> 61" using al by (metis b64_alphabet_def)
  moreover have "v \<noteq> 0xFF" using v by auto
  ultimately show ?thesis using al v decodeMap_hit [of al "unat v"] by (simp add: b64_alphabet_def)
qed

lemma dbufloop_chars:
  "b64_alphabet al \<Longrightarrow> (\<And>v. v \<in> set vs \<Longrightarrow> unat v < 64) \<Longrightarrow>
   b64_dbufloop (NewEncoding al) final s3 j (map (\<lambda>v. al ! unat v) vs @ xs) =
     (case b64_dbufloop (NewEncoding al) final s3 (j + length vs) xs of Inl k \<Rightarrow> Inl k | Inr (us, end) \<Rightarrow> Inr (vs @ us, end))"
proof (induction vs arbitrary: j)
  case (Cons v vs)
  then show ?case using alphabet_char [of al v] by (auto simp: Let_def split: sum.splits)
qed (auto split: sum.splits)

lemma slice_put_off:
  "length pre = 3 * k \<Longrightarrow> j < length rest \<Longrightarrow> slice_put (pre @ rest) (int k * 3 + int j) v = Some (pre @ rest[j := v])"
  by (simp add: slice_put_def list_update_append nat_add_distrib nat_mult_distrib)

lemma pack_at:
  assumes "length pre = 3 * k"
  shows "b64_pack (pre @ x # y # z # rest) (int k) [p, q, r, s] =
      Some (pre @ (push_bit 2 p OR drop_bit 4 q) # (push_bit 4 q OR drop_bit 2 r) # (push_bit 6 r OR s) # rest)"
    "b64_pack (pre @ x # y # rest) (int k) [p, q, r] =
      Some (pre @ (push_bit 2 p OR drop_bit 4 q) # (push_bit 4 q OR drop_bit 2 r) # rest)"
    "b64_pack (pre @ x # rest) (int k) [p, q] = Some (pre @ (push_bit 2 p OR drop_bit 4 q) # rest)"
  using slice_put_off [OF assms, of 0] slice_put_off [OF assms, of 1] slice_put_off [OF assms, of 2]
  by simp_all

lemma pack_sextets:
  assumes "length pre = 3 * k"
  shows "b64_pack (pre @ x # y # z # rest) (int k) (b64_sextets [a, b, c]) = Some (pre @ a # b # c # rest)"
    "b64_pack (pre @ x # y # rest) (int k) (take 3 (b64_sextets [a, b])) = Some (pre @ a # b # rest)"
    "b64_pack (pre @ x # rest) (int k) (take 2 (b64_sextets [a])) = Some (pre @ a # rest)"
proof -
  have t: "take 3 [p, q, r, s] = [p, q, r]" "take 2 [p, q, r, s] = [p, q]" for p q r s :: byte by (simp_all add: take_Cons')
  show "b64_pack (pre @ x # y # z # rest) (int k) (b64_sextets [a, b, c]) = Some (pre @ a # b # c # rest)"
    "b64_pack (pre @ x # y # rest) (int k) (take 3 (b64_sextets [a, b])) = Some (pre @ a # b # rest)"
    "b64_pack (pre @ x # rest) (int k) (take 2 (b64_sextets [a])) = Some (pre @ a # rest)"
    by (simp_all only: b64_sextets.simps t pack_at [OF assms] b64_bytes)
qed

lemma dbufloop_sextets:
  assumes "b64_alphabet al"
  shows "b64_dbufloop (NewEncoding al) final s3 0 (map (\<lambda>v. al ! unat v) (b64_sextets src)) = Inr (b64_sextets src, False)"
    "b64_dbufloop (NewEncoding al) True 61 0 (b64_pad 2 (map (\<lambda>v. al ! unat v) (b64_sextets [a, b]))) = Inr (take 3 (b64_sextets [a, b]), True)"
    "b64_dbufloop (NewEncoding al) True 61 0 (b64_pad 1 (map (\<lambda>v. al ! unat v) (b64_sextets [a]))) = Inr (take 2 (b64_sextets [a]), True)"
proof -
  have less: "unat v < 64" if "v \<in> set (take n (b64_sextets xs))" for v n xs
    using that b64_sextets_less in_set_takeD by fast
  show "b64_dbufloop (NewEncoding al) final s3 0 (map (\<lambda>v. al ! unat v) (b64_sextets src)) = Inr (b64_sextets src, False)"
    using dbufloop_chars [OF assms, of "b64_sextets src" final s3 0 "[]"] b64_sextets_less by simp
  have "b64_pad 2 (map (\<lambda>v. al ! unat v) (b64_sextets [a, b])) = map (\<lambda>v. al ! unat v) (take 3 (b64_sextets [a, b])) @ [61]"
    by (simp add: b64_pad_def take_Cons')
  then show "b64_dbufloop (NewEncoding al) True 61 0 (b64_pad 2 (map (\<lambda>v. al ! unat v) (b64_sextets [a, b]))) = Inr (take 3 (b64_sextets [a, b]), True)"
    using dbufloop_chars [OF assms, of "take 3 (b64_sextets [a, b])" True 61 0 "[61]"] less by (simp add: b64_sextets_length del: b64_sextets.simps)
  have "b64_pad 1 (map (\<lambda>v. al ! unat v) (b64_sextets [a])) = map (\<lambda>v. al ! unat v) (take 2 (b64_sextets [a])) @ [61, 61]"
    by (simp add: b64_pad_def take_Cons')
  then show "b64_dbufloop (NewEncoding al) True 61 0 (b64_pad 1 (map (\<lambda>v. al ! unat v) (b64_sextets [a]))) = Inr (take 2 (b64_sextets [a]), True)"
    using dbufloop_chars [OF assms, of "take 2 (b64_sextets [a])" True 61 0 "[61, 61]"] less by (simp add: b64_sextets_length del: b64_sextets.simps)
qed

lemma list4: "length xs = 4 \<Longrightarrow> xs = [xs ! 0, xs ! 1, xs ! 2, xs ! 3]"
  by (auto simp: numeral_eq_Suc length_Suc_conv)

lemma b64_decode_quantum:
  assumes "length q = 4"
  shows "b64_decode enc dst (q @ src) i n =
    (case b64_dbufloop enc (length src < 4) (q ! 3) 0 q of
       Inl j \<Rightarrow> Some (dst, n, False, Some (CorruptInputError (i * 4 + int j)))
     | Inr (dbuf, end) \<Rightarrow> do {
         dst \<leftarrow> b64_pack dst i dbuf;
         let n = n + length dbuf - 1;
         if end then Some (dst, n, True, None) else b64_decode enc dst src (i + 1) n })"
proof -
  obtain a b c d where "q = [a, b, c, d]" using list4 [OF assms] by blast
  then show ?thesis by simp
qed

lemma DecodedLen_simps [simp]: "DecodedLen 0 = 0" "DecodedLen 4 = 3" "DecodedLen (4 + n) = 3 + DecodedLen n"
proof -
  have "(4 + n) div 4 = Suc (n div 4)" by presburger
  then show "DecodedLen (4 + n) = 3 + DecodedLen n" by (simp add: DecodedLen_def)
qed (simp_all add: DecodedLen_def)

lemma decode_chars:
  assumes "b64_alphabet al"
  shows "length pre = 3 * k \<Longrightarrow> DecodedLen (EncodedLen (length src)) \<le> length rest \<Longrightarrow>
    b64_decode (NewEncoding al) (pre @ rest) (b64_chars al src) (int k) n =
      Some (pre @ src @ drop (length src) rest, n + length src, length src mod 3 \<noteq> 0, None)"
  using assms
proof (induction al src arbitrary: pre k rest n rule: b64_chars.induct)
  case (1 al a b c src)
  have "3 \<le> length rest" using 1(3) by simp
  then obtain x y z rest' where rest: "rest = x # y # z # rest'" by (auto simp: numeral_eq_Suc Suc_le_length_iff)
  have "b64_decode (NewEncoding al) ((pre @ [a, b, c]) @ rest') (b64_chars al src) (int (Suc k)) (n + 3) =
      Some ((pre @ [a, b, c]) @ src @ drop (length src) rest', n + 3 + length src, length src mod 3 \<noteq> 0, None)"
    using 1(2-4) rest by (intro 1(1)) simp_all
  then show ?case
    using b64_decode_quantum [of "map (\<lambda>v. al ! unat v) (b64_sextets [a, b, c])" "NewEncoding al" "pre @ rest"]
      dbufloop_sextets(1) [OF 1(4)] pack_sextets(1) [OF 1(2)]
    by (simp add: rest b64_sextets_length Let_def add.commute add.left_commute del: b64_sextets.simps)
next
  case (3 al a)
  then obtain x rest' where rest: "rest = x # rest'" by (cases rest) auto
  show ?case
    using b64_decode_quantum [of "b64_pad 1 (map (\<lambda>v. al ! unat v) (b64_sextets [a]))" "NewEncoding al" "pre @ rest" "[]"]
      dbufloop_sextets(3) [OF 3(3)] pack_sextets(3) [OF 3(1)]
    by (simp add: rest b64_sextets_length b64_pad_def Let_def del: b64_sextets.simps)
next
  case (4 al a b)
  then have "2 \<le> length rest" by simp
  then obtain x y rest' where rest: "rest = x # y # rest'" by (auto simp: numeral_eq_Suc Suc_le_length_iff)
  show ?case
    using b64_decode_quantum [of "b64_pad 2 (map (\<lambda>v. al ! unat v) (b64_sextets [a, b]))" "NewEncoding al" "pre @ rest" "[]"]
      dbufloop_sextets(2) [OF 4(3)] pack_sextets(2) [OF 4(1)]
    by (simp add: rest b64_sextets_length b64_pad_def Let_def del: b64_sextets.simps)
qed simp

section \<open>Properties\<close>

lemma DecodedLen_EncodedLen: "length src \<le> DecodedLen (EncodedLen (length src))"
  unfolding EncodedLen_def DecodedLen_def by simp



end
