(* ===== verification/Encoding_Base64_Stream.thy ===== *)
theory Encoding_Base64_Stream
  imports Encoding_Base64
begin

text \<open>
  The stream encoder of encoding/base64/base64.go. The writer below it is a parameter \<open>wr\<close>: \<open>wr w b\<close> is the state of
  the writer after \<open>Write(b)\<close> in the state \<open>w\<close>, and the error that the call returns, if any.
\<close>

section \<open>The code\<close>

record ('w, 'e) b64_encoder =
  be_err :: "'e option"
  be_enc :: Encoding
  be_w :: 'w
  be_buf :: "byte list"
  be_nbuf :: nat
  be_out :: "byte list"

definition b64_NewEncoder :: "Encoding \<Rightarrow> 'w \<Rightarrow> ('w, 'e) b64_encoder" where
  "b64_NewEncoder enc w =
    \<lparr>be_err = None, be_enc = enc, be_w = w, be_buf = replicate 3 0, be_nbuf = 0, be_out = replicate 1024 0\<rparr>"

text \<open>\<open>Encode\<close> into \<open>out\<close>, and \<open>Write\<close> of the first \<open>k\<close> bytes of it.\<close>

definition b64_emit ::
  "('w \<Rightarrow> byte list \<Rightarrow> 'w \<times> 'e option) \<Rightarrow> ('w, 'e) b64_encoder \<Rightarrow> byte list \<Rightarrow> nat \<Rightarrow> ('w, 'e) b64_encoder option" where
  "b64_emit wr e src k = do {
     out \<leftarrow> b64_Encode (be_enc e) (be_out e) src;
     let (w, err) = wr (be_w e) (take k out);
     Some (e\<lparr>be_out := out, be_w := w, be_err := err\<rparr>) }"

text \<open>The loop of the leading fringe, which counts in \<open>i\<close>.\<close>

fun b64_fringe :: "('w, 'e) b64_encoder \<Rightarrow> byte list \<Rightarrow> nat \<Rightarrow> ('w, 'e) b64_encoder \<times> byte list \<times> nat" where
  "b64_fringe e [] i = (e, [], i)"
| "b64_fringe e (x # p) i =
    (if be_nbuf e < 3 then b64_fringe (e\<lparr>be_buf := (be_buf e)[be_nbuf e := x], be_nbuf := be_nbuf e + 1\<rparr>) p (i + 1)
     else (e, x # p, i))"

text \<open>The loop over large interior chunks; \<open>e.out\<close> has 1024 bytes. It stops with the error of a call of \<open>Write\<close>.\<close>

definition b64_chunk :: "byte list \<Rightarrow> nat" where
  "b64_chunk p = (let nn = 1024 div 4 * 3; nn = (if nn > length p then length p else nn) in nn - nn mod 3)"

lemma b64_chunk: "3 \<le> length p \<Longrightarrow> 3 \<le> b64_chunk p \<and> b64_chunk p \<le> length p \<and> b64_chunk p \<le> 768 \<and> b64_chunk p mod 3 = 0"
  unfolding b64_chunk_def Let_def by (cases "768 > length p") (simp_all, presburger+)

lemma b64_chunk_drop: "3 \<le> length p \<Longrightarrow> length p - b64_chunk p < length p"
  using b64_chunk [of p] by linarith

function b64_interior ::
  "('w \<Rightarrow> byte list \<Rightarrow> 'w \<times> 'e option) \<Rightarrow> ('w, 'e) b64_encoder \<Rightarrow> byte list \<Rightarrow> nat \<Rightarrow>
   (('w, 'e) b64_encoder \<times> byte list \<times> nat) option" where
  "b64_interior wr e p n =
    (if length p < 3 then Some (e, p, n)
     else let nn = b64_chunk p
          in do {
            e \<leftarrow> b64_emit wr e (take nn p) (nn div 3 * 4);
            if be_err e \<noteq> None then Some (e, p, n) else b64_interior wr e (drop nn p) (n + nn) })"
  by auto
termination
  by (relation "measure (\<lambda>(wr, e, p, n). length p)") (auto simp: not_less b64_chunk_drop)

declare b64_interior.simps [simp del]

text \<open>The interior and the trailing fringe.\<close>

definition b64_rest ::
  "('w \<Rightarrow> byte list \<Rightarrow> 'w \<times> 'e option) \<Rightarrow> ('w, 'e) b64_encoder \<Rightarrow> byte list \<Rightarrow> nat \<Rightarrow>
   (('w, 'e) b64_encoder \<times> nat \<times> 'e option) option" where
  "b64_rest wr e p n = do {
     (e, p, n) \<leftarrow> b64_interior wr e p n;
     if be_err e \<noteq> None then Some (e, n, be_err e)
     else Some (e\<lparr>be_buf := p @ drop (length p) (be_buf e), be_nbuf := length p\<rparr>, n + length p, None) }"

definition b64_encoder_Write ::
  "('w \<Rightarrow> byte list \<Rightarrow> 'w \<times> 'e option) \<Rightarrow> ('w, 'e) b64_encoder \<Rightarrow> byte list \<Rightarrow>
   (('w, 'e) b64_encoder \<times> nat \<times> 'e option) option" where
  "b64_encoder_Write wr e p =
    (if be_err e \<noteq> None then Some (e, 0, be_err e)
     else if be_nbuf e > 0 then
       (case b64_fringe e p 0 of (e, p, n) \<Rightarrow>
          if be_nbuf e < 3 then Some (e, n, None)
          else do {
            e \<leftarrow> b64_emit wr e (be_buf e) 4;
            if be_err e \<noteq> None then Some (e, n, be_err e) else b64_rest wr (e\<lparr>be_nbuf := 0\<rparr>) p n })
     else b64_rest wr e p 0)"

definition b64_encoder_Close ::
  "('w \<Rightarrow> byte list \<Rightarrow> 'w \<times> 'e option) \<Rightarrow> ('w, 'e) b64_encoder \<Rightarrow> (('w, 'e) b64_encoder \<times> 'e option) option" where
  "b64_encoder_Close wr e =
    (if be_err e = None \<and> be_nbuf e > 0 then do {
       e \<leftarrow> b64_emit wr e (take (be_nbuf e) (be_buf e)) 4;
       Some (e\<lparr>be_nbuf := 0\<rparr>, be_err e) }
     else Some (e, be_err e))"

section \<open>Correctness\<close>

text \<open>A writer that keeps all that is written and never fails.\<close>

definition keep_all :: "byte list \<Rightarrow> byte list \<Rightarrow> byte list \<times> 'e option" where
  "keep_all w b = (w @ b, None)"

lemma b64_chars_append: "length xs mod 3 = 0 \<Longrightarrow> b64_chars al (xs @ ys) = b64_chars al xs @ b64_chars al ys"
proof (induction al xs rule: b64_chars.induct)
  case (1 al a b c src)
  then show ?case by (simp add: mod_Suc split: if_splits)
qed simp_all

text \<open>
  The state after \<open>m\<close> has been written: the encoding of the whole groups of three bytes has been passed on, and the
  other bytes are in \<open>buf\<close>.
\<close>

definition b64_rep :: "byte list \<Rightarrow> (byte list, 'e) b64_encoder \<Rightarrow> byte list \<Rightarrow> bool" where
  "b64_rep al e m \<longleftrightarrow> be_err e = None \<and> be_enc e = NewEncoding al \<and> length (be_out e) = 1024 \<and> length (be_buf e) = 3 \<and>
     be_nbuf e < 3 \<and> (\<exists>xs. m = xs @ take (be_nbuf e) (be_buf e) \<and> length xs mod 3 = 0 \<and> be_w e = b64_chars al xs)"

lemma EncodedLen_le: "n \<le> 768 \<Longrightarrow> EncodedLen n \<le> 1024"
  by (simp add: EncodedLen_def)

lemma b64_emit_keep:
  assumes "length al = 64" "be_enc e = NewEncoding al" "length (be_out e) = 1024" "be_err e = None" "length src \<le> 768"
  shows "\<exists>out. b64_emit keep_all e src (EncodedLen (length src)) =
    Some (e\<lparr>be_out := out, be_w := be_w e @ b64_chars al src\<rparr>) \<and> length out = 1024"
  using Encode_chars [of al src "be_out e"] EncodedLen_le [OF assms(5)] assms
  by (intro exI [of _ "b64_chars al src @ drop (EncodedLen (length src)) (be_out e)"])
    (cases e, simp add: b64_emit_def keep_all_def length_b64_chars)

lemma EncodedLen_whole: "n mod 3 = 0 \<Longrightarrow> EncodedLen n = n div 3 * 4"
proof -
  assume "n mod 3 = 0"
  then obtain k where n: "n = 3 * k" by (metis dvdE mod_0_imp_dvd)
  have "(3 * k + 2) div 3 = k" by (simp add: div_add1_eq)
  then show ?thesis by (simp add: EncodedLen_def n)
qed

lemma b64_interior_keep:
  assumes "length al = 64" "be_enc e = NewEncoding al" "length (be_out e) = 1024" "be_err e = None"
  shows "\<exists>out xs ys. b64_interior keep_all e p n = Some (e\<lparr>be_out := out, be_w := be_w e @ b64_chars al xs\<rparr>, ys, n + length xs) \<and>
    length out = 1024 \<and> p = xs @ ys \<and> length xs mod 3 = 0 \<and> length ys < 3"
  using assms(2-4)
proof (induction p arbitrary: e n rule: length_induct)
  case (1 p)
  show ?case
  proof (cases "length p < 3")
    case True
    then show ?thesis using 1 by (intro exI [of _ "be_out e"] exI [of _ "[]"] exI [of _ p]) (simp add: b64_interior.simps)
  next
    case False
    then have c: "3 \<le> b64_chunk p" "b64_chunk p \<le> length p" "b64_chunk p \<le> 768" "b64_chunk p mod 3 = 0"
      using b64_chunk [of p] by auto
    let ?c = "take (b64_chunk p) p"
    have l: "length ?c = b64_chunk p" using c(2) by (simp add: min_absorb2)
    obtain out where e1: "b64_emit keep_all e ?c (b64_chunk p div 3 * 4) = Some (e\<lparr>be_out := out, be_w := be_w e @ b64_chars al ?c\<rparr>)"
      and "length out = 1024"
      using b64_emit_keep [OF assms(1) 1(2-4), of ?c] c EncodedLen_whole [OF c(4)] unfolding l by auto
    then obtain out' xs ys where
      "b64_interior keep_all (e\<lparr>be_out := out, be_w := be_w e @ b64_chars al ?c\<rparr>) (drop (b64_chunk p) p) (n + b64_chunk p) =
        Some (e\<lparr>be_out := out', be_w := (be_w e @ b64_chars al ?c) @ b64_chars al xs\<rparr>, ys, n + b64_chunk p + length xs)"
      "length out' = 1024" "drop (b64_chunk p) p = xs @ ys" "length xs mod 3 = 0" "length ys < 3"
      using 1(1) [rule_format, of "drop (b64_chunk p) p" "e\<lparr>be_out := out, be_w := be_w e @ b64_chars al ?c\<rparr>" "n + b64_chunk p"]
        1(2,4) b64_chunk_drop [of p] False by auto
    note i = this
    have p: "p = (?c @ xs) @ ys" using i(3) append_take_drop_id [of "b64_chunk p" p] by simp
    have m: "length (?c @ xs) mod 3 = 0" using i(4) c(4) l by (metis dvd_add length_append mod_eq_0_iff_dvd)
    have ch: "b64_chars al (?c @ xs) = b64_chars al ?c @ b64_chars al xs" using b64_chars_append l c(4) by simp
    have "b64_interior keep_all e p n = Some (e\<lparr>be_out := out', be_w := be_w e @ b64_chars al (?c @ xs)\<rparr>, ys, n + length (?c @ xs))"
      using i(1) e1 False 1(4) l unfolding ch by (subst b64_interior.simps) (simp add: Let_def)
    then show ?thesis using i(2,5) p m
      by (intro exI [of _ out'] exI [of _ "?c @ xs"] exI [of _ ys] conjI)
  qed
qed

lemma b64_rest_keep:
  assumes al: "length al = 64" and e: "be_enc e = NewEncoding al" "length (be_out e) = 1024" "be_err e = None" "length (be_buf e) = 3"
    and w: "be_w e = b64_chars al xs" "length xs mod 3 = 0"
  shows "\<exists>e'. b64_rest keep_all e p n = Some (e', n + length p, None) \<and> b64_rep al e' (xs @ p)"
proof -
  obtain out us vs where i: "b64_interior keep_all e p n = Some (e\<lparr>be_out := out, be_w := be_w e @ b64_chars al us\<rparr>, vs, n + length us)"
    "length out = 1024" "p = us @ vs" "length us mod 3 = 0" "length vs < 3"
    using b64_interior_keep [OF al e(1-3), of p n] by (elim exE conjE)
  have "length (xs @ us) mod 3 = 0" using w(2) i(4) by (metis dvd_add length_append mod_eq_0_iff_dvd)
  moreover have "b64_chars al (xs @ us) = b64_chars al xs @ b64_chars al us" by (rule b64_chars_append [OF w(2)])
  ultimately have "b64_rep al (e\<lparr>be_out := out, be_w := be_w e @ b64_chars al us, be_buf := vs @ drop (length vs) (be_buf e), be_nbuf := length vs\<rparr>) (xs @ p)"
    using e w(1) i(2,3,5) by (auto simp: b64_rep_def intro!: exI [of _ "xs @ us"])
  then show ?thesis using i e(3) by (simp add: b64_rest_def)
qed

lemma b64_fringe_spec:
  assumes "length (be_buf e) = 3" "be_nbuf e \<le> 3"
  shows "\<exists>k buf. b64_fringe e p i = (e\<lparr>be_buf := buf, be_nbuf := be_nbuf e + k\<rparr>, drop k p, i + k) \<and> length buf = 3 \<and>
    take (be_nbuf e + k) buf = take (be_nbuf e) (be_buf e) @ take k p \<and> k \<le> length p \<and> be_nbuf e + k \<le> 3 \<and>
    (be_nbuf e + k = 3 \<or> k = length p)"
  using assms
proof (induction e p i rule: b64_fringe.induct)
  case (1 e i)
  then show ?case by (intro exI [of _ 0] exI [of _ "be_buf e"]) simp
next
  case (2 e x p i)
  show ?case
  proof (cases "be_nbuf e < 3")
    case True
    let ?e = "e\<lparr>be_buf := (be_buf e)[be_nbuf e := x], be_nbuf := be_nbuf e + 1\<rparr>"
    obtain k buf where k: "b64_fringe ?e p (i + 1) = (?e\<lparr>be_buf := buf, be_nbuf := be_nbuf ?e + k\<rparr>, drop k p, i + 1 + k)" "length buf = 3"
      "take (be_nbuf ?e + k) buf = take (be_nbuf ?e) (be_buf ?e) @ take k p" "k \<le> length p" "be_nbuf ?e + k \<le> 3"
      "be_nbuf ?e + k = 3 \<or> k = length p"
      using 2(1) [OF True] 2(2) True by auto
    have "take (be_nbuf e + Suc k) buf = take (be_nbuf e) (be_buf e) @ take (Suc k) (x # p)"
      using k(3) 2(2) True by (simp add: take_Suc_conv_app_nth)
    then show ?thesis using k True by (intro exI [of _ "Suc k"] exI [of _ buf]) auto
  next
    case False
    then show ?thesis using 2 by (intro exI [of _ 0] exI [of _ "be_buf e"]) simp
  qed
qed

lemma b64_Write_keep:
  assumes al: "length al = 64" and rep: "b64_rep al e m"
  shows "\<exists>e'. b64_encoder_Write keep_all e p = Some (e', length p, None) \<and> b64_rep al e' (m @ p)"
proof -
  obtain xs where r: "be_err e = None" "be_enc e = NewEncoding al" "length (be_out e) = 1024" "length (be_buf e) = 3" "be_nbuf e < 3"
    "m = xs @ take (be_nbuf e) (be_buf e)" "length xs mod 3 = 0" "be_w e = b64_chars al xs" using rep by (auto simp: b64_rep_def)
  show ?thesis
  proof (cases "be_nbuf e = 0")
    case True
    then show ?thesis using b64_rest_keep [OF al r(2,3,1,4,8,7), of p 0] r(1,6) by (simp add: b64_encoder_Write_def)
  next
    case False
    obtain k buf where k: "b64_fringe e p 0 = (e\<lparr>be_buf := buf, be_nbuf := be_nbuf e + k\<rparr>, drop k p, k)" "length buf = 3"
      "take (be_nbuf e + k) buf = take (be_nbuf e) (be_buf e) @ take k p" "k \<le> length p" "be_nbuf e + k \<le> 3"
      "be_nbuf e + k = 3 \<or> k = length p" using b64_fringe_spec [OF r(4), of p 0] r(5) by auto
    show ?thesis
    proof (cases "be_nbuf e + k = 3")
      case True
      let ?e = "e\<lparr>be_buf := buf, be_nbuf := 3\<rparr>"
      obtain out where o: "b64_emit keep_all ?e buf 4 = Some (?e\<lparr>be_out := out, be_w := be_w ?e @ b64_chars al buf\<rparr>)" "length out = 1024"
        using b64_emit_keep [OF al, of ?e buf] r(1-3) k(2) by (auto simp: EncodedLen_def)
      have b: "buf = take (be_nbuf e) (be_buf e) @ take k p" using k(2,3) True by simp
      have ch: "b64_chars al (xs @ buf) = b64_chars al xs @ b64_chars al buf" by (rule b64_chars_append [OF r(7)])
      have "length (xs @ buf) mod 3 = 0" using r(7) k(2) by simp
      then obtain e' where "b64_rest keep_all (?e\<lparr>be_out := out, be_w := be_w ?e @ b64_chars al buf, be_nbuf := 0\<rparr>) (drop k p) k = Some (e', k + length (drop k p), None)"
        "b64_rep al e' ((xs @ buf) @ drop k p)"
        using b64_rest_keep [OF al, of "?e\<lparr>be_out := out, be_w := be_w ?e @ b64_chars al buf, be_nbuf := 0\<rparr>" "xs @ buf" "drop k p" k] r k(2) o(2) ch
        by auto
      moreover have "(xs @ buf) @ drop k p = m @ p" using r(6) b by simp
      ultimately show ?thesis using False True k(1,4) o(1) r(1)
        by (intro exI [of _ e'] conjI) (simp add: b64_encoder_Write_def, simp only:)
    next
      case False
      then have "b64_rep al (e\<lparr>be_buf := buf, be_nbuf := be_nbuf e + k\<rparr>) (m @ p)"
        using r k by (auto simp: b64_rep_def intro!: exI [of _ xs])
      then show ?thesis using False \<open>be_nbuf e \<noteq> 0\<close> k r(1) by (simp add: b64_encoder_Write_def)
    qed
  qed
qed

lemma b64_Close_keep:
  assumes al: "length al = 64" and rep: "b64_rep al e m"
  shows "\<exists>e'. b64_encoder_Close keep_all e = Some (e', None) \<and> be_w e' = b64_chars al m"
proof -
  obtain xs where r: "be_err e = None" "be_enc e = NewEncoding al" "length (be_out e) = 1024" "length (be_buf e) = 3" "be_nbuf e < 3"
    "m = xs @ take (be_nbuf e) (be_buf e)" "length xs mod 3 = 0" "be_w e = b64_chars al xs" using rep by (auto simp: b64_rep_def)
  let ?t = "take (be_nbuf e) (be_buf e)"
  have ch: "b64_chars al m = b64_chars al xs @ b64_chars al ?t" unfolding r(6) by (rule b64_chars_append [OF r(7)])
  show ?thesis
  proof (cases "be_nbuf e = 0")
    case True
    then show ?thesis using r ch by (simp add: b64_encoder_Close_def)
  next
    case False
    then have "length ?t = 1 \<or> length ?t = 2" using r(4,5) by auto
    then have "EncodedLen (length ?t) = 4" "length ?t \<le> 768" by (auto simp: EncodedLen_def)
    then obtain out where "b64_emit keep_all e ?t 4 = Some (e\<lparr>be_out := out, be_w := be_w e @ b64_chars al ?t\<rparr>)"
      using b64_emit_keep [OF al r(2,3,1), of ?t] by (auto simp del: length_take)
    then show ?thesis using False r(1,8) ch by (simp add: b64_encoder_Close_def)
  qed
qed

text \<open>A sequence of calls of \<open>Write\<close>, which counts the bytes that the calls report, and \<open>Close\<close>.\<close>

fun b64_session ::
  "('w \<Rightarrow> byte list \<Rightarrow> 'w \<times> 'e option) \<Rightarrow> ('w, 'e) b64_encoder \<Rightarrow> byte list list \<Rightarrow> nat \<Rightarrow> ('w \<times> nat \<times> 'e option) option" where
  "b64_session wr e [] n = do { (e, err) \<leftarrow> b64_encoder_Close wr e; Some (be_w e, n, err) }"
| "b64_session wr e (p # ps) n = do {
     (e, k, err) \<leftarrow> b64_encoder_Write wr e p;
     if err \<noteq> None then Some (be_w e, n + k, err) else b64_session wr e ps (n + k) }"

text \<open>
  C35. The stream encoder: however the data is cut into calls of \<open>Write\<close>, after \<open>Close\<close> a writer that does not
  fail has received exactly what \<open>EncodeToString\<close> returns for all the data at once, every byte has been reported as
  written, and there is no error.
\<close>

theorem base64_stream:
  assumes "al = encodeStd \<or> al = encodeURL \<or> b64_alphabet al"
  shows "b64_session keep_all (b64_NewEncoder (NewEncoding al) []) ps 0 =
    Some (rfc4648 al (concat ps), length (concat ps), None :: 'e option)"
proof -
  have al: "length al = 64" using assms b64_alphabets by (auto simp: b64_alphabet_def)
  have "b64_session keep_all e ps n = Some (rfc4648 al (m @ concat ps), n + length (concat ps), None)"
    if "b64_rep al e m" for e :: "(byte list, 'e) b64_encoder" and m n
    using that
  proof (induction ps arbitrary: e m n)
    case Nil
    then show ?case using b64_Close_keep [OF al Nil.prems] by (auto simp: chars_rfc4648)
  next
    case (Cons p ps)
    obtain e' where "b64_encoder_Write keep_all e p = Some (e', length p, None)" "b64_rep al e' (m @ p)"
      using b64_Write_keep [OF al Cons.prems, of p] by (elim exE conjE)
    then show ?case using Cons.IH [of e' "m @ p" "n + length p"] by simp
  qed
  moreover have "b64_rep al (b64_NewEncoder (NewEncoding al) [] :: (byte list, 'e) b64_encoder) []"
    by (simp add: b64_rep_def b64_NewEncoder_def)
  ultimately show ?thesis by fastforce
qed

theorem base64_stream_witness:
  "b64_session keep_all (b64_NewEncoder StdEncoding []) [str ''l'', str ''ight '', str ''w''] 0 =
     Some (rfc4648 encodeStd (str ''light w''), 7, None :: unit option)"
  using base64_stream [of encodeStd "[str ''l'', str ''ight '', str ''w'']", where 'e = unit] by (simp add: StdEncoding_def)

end
