(* ===== verification/Encoding_Ascii85.thy ===== *)
theory Encoding_Ascii85
  imports Go_Bytes
begin

text \<open>
  encoding/ascii85/ascii85.go: \<open>Encode\<close> and \<open>Decode\<close>. A write outside \<open>dst\<close> is a panic, \<open>None\<close>. The loop of \<open>Encode\<close>
  terminates because each round shortens \<open>dst\<close>, even the one that does not shorten \<open>src\<close>.
\<close>

unbundle bit_operations_syntax

section \<open>The code\<close>

text \<open>The switch on \<open>len(src)\<close>: the first four bytes as a big-endian word.\<close>

fun a85_word :: "byte list \<Rightarrow> uint32" where
  "a85_word (a # b # c # d # _) = ucast d OR push_bit 8 (ucast c) OR push_bit 16 (ucast b) OR push_bit 24 (ucast a)"
| "a85_word [a, b, c] = push_bit 8 (ucast c) OR push_bit 16 (ucast b) OR push_bit 24 (ucast a)"
| "a85_word [a, b] = push_bit 16 (ucast b) OR push_bit 24 (ucast a)"
| "a85_word [a] = push_bit 24 (ucast a)"
| "a85_word [] = 0"

text \<open>The loop that fills \<open>n\<close> digits, from the last one; 33 is the character !.\<close>

fun a85_digits :: "nat \<Rightarrow> uint32 \<Rightarrow> byte list" where
  "a85_digits 0 v = []"
| "a85_digits (Suc n) v = a85_digits n (v div 85) @ [33 + ucast (v mod 85)]"

lemma a85_digits_length [simp]: "length (a85_digits n v) = n"
  by (induction n v rule: a85_digits.induct) simp_all

text \<open>The new contents of \<open>dst\<close> and the number of bytes written; 122 is the character z.\<close>

function a85_Encode :: "byte list \<Rightarrow> byte list \<Rightarrow> (byte list \<times> nat) option" where
  "a85_Encode dst src =
    (if src = [] then Some (dst, 0)
     else if length dst < 5 then None
     else let dst = replicate 5 0 @ drop 5 dst; v = a85_word src
          in if v = 0 \<and> 4 \<le> length src then do {
               let dst = dst[0 := 122];
               (rest, n) \<leftarrow> a85_Encode (drop 1 dst) src;
               Some (take 1 dst @ rest, n + 1) }
             else do {
               let dst = a85_digits 5 v @ drop 5 dst;
               let m = (if length src < 4 then 5 - (4 - length src) else 5);
               (rest, n) \<leftarrow> a85_Encode (drop m dst) (if length src < 4 then [] else drop 4 src);
               Some (take m dst @ rest, n + m) })"
  by auto
termination
proof (relation "measure (\<lambda>(dst, src). length dst)", goal_cases)
  case (3 dst src x v m)
  then show ?case by (cases src) auto
qed (auto simp: Let_def)

declare a85_Encode.simps [simp del]

definition a85_MaxEncodedLen :: "nat \<Rightarrow> nat" where
  "a85_MaxEncodedLen n = (n + 3) div 4 * 5"

datatype a85_CorruptInputError = a85_CorruptInputError int

text \<open>The switch of \<open>Decode\<close> on a byte that is not a space: the new \<open>v\<close> and \<open>nb\<close>, unless the byte is illegal.\<close>

definition a85_digit :: "byte \<Rightarrow> uint32 \<Rightarrow> nat \<Rightarrow> (uint32 \<times> nat) option" where
  "a85_digit b v nb =
    (if b = 122 \<and> nb = 0 then Some (0, 5)
     else if 33 \<le> b \<and> b \<le> 117 then Some (v * 85 + ucast (b - 33), nb + 1)
     else None)"

definition a85_put4 :: "byte list \<Rightarrow> nat \<Rightarrow> uint32 \<Rightarrow> byte list" where
  "a85_put4 dst n v =
    dst[n := ucast (drop_bit 24 v), n + 1 := ucast (drop_bit 16 v), n + 2 := ucast (drop_bit 8 v), n + 3 := ucast v]"

text \<open>
  The loop over \<open>src\<close> leaves the function with a result, or ends with the values of its variables. The four writes of
  a block are inside \<open>dst\<close> by the test at the head of the loop.
\<close>

datatype a85_exit =
  A85_return "byte list" nat nat "a85_CorruptInputError option"
| A85_end "byte list" nat nat uint32 nat

fun a85_loop :: "byte list \<Rightarrow> nat \<Rightarrow> nat \<Rightarrow> uint32 \<Rightarrow> nat \<Rightarrow> nat \<Rightarrow> byte list \<Rightarrow> a85_exit" where
  "a85_loop dst ndst nsrc v nb i [] = A85_end dst ndst nsrc v nb"
| "a85_loop dst ndst nsrc v nb i (b # src) =
    (if length dst < ndst + 4 then A85_return dst ndst nsrc None
     else if b \<le> 32 then a85_loop dst ndst nsrc v nb (i + 1) src
     else case a85_digit b v nb of
       None \<Rightarrow> A85_return dst 0 0 (Some (a85_CorruptInputError (int i)))
     | Some (v, nb) \<Rightarrow>
         if nb = 5 then a85_loop (a85_put4 dst ndst v) (ndst + 4) (i + 1) 0 0 (i + 1) src
         else a85_loop dst ndst nsrc v nb (i + 1) src)"

text \<open>The bytes of the last fragment.\<close>

fun a85_flush :: "nat \<Rightarrow> byte list \<Rightarrow> nat \<Rightarrow> uint32 \<Rightarrow> (byte list \<times> nat) option" where
  "a85_flush 0 dst ndst v = Some (dst, ndst)"
| "a85_flush (Suc k) dst ndst v = do {
     dst \<leftarrow> slice_put dst (int ndst) (ucast (drop_bit 24 v));
     a85_flush k dst (ndst + 1) (push_bit 8 v) }"

text \<open>What follows the loop; \<open>len\<close> is the length of \<open>src\<close>.\<close>

definition a85_finish :: "nat \<Rightarrow> bool \<Rightarrow> a85_exit \<Rightarrow> (byte list \<times> nat \<times> nat \<times> a85_CorruptInputError option) option" where
  "a85_finish len flush e =
    (case e of
       A85_return dst ndst nsrc err \<Rightarrow> Some (dst, ndst, nsrc, err)
     | A85_end dst ndst nsrc v nb \<Rightarrow>
         if \<not> flush then Some (dst, ndst, nsrc, None)
         else if nb = 0 then Some (dst, ndst, len, None)
         else if nb = 1 then Some (dst, 0, 0, Some (a85_CorruptInputError (int len)))
         else do {
           (dst, ndst) \<leftarrow> a85_flush (nb - 1) dst ndst (((\<lambda>v. v * 85 + 84) ^^ (5 - nb)) v);
           Some (dst, ndst, len, None) })"

definition a85_Decode ::
  "byte list \<Rightarrow> byte list \<Rightarrow> bool \<Rightarrow> (byte list \<times> nat \<times> nat \<times> a85_CorruptInputError option) option" where
  "a85_Decode dst src flush = a85_finish (length src) flush (a85_loop dst 0 0 0 0 0 src)"

section \<open>The encoding\<close>

text \<open>
  Four bytes are a number, most significant byte first, which is written with five digits to the base 85, the most
  significant first; five zero digits are shortened to z. A last group of \<open>n < 4\<close> bytes is filled with zeros, and
  \<open>n + 1\<close> digits of it are kept.
\<close>

definition a85_num :: "byte \<Rightarrow> byte \<Rightarrow> byte \<Rightarrow> byte \<Rightarrow> nat" where
  "a85_num a b c d = ((unat a * 256 + unat b) * 256 + unat c) * 256 + unat d"

fun b85 :: "nat \<Rightarrow> nat \<Rightarrow> nat list" where
  "b85 0 m = []"
| "b85 (Suc n) m = b85 n (m div 85) @ [m mod 85]"

definition chars85 :: "nat list \<Rightarrow> byte list" where
  "chars85 ds = map (\<lambda>d. of_nat (33 + d)) ds"

fun ascii85 :: "byte list \<Rightarrow> byte list" where
  "ascii85 (a # b # c # d # src) =
     (if a85_num a b c d = 0 then [122] else chars85 (b85 5 (a85_num a b c d))) @ ascii85 src"
| "ascii85 [a, b, c] = chars85 (take 4 (b85 5 (a85_num a b c 0)))"
| "ascii85 [a, b] = chars85 (take 3 (b85 5 (a85_num a b 0 0)))"
| "ascii85 [a] = chars85 (take 2 (b85 5 (a85_num a 0 0 0)))"
| "ascii85 [] = []"

fun zero_block :: "byte list \<Rightarrow> bool" where
  "zero_block (a # b # c # d # src) \<longleftrightarrow> a85_num a b c d = 0 \<or> zero_block src"
| "zero_block _ \<longleftrightarrow> False"

subsection \<open>Words and digits\<close>

lemma a85_ors:
  "ucast d OR push_bit 8 (ucast c) OR push_bit 16 (ucast b) OR push_bit 24 (ucast a) =
   (ucast d + push_bit 8 (ucast c) + push_bit 16 (ucast b) + push_bit 24 (ucast a) :: uint32)"
  for a b c d :: byte
proof -
  have h: "bit (ucast x :: uint32) n \<Longrightarrow> n < 8" for x :: byte and n
    by (simp add: bit_ucast_iff) (metis bit_imp_le_length len_num1 len_bit0 numeral_Bit0 mult_2 numeral_One mult.right_neutral)
  let ?a = "push_bit 24 (ucast a) :: uint32" and ?b = "push_bit 16 (ucast b) :: uint32" and ?c = "push_bit 8 (ucast c) :: uint32"
  have "?b + ?a = ?b OR ?a" by (rule disjunctive_add) (force simp: bit_push_bit_iff dest: h)
  moreover have "?c + (?b OR ?a) = ?c OR ?b OR ?a" by (rule disjunctive_add) (force simp: bit_push_bit_iff bit_or_iff dest: h)
  moreover have "ucast d + (?c OR ?b OR ?a) = ucast d OR ?c OR ?b OR ?a"
    by (rule disjunctive_add) (force simp: bit_push_bit_iff bit_or_iff dest: h)
  ultimately show ?thesis by (simp add: add.assoc)
qed

lemma a85_num_word:
  "ucast d + push_bit 8 (ucast c) + push_bit 16 (ucast b) + push_bit 24 (ucast a) = (of_nat (a85_num a b c d) :: uint32)"
  by (simp add: a85_num_def push_bit_eq_mult algebra_simps)

lemma a85_word_num:
  "a85_word (a # b # c # d # r) = of_nat (a85_num a b c d)" "a85_word [a, b, c] = of_nat (a85_num a b c 0)"
  "a85_word [a, b] = of_nat (a85_num a b 0 0)" "a85_word [a] = of_nat (a85_num a 0 0 0)"
  using a85_ors [of d c b a] a85_ors [of 0 c b a] a85_ors [of 0 0 b a] a85_ors [of 0 0 0 a]
    a85_num_word [of d c b a] a85_num_word [of 0 c b a] a85_num_word [of 0 0 b a] a85_num_word [of 0 0 0 a]
  by simp_all

lemma a85_num_less: "a85_num a b c d < 2 ^ 32"
  using byte_less [of a] byte_less [of b] byte_less [of c] byte_less [of d] by (simp add: a85_num_def)

lemma unat_a85_num [simp]: "unat (of_nat (a85_num a b c d) :: uint32) = a85_num a b c d"
  using a85_num_less [of a b c d] by (simp add: unat_of_nat)

lemma a85_digits_b85: "a85_digits n v = chars85 (b85 n (unat v))"
proof (induction n v rule: a85_digits.induct)
  case (2 n v)
  have "ucast (v mod 85) = (of_nat (unat v mod 85) :: byte)"
    by (simp only: of_nat_unat [symmetric, of "v mod 85"] unat_mod_distrib) simp
  then show ?case using 2 by (simp add: chars85_def unat_div_distrib)
qed (simp add: chars85_def)

lemma length_b85 [simp]: "length (b85 n m) = n"
  by (induction n m rule: b85.induct) simp_all

lemma length_chars85 [simp]: "length (chars85 ds) = length ds"
  by (simp add: chars85_def)

lemma b85_less: "d \<in> set (b85 n m) \<Longrightarrow> d < 85"
  by (induction n m rule: b85.induct) auto

section \<open>Encode\<close>

lemma Encode_panics: "zero_block src \<Longrightarrow> a85_Encode dst src = None"
proof (induction dst src rule: a85_Encode.induct)
  case (1 dst src)
  from 1(3) obtain a b c d r where src: "src = a # b # c # d # r" by (cases src rule: zero_block.cases) auto
  show ?case
  proof (cases "length dst < 5")
    case False
    then show ?thesis
    proof (cases "a85_word src = 0")
      case True
      then have "a85_Encode (drop 1 ((replicate 5 0 @ drop 5 dst)[0 := 122])) src = None"
        using 1(1) [OF _ False refl refl _ refl] 1(3) src by simp
      then show ?thesis using True False src by (subst a85_Encode.simps) (simp add: Let_def)
    next
      case nz: False
      then have "zero_block r" using 1(3) src by (auto simp: a85_word_num simp del: a85_word.simps)
      then have "a85_Encode (drop 5 (a85_digits 5 (a85_word src) @ drop 5 (replicate 5 0 @ drop 5 dst))) r = None"
        using 1(2) [OF _ False refl refl _ refl refl] nz src by simp
      then show ?thesis using nz False src by (subst a85_Encode.simps) (simp add: Let_def)
    qed
  qed (simp add: a85_Encode.simps src)
qed

lemma MaxEncodedLen_4: "a85_MaxEncodedLen (Suc (Suc (Suc (Suc n)))) = 5 + a85_MaxEncodedLen n"
proof -
  have "(7 + n) div 4 = Suc (Suc (Suc (Suc n)) div 4)" by presburger
  then show ?thesis by (simp add: a85_MaxEncodedLen_def)
qed

lemma Encode_short:
  assumes "src \<noteq> []" "length src < 4" "ascii85 src = chars85 (take (length src + 1) (b85 5 (unat (a85_word src))))"
    "a85_MaxEncodedLen (length src) \<le> length dst"
  shows "\<exists>junk. a85_Encode dst src = Some (ascii85 src @ junk, length (ascii85 src)) \<and> length (ascii85 src @ junk) = length dst"
proof -
  let ?ds = "chars85 (b85 5 (unat (a85_word src)))"
  have "(length src + 3) div 4 = 1" using assms(1,2) by (cases src) auto
  then have l: "5 \<le> length dst" using assms(4) by (simp add: a85_MaxEncodedLen_def)
  have "a85_Encode dst src = Some (?ds @ drop 5 dst, length src + 1)" using assms(1,2) l
    by (subst a85_Encode.simps) (simp add: Let_def a85_Encode.simps a85_digits_b85)
  moreover have "ascii85 src = take (length src + 1) ?ds" unfolding assms(3) chars85_def by (simp only: take_map)
  moreover have "length ?ds = 5" by (simp only: length_chars85 length_b85)
  ultimately show ?thesis using assms(2) l
    by (intro exI [of _ "drop (length src + 1) ?ds @ drop 5 dst"]) (simp del: b85.simps)
qed

lemma Encode_ascii85:
  "\<not> zero_block src \<Longrightarrow> a85_MaxEncodedLen (length src) \<le> length dst \<Longrightarrow>
   \<exists>junk. a85_Encode dst src = Some (ascii85 src @ junk, length (ascii85 src)) \<and> length (ascii85 src @ junk) = length dst"
proof (induction src arbitrary: dst rule: ascii85.induct)
  case (1 a b c d src)
  then have nz: "a85_num a b c d \<noteq> 0" and l: "5 \<le> length dst" by (simp_all add: MaxEncodedLen_4)
  then have w: "a85_word (a # b # c # d # src) \<noteq> 0" unfolding a85_word_num by (metis unat_a85_num unat_0)
  have "a85_MaxEncodedLen (length src) \<le> length (drop 5 dst)" "\<not> zero_block src"
    using 1(2,3) by (simp_all add: MaxEncodedLen_4 le_diff_conv2)
  then obtain junk where "a85_Encode (drop 5 dst) src = Some (ascii85 src @ junk, length (ascii85 src))"
    "length (ascii85 src @ junk) = length (drop 5 dst)" using 1(1) [of "drop 5 dst"] by blast
  then show ?case using w l nz
    by (intro exI [of _ junk]) (subst a85_Encode.simps, simp add: Let_def a85_digits_b85 a85_word_num del: a85_word.simps)
next
  case (2 a b c)
  then show ?case by (intro Encode_short) (simp_all add: a85_word_num eval_nat_numeral del: a85_word.simps b85.simps)
next
  case (3 a b)
  then show ?case by (intro Encode_short) (simp_all add: a85_word_num eval_nat_numeral del: a85_word.simps b85.simps)
next
  case (4 a)
  then show ?case by (intro Encode_short) (simp_all add: a85_word_num eval_nat_numeral del: a85_word.simps b85.simps)
qed (simp add: a85_Encode.simps)

section \<open>Decode\<close>

abbreviation ink :: "byte list \<Rightarrow> byte list" where
  "ink t \<equiv> filter (\<lambda>b. \<not> b \<le> 32) t"

lemma char85:
  assumes "d < 85"
  shows "\<not> (of_nat (33 + d) :: byte) \<le> 32" "(33 :: byte) \<le> of_nat (33 + d)" "(of_nat (33 + d) :: byte) \<le> 117"
    "(of_nat (33 + d) :: byte) \<noteq> 122" "ucast (of_nat (33 + d) - 33 :: byte) = (of_nat d :: uint32)"
proof -
  have u: "unat (of_nat (33 + d) :: byte) = 33 + d" using assms by (simp only: unat_of_nat) simp
  have v: "unat (of_nat d :: byte) = d" using assms by (simp only: unat_of_nat) simp
  show "\<not> (of_nat (33 + d) :: byte) \<le> 32" "(33 :: byte) \<le> of_nat (33 + d)" "(of_nat (33 + d) :: byte) \<le> 117"
    using assms unfolding word_le_nat_alt u by simp_all
  show "(of_nat (33 + d) :: byte) \<noteq> 122" using assms u by auto
  have "ucast (of_nat d :: byte) = (of_nat (unat (of_nat d :: byte)) :: uint32)" by (simp only: of_nat_unat)
  then show "ucast (of_nat (33 + d) - 33 :: byte) = (of_nat d :: uint32)" unfolding v by simp
qed

lemma a85_group:
  assumes "ink t = chars85 ds @ rest" "\<forall>d \<in> set ds. d < 85" "ds \<noteq> []" "nb + length ds \<le> 5" "ndst + 4 \<le> length dst"
  shows "\<exists>t2 i'. ink t2 = rest \<and>
    a85_loop dst ndst nsrc v nb i t =
      (let v' = foldl (\<lambda>v d. v * 85 + of_nat d) v ds
       in if nb + length ds = 5 then a85_loop (a85_put4 dst ndst v') (ndst + 4) i' 0 0 i' t2
          else a85_loop dst ndst nsrc v' (nb + length ds) i' t2)"
  using assms(1-4)
proof (induction t arbitrary: ds v nb i)
  case Nil
  then show ?case by (cases ds) (simp_all add: chars85_def)
next
  case (Cons b t)
  show ?case
  proof (cases "b \<le> 32")
    case True
    then obtain t2 i' where "ink t2 = rest" "a85_loop dst ndst nsrc v nb (i + 1) t =
      (let v' = foldl (\<lambda>v d. v * 85 + of_nat d) v ds
       in if nb + length ds = 5 then a85_loop (a85_put4 dst ndst v') (ndst + 4) i' 0 0 i' t2
          else a85_loop dst ndst nsrc v' (nb + length ds) i' t2)" using Cons.IH [of ds nb v "i + 1"] Cons.prems by auto
    then show ?thesis using True assms(5) by (intro exI [of _ t2] exI [of _ i']) (simp add: Let_def)
  next
    case False
    then obtain d ds' where ds: "ds = d # ds'" "b = of_nat (33 + d)" "ink t = chars85 ds' @ rest" "d < 85"
      using Cons.prems by (cases ds) (auto simp: chars85_def)
    then have dig: "a85_digit b v nb = Some (v * 85 + of_nat d, nb + 1)"
      using char85 [OF ds(4)] unfolding ds(2) a85_digit_def by presburger
    show ?thesis
    proof (cases "ds' = []")
      case True
      then show ?thesis using False dig ds assms(5) by (intro exI [of _ t] exI [of _ "i + 1"]) (simp add: Let_def chars85_def)
    next
      case more: False
      then have nb: "nb + 1 \<noteq> 5" using Cons.prems(4) ds(1) by (cases ds') auto
      obtain t2 i' where "ink t2 = rest" "a85_loop dst ndst nsrc (v * 85 + of_nat d) (nb + 1) (i + 1) t =
        (let v' = foldl (\<lambda>v d. v * 85 + of_nat d) (v * 85 + of_nat d) ds'
         in if nb + 1 + length ds' = 5 then a85_loop (a85_put4 dst ndst v') (ndst + 4) i' 0 0 i' t2
            else a85_loop dst ndst nsrc v' (nb + 1 + length ds') i' t2)"
        using Cons.IH [of ds' "nb + 1" "v * 85 + of_nat d" "i + 1"] Cons.prems ds more by auto
      then show ?thesis using False nb dig ds assms(5) by (intro exI [of _ t2] exI [of _ i']) (simp add: Let_def)
    qed
  qed
qed

lemma a85_z:
  "ink t = 122 # rest \<Longrightarrow> ndst + 4 \<le> length dst \<Longrightarrow>
   \<exists>t2 i'. ink t2 = rest \<and>
     a85_loop dst ndst nsrc v 0 i t = a85_loop (a85_put4 dst ndst 0) (ndst + 4) i' 0 0 i' t2"
proof (induction t arbitrary: i)
  case (Cons b t)
  show ?case
  proof (cases "b \<le> 32")
    case True
    then obtain t2 i' where "ink t2 = rest"
      "a85_loop dst ndst nsrc v 0 (i + 1) t = a85_loop (a85_put4 dst ndst 0) (ndst + 4) i' 0 0 i' t2"
      using Cons.IH [of "i + 1"] Cons.prems by auto
    then show ?thesis using True Cons.prems by (intro exI [of _ t2] exI [of _ i']) simp
  next
    case False
    then show ?thesis using Cons.prems by (intro exI [of _ t] exI [of _ "i + 1"]) (simp add: a85_digit_def)
  qed
qed simp

lemma a85_blank:
  "ink t = [] \<Longrightarrow> a85_loop dst ndst nsrc v nb i t = A85_end dst ndst nsrc v nb \<or>
     length dst < ndst + 4 \<and> a85_loop dst ndst nsrc v nb i t = A85_return dst ndst nsrc None"
  by (induction t arbitrary: i) (auto split: if_splits)

subsection \<open>The number that the digits give\<close>

lemma foldl_b85: "foldl (\<lambda>v d. v * 85 + d) 0 (b85 n m) = m mod 85 ^ n"
proof (induction n m rule: b85.induct)
  case (2 n m)
  then show ?case by (simp add: mod_mult2_eq mult.commute)
qed simp

lemma foldl_word: "foldl (\<lambda>v d. v * 85 + of_nat d) (of_nat m :: uint32) ds = of_nat (foldl (\<lambda>v d. v * 85 + d) m ds)"
proof (induction ds arbitrary: m)
  case (Cons d ds)
  show ?case using Cons [of "m * 85 + d"] by simp
qed simp

lemma take_b85: "take k (b85 (k + j) m) = b85 k (m div 85 ^ j)"
proof (induction j arbitrary: m)
  case (Suc j)
  then show ?case by (simp add: div_mult2_eq)
qed simp

lemma foldl_b85_word: "foldl (\<lambda>v d. v * 85 + of_nat d) (0 :: uint32) (b85 n m) = of_nat (m mod 85 ^ n)"
  using foldl_word [of 0 "b85 n m"] by (simp add: foldl_b85)

lemma a85_pad: "((\<lambda>v. v * 85 + 84) ^^ k) (of_nat q :: uint32) = of_nat ((q + 1) * 85 ^ k - 1)"
proof (induction k)
  case (Suc k)
  have x: "0 < x \<Longrightarrow> (x - 1) * 85 + 84 = x * 85 - 1" for x :: nat by linarith
  have "((q + 1) * 85 ^ k - 1) * 85 + 84 = (q + 1) * 85 ^ Suc k - 1" using x [of "(q + 1) * 85 ^ k"] by (simp add: mult.assoc mult.commute)
  then have "(of_nat ((q + 1) * 85 ^ k - 1) * 85 + 84 :: uint32) = of_nat ((q + 1) * 85 ^ Suc k - 1)"
    by (metis of_nat_add of_nat_mult of_nat_numeral)
  then show ?case using Suc by simp
qed simp

lemma a85_byte: "m < 2 ^ 32 \<Longrightarrow> ucast (drop_bit k (of_nat m :: uint32)) = (of_nat (m div 2 ^ k) :: byte)"
proof -
  assume "m < 2 ^ 32"
  then have "unat (drop_bit k (of_nat m :: uint32)) = m div 2 ^ k"
    by (simp only: unat_drop_bit_eq unat_of_nat) (simp add: drop_bit_eq_div)
  then show ?thesis by (metis of_nat_unat)
qed

text \<open>Filling up with digits 84 does not change the bytes that were encoded.\<close>

lemma a85_top:
  fixes m :: nat
  assumes "m mod 256 ^ j = 0" "85 ^ k \<le> (256 :: nat) ^ j"
  shows "((m div 85 ^ k + 1) * 85 ^ k - 1) div 256 ^ j = m div 256 ^ j"
proof -
  define e where "e = 85 ^ k - 1 - m mod 85 ^ k"
  have "m mod 85 ^ k < 85 ^ k" "(m div 85 ^ k + 1) * 85 ^ k = m div 85 ^ k * 85 ^ k + 85 ^ k" by simp_all
  then have e: "(m div 85 ^ k + 1) * 85 ^ k - 1 = m + e" "e < 85 ^ k"
    using div_mult_mod_eq [of m "85 ^ k"] unfolding e_def by linarith+
  obtain M where "m = 256 ^ j * M" using assms(1) by (metis dvdE mod_0_imp_dvd)
  then show ?thesis using e assms(2) by (simp add: div_mult_self1 add.commute)
qed

lemma a85_flush_bytes:
  "ndst + k \<le> length dst \<Longrightarrow> a85_flush k dst ndst v =
     Some (take ndst dst @ map (\<lambda>j. ucast (drop_bit 24 (push_bit (8 * j) v))) [0..<k] @ drop (ndst + k) dst, ndst + k)"
proof (induction k dst ndst v rule: a85_flush.induct)
  case (2 k dst ndst v)
  then have "map (\<lambda>j. ucast (drop_bit 24 (push_bit (8 * j) v))) [0..<Suc k] =
    (ucast (drop_bit 24 v) # map (\<lambda>j. ucast (drop_bit 24 (push_bit (8 * j) (push_bit 8 v)))) [0..<k] :: byte list)"
    by (simp add: upt_conv_Cons map_Suc_upt [symmetric] push_bit_push_bit add.commute del: upt_Suc)
  moreover have "slice_put dst (int ndst) (ucast (drop_bit 24 v)) = Some (dst[ndst := ucast (drop_bit 24 v)])"
    using 2(2) by (simp add: slice_put_def)
  ultimately show ?case using 2 by (simp add: take_Suc_conv_app_nth del: upt_Suc)
qed simp

lemma a85_shift:
  "(ucast (drop_bit 24 (push_bit 8 v)) :: byte) = ucast (drop_bit 16 v)"
  "(ucast (drop_bit 24 (push_bit 16 v)) :: byte) = ucast (drop_bit 8 v)" for v :: uint32
  by (rule byte_eqI; auto simp: byte_bits bit_ucast_iff bit_drop_bit_eq bit_push_bit_iff)+

lemma a85_shift_le: "j \<le> 2 \<Longrightarrow> (ucast (drop_bit 24 (push_bit (8 * j) v)) :: byte) = ucast (drop_bit (24 - 8 * j) v)" for v :: uint32
proof -
  assume "j \<le> 2"
  then consider "j = 0" | "j = 1" | "j = 2" by linarith
  then show ?thesis by cases (simp_all add: a85_shift)
qed

lemma a85_padded:
  assumes "n \<in> {1, 2, 3}" "m mod 256 ^ (4 - n) = 0" "m < 2 ^ 32" "j < n"
  defines "W \<equiv> (m div 85 ^ (4 - n) + 1) * 85 ^ (4 - n) - 1"
  shows "ucast (drop_bit 24 (push_bit (8 * j) (of_nat W :: uint32))) = (of_nat (m div 2 ^ (24 - 8 * j)) :: byte)"
proof -
  have "85 ^ (4 - n) \<le> (256 :: nat) ^ (4 - n)" by (rule power_mono) simp_all
  then have d: "W div 256 ^ (4 - n) = m div 256 ^ (4 - n)" unfolding W_def by (rule a85_top [OF assms(2)])
  have "8 * (4 - n) + (8 * (n - 1) - 8 * j) = 24 - 8 * j" using assms(1,4) by auto
  then have p: "(256 :: nat) ^ (4 - n) * 2 ^ (8 * (n - 1) - 8 * j) = 2 ^ (24 - 8 * j)"
    using power_mult [of "2 :: nat" 8 "4 - n"] power_add [of "2 :: nat" "8 * (4 - n)" "8 * (n - 1) - 8 * j"] by simp
  have div: "W div 2 ^ (24 - 8 * j) = m div 2 ^ (24 - 8 * j)" unfolding p [symmetric] div_mult2_eq d ..
  have small: "W < 2 ^ 32" if "W div q = m div q" "q * r = 2 ^ 32" "0 < q" for q r :: nat
    by (metis that assms(3) div_less_iff_less_mult mult.commute)
  have "W < 2 ^ 32" by (rule small [OF d, of "256 ^ n"]) (use assms(1) in auto)
  then show ?thesis using assms(1,4) by (subst a85_shift_le) (auto simp: a85_byte div)
qed

lemma a85_short:
  assumes t: "ink t = chars85 (take (n + 1) (b85 5 m))" and n: "n \<in> {1, 2, 3}" and m: "m mod 256 ^ (4 - n) = 0" "m < 2 ^ 32"
    and room: "ndst + 4 \<le> length dst"
  shows "\<exists>dst'. a85_finish len True (a85_loop dst ndst nsrc 0 0 i t) = Some (dst', ndst + n, len, None) \<and>
    length dst' = length dst \<and> take (ndst + n) dst' = take ndst dst @ map (\<lambda>j. of_nat (m div 2 ^ (24 - 8 * j))) [0..<n]"
proof -
  let ?q = "m div 85 ^ (4 - n)"
  have "take (n + 1) (b85 ((n + 1) + (4 - n)) m) = b85 (n + 1) ?q" by (rule take_b85)
  moreover have "(n + 1) + (4 - n) = 5" using n by auto
  ultimately have t': "ink t = chars85 (b85 (n + 1) ?q)" using t by (simp del: b85.simps)
  have "?q < 85 ^ (n + 1)" using n m(2) by (auto simp: less_mult_imp_div_less)
  then have v: "foldl (\<lambda>v d. v * 85 + of_nat d) (0 :: uint32) (b85 (n + 1) ?q) = of_nat ?q"
    by (simp add: foldl_b85_word del: b85.simps)
  define ds where "ds = b85 (n + 1) ?q"
  have "n + 1 \<le> 5" "n + 1 \<noteq> 5" using n by auto
  moreover have l: "length ds = n + 1" unfolding ds_def by (rule length_b85)
  moreover have "ds \<noteq> []" using l by auto
  moreover have "\<forall>d \<in> set ds. d < 85" using b85_less unfolding ds_def by blast
  ultimately obtain t2 i' where "ink t2 = []" "a85_loop dst ndst nsrc 0 0 i t = a85_loop dst ndst nsrc (of_nat ?q) (n + 1) i' t2"
    using a85_group [of t ds "[]" 0 ndst dst nsrc 0 i] room t' [folded ds_def] v [folded ds_def] by (auto simp: Let_def)
  then have "a85_loop dst ndst nsrc 0 0 i t = A85_end dst ndst nsrc (of_nat ?q) (n + 1)"
    using a85_blank [of t2 dst ndst nsrc "of_nat ?q" "n + 1" i'] room by simp
  moreover have "map (\<lambda>j. ucast (drop_bit 24 (push_bit (8 * j) (((\<lambda>v. v * 85 + 84) ^^ (4 - n)) (of_nat ?q) :: uint32)))) [0..<n] =
      (map (\<lambda>j. of_nat (m div 2 ^ (24 - 8 * j))) [0..<n] :: byte list)"
    unfolding a85_pad by (rule map_cong [OF refl], rule a85_padded [OF n m]) simp
  ultimately show ?thesis
    using n room a85_flush_bytes [of ndst n dst "((\<lambda>v. v * 85 + 84) ^^ (4 - n)) (of_nat ?q)"]
    by (auto simp: a85_finish_def simp del: upt_Suc)
qed

lemma a85_num_bytes:
  "a85_num a b c d div 2 ^ 24 = unat a" "a85_num a b c d div 2 ^ 16 = unat a * 256 + unat b"
  "a85_num a b c d div 2 ^ 8 = (unat a * 256 + unat b) * 256 + unat c"
proof -
  have "a85_num a b c d div 256 = (unat a * 256 + unat b) * 256 + unat c"
    "((unat a * 256 + unat b) * 256 + unat c) div 256 = unat a * 256 + unat b" "(unat a * 256 + unat b) div 256 = unat a"
    using byte_less [of b] byte_less [of c] byte_less [of d] by (simp_all add: a85_num_def)
  then show "a85_num a b c d div 2 ^ 24 = unat a" "a85_num a b c d div 2 ^ 16 = unat a * 256 + unat b"
    "a85_num a b c d div 2 ^ 8 = (unat a * 256 + unat b) * 256 + unat c"
    using div_mult2_eq [of "a85_num a b c d" 256 256] div_mult2_eq [of "a85_num a b c d" "256 * 256" 256] by simp_all
qed

lemma low_byte: "of_nat (x * 256 + unat d) = (d :: byte)"
proof -
  have "(256 :: byte) = 0" by (simp add: word_eq_iff_unsigned)
  then have "(of_nat x * 256 :: byte) = 0" by (simp only: mult_zero_right)
  then show ?thesis by simp
qed

lemma a85_num_list:
  "map (\<lambda>j. of_nat (a85_num a b c d div 2 ^ (24 - 8 * j))) [0..<1] = [a]"
  "map (\<lambda>j. of_nat (a85_num a b c d div 2 ^ (24 - 8 * j))) [0..<2] = [a, b]"
  "map (\<lambda>j. of_nat (a85_num a b c d div 2 ^ (24 - 8 * j))) [0..<3] = [a, b, c]"
  using a85_num_bytes [of a b c d] low_byte [of "unat a" b] low_byte [of "unat a * 256 + unat b" c]
  by (simp_all add: upt_rec del: of_nat_add of_nat_mult)

lemma a85_put4_num:
  assumes "n + 4 \<le> length dst"
  shows "length (a85_put4 dst n (of_nat (a85_num a b c d))) = length dst"
    "take (n + 4) (a85_put4 dst n (of_nat (a85_num a b c d))) = take n dst @ [a, b, c, d]"
proof -
  have "ucast (of_nat (a85_num a b c d) :: uint32) = d"
    using a85_byte [of "a85_num a b c d" 0, OF a85_num_less] low_byte [of "(unat a * 256 + unat b) * 256 + unat c" d, folded a85_num_def]
    by (simp only: drop_bit_0 id_apply power_0 div_by_1)
  moreover have "ucast (drop_bit 24 (of_nat (a85_num a b c d) :: uint32)) = a" "ucast (drop_bit 16 (of_nat (a85_num a b c d) :: uint32)) = b"
    "ucast (drop_bit 8 (of_nat (a85_num a b c d) :: uint32)) = c"
    by (simp_all only: a85_byte [OF a85_num_less] a85_num_bytes low_byte) simp_all
  ultimately have p: "a85_put4 dst n (of_nat (a85_num a b c d)) = dst[n := a, n + 1 := b, n + 2 := c, n + 3 := d]"
    by (simp only: a85_put4_def)
  show "length (a85_put4 dst n (of_nat (a85_num a b c d))) = length dst" unfolding p by simp
  show "take (n + 4) (a85_put4 dst n (of_nat (a85_num a b c d))) = take n dst @ [a, b, c, d]"
    unfolding p using assms by (intro nth_equalityI) (auto simp: nth_append nth_Cons' nth_list_update)
qed

lemma a85_block:
  assumes "ink t = (if a85_num a b c d = 0 then [122] else chars85 (b85 5 (a85_num a b c d))) @ rest" "ndst + 4 \<le> length dst"
  shows "\<exists>t2 i'. ink t2 = rest \<and> a85_loop dst ndst nsrc 0 0 i t =
    a85_loop (a85_put4 dst ndst (of_nat (a85_num a b c d))) (ndst + 4) i' 0 0 i' t2"
proof (cases "a85_num a b c d = 0")
  case True
  then show ?thesis using a85_z [of t rest ndst dst nsrc 0 i] assms by auto
next
  case False
  define ds where "ds = b85 5 (a85_num a b c d)"
  have l: "length ds = 5" unfolding ds_def by (rule length_b85)
  then have "ds \<noteq> []" by auto
  moreover have "\<forall>d \<in> set ds. d < 85" using b85_less unfolding ds_def by blast
  moreover have "foldl (\<lambda>v d. v * 85 + of_nat d) (0 :: uint32) ds = of_nat (a85_num a b c d)"
    using a85_num_less [of a b c d] unfolding ds_def foldl_b85_word by simp
  ultimately show ?thesis using a85_group [of t ds rest 0 ndst dst nsrc 0 i] assms False l
    by (auto simp: Let_def ds_def [symmetric] simp del: b85.simps)
qed

lemma Decode_ascii85:
  "ink t = ascii85 src \<Longrightarrow> ndst + (length src + 3) div 4 * 4 \<le> length dst \<Longrightarrow>
   \<exists>dst' n. a85_finish len True (a85_loop dst ndst nsrc 0 0 i t) = Some (dst', ndst + length src, n, None) \<and>
     length dst' = length dst \<and> take (ndst + length src) dst' = take ndst dst @ src"
proof (induction src arbitrary: t dst ndst nsrc i rule: ascii85.induct)
  case (1 a b c d src)
  have "(length (a # b # c # d # src) + 3) div 4 * 4 = 4 + (length src + 3) div 4 * 4" by simp presburger
  then have room: "ndst + 4 \<le> length dst" "ndst + 4 + (length src + 3) div 4 * 4 \<le> length dst" using 1(3) by linarith+
  let ?d = "a85_put4 dst ndst (of_nat (a85_num a b c d))"
  obtain t2 i' where t2: "ink t2 = ascii85 src" "a85_loop dst ndst nsrc 0 0 i t = a85_loop ?d (ndst + 4) i' 0 0 i' t2"
    using a85_block [of t a b c d "ascii85 src" ndst dst nsrc i] 1(2) room(1) by (auto simp del: b85.simps)
  have "\<exists>dst' n. a85_finish len True (a85_loop ?d (ndst + 4) i' 0 0 i' t2) = Some (dst', ndst + 4 + length src, n, None) \<and>
     length dst' = length ?d \<and> take (ndst + 4 + length src) dst' = take (ndst + 4) ?d @ src"
    by (rule 1(1) [OF t2(1)]) (use a85_put4_num [OF room(1)] room(2) in simp)
  moreover have "ndst + 4 + length src = ndst + length (a # b # c # d # src)" by simp
  ultimately show ?case using a85_put4_num [OF room(1), of a b c d] unfolding t2(2) by (simp del: list.size)
next
  case (2 a b c)
  have "ink t = chars85 (take (3 + 1) (b85 5 (a85_num a b c 0)))" using 2(1) by (simp del: b85.simps)
  moreover have "a85_num a b c 0 mod 256 ^ (4 - 3) = 0" by (simp add: a85_num_def)
  moreover have "ndst + 4 \<le> length dst" using 2(2) by simp
  ultimately have "\<exists>dst'. a85_finish len True (a85_loop dst ndst nsrc 0 0 i t) = Some (dst', ndst + 3, len, None) \<and>
    length dst' = length dst \<and> take (ndst + 3) dst' = take ndst dst @ [a, b, c]"
    using a85_short [of t 3 "a85_num a b c 0" ndst dst len nsrc i, OF _ _ _ a85_num_less] a85_num_list [of a b c 0] by (simp del: b85.simps)
  moreover have l: "length [a, b, c] = 3" by simp
  ultimately show ?case unfolding l by blast
next
  case (3 a b)
  have "ink t = chars85 (take (2 + 1) (b85 5 (a85_num a b 0 0)))" using 3(1) by (simp del: b85.simps)
  moreover have "a85_num a b 0 0 mod 256 ^ (4 - 2) = 0" by (simp add: a85_num_def)
  moreover have "ndst + 4 \<le> length dst" using 3(2) by simp
  ultimately have "\<exists>dst'. a85_finish len True (a85_loop dst ndst nsrc 0 0 i t) = Some (dst', ndst + 2, len, None) \<and>
    length dst' = length dst \<and> take (ndst + 2) dst' = take ndst dst @ [a, b]"
    using a85_short [of t 2 "a85_num a b 0 0" ndst dst len nsrc i, OF _ _ _ a85_num_less] a85_num_list [of a b 0 0] by (simp del: b85.simps)
  moreover have l: "length [a, b] = 2" by simp
  ultimately show ?case unfolding l by blast
next
  case (4 a)
  have "ink t = chars85 (take (1 + 1) (b85 5 (a85_num a 0 0 0)))" using 4(1) by (simp add: numeral_2_eq_2 del: b85.simps)
  moreover have "a85_num a 0 0 0 mod 256 ^ (4 - 1) = 0" by (simp add: a85_num_def)
  moreover have "ndst + 4 \<le> length dst" using 4(2) by simp
  ultimately have "\<exists>dst'. a85_finish len True (a85_loop dst ndst nsrc 0 0 i t) = Some (dst', ndst + 1, len, None) \<and>
    length dst' = length dst \<and> take (ndst + 1) dst' = take ndst dst @ [a]"
    using a85_short [of t 1 "a85_num a 0 0 0" ndst dst len nsrc i, OF _ _ _ a85_num_less] a85_num_list [of a 0 0 0] by (simp del: b85.simps)
  moreover have l: "length [a] = 1" by simp
  ultimately show ?case unfolding l by blast
next
  case 5
  then show ?case using a85_blank [of t dst ndst nsrc 0 0 i] by (auto simp: a85_finish_def)
qed

section \<open>Properties\<close>

text \<open>
  C37. \<open>Encode\<close> and a block of four zero bytes: \<open>continue\<close> skips the step to the next block, so the loop writes z until
  \<open>dst\<close> is used up and then panics, whatever the length of \<open>dst\<close>. For all other data, and a \<open>dst\<close> of
  \<open>MaxEncodedLen\<close> bytes, it writes the encoding and returns its length.
\<close>

theorem ascii85_Encode:
  "if zero_block src then a85_Encode dst src = None
   else a85_MaxEncodedLen (length src) \<le> length dst \<longrightarrow>
     (\<exists>rest. a85_Encode dst src = Some (ascii85 src @ rest, length (ascii85 src)) \<and> length (ascii85 src @ rest) = length dst)"
  using Encode_panics Encode_ascii85 by simp

lemma b85_5:
  "b85 5 m = [m div 85 div 85 div 85 div 85 mod 85, m div 85 div 85 div 85 mod 85, m div 85 div 85 mod 85, m div 85 mod 85, m mod 85]"
proof -
  have "5 = Suc (Suc (Suc (Suc (Suc 0))))" by simp
  then show ?thesis by (simp only: b85.simps append_Nil append_Cons)
qed

theorem ascii85_Encode_witness:
  "a85_Encode (replicate 1000 0) (str ''abcd'' @ [0, 0, 0, 0]) = None \<and>
   (\<exists>rest. a85_Encode (replicate 10 0) (str ''Man sure'') = Some (str ''9jqo^F*2M7'' @ rest, 10))"
proof -
  have "zero_block (str ''abcd'' @ [0, 0, 0, 0])" "\<not> zero_block (str ''Man sure'')" by (simp_all add: a85_num_def)
  moreover have "ascii85 (str ''Man sure'') = str ''9jqo^F*2M7''" by (simp add: a85_num_def b85_5 chars85_def)
  moreover have "a85_MaxEncodedLen (length (str ''Man sure'')) \<le> length (replicate 10 (0 :: byte))" by (simp add: a85_MaxEncodedLen_def)
  moreover have "length (str ''9jqo^F*2M7'') = 10" by simp
  ultimately show ?thesis
    using ascii85_Encode [of "str ''abcd'' @ [0, 0, 0, 0]" "replicate 1000 0"] ascii85_Encode [of "str ''Man sure''" "replicate 10 0"]
    by (simp only: if_True if_False) blast
qed

text \<open>
  C38. \<open>Decode\<close>, with \<open>flush\<close>, undoes the encoding, also when spaces and control characters have been put into the text:
  it writes the data that were encoded, returns their number, and reports no error. A \<open>dst\<close> of whole blocks is enough.
\<close>

theorem ascii85_roundtrip:
  assumes "filter (\<lambda>b. \<not> b \<le> 32) t = ascii85 src" "(length src + 3) div 4 * 4 \<le> length dst"
  shows "\<exists>dst' n. a85_Decode dst t True = Some (dst', length src, n, None) \<and> take (length src) dst' = src"
  using Decode_ascii85 [of t src 0 dst "length t" 0 0] assms by (auto simp: a85_Decode_def)

theorem ascii85_roundtrip_witness:
  "\<exists>dst' n. a85_Decode (replicate 8 0) (str ''9j qo^ F*.'') True = Some (dst', 6, n, None) \<and> take 6 dst' = str ''Man su''"
proof -
  have "filter (\<lambda>b. \<not> b \<le> 32) (str ''9j qo^ F*.'') = ascii85 (str ''Man su'')" by (simp add: a85_num_def b85_5 chars85_def)
  moreover have l: "length (str ''Man su'') = 6" by simp
  moreover have "(6 + 3) div 4 * 4 \<le> length (replicate 8 (0 :: byte))" by simp
  ultimately show ?thesis
    using ascii85_roundtrip [of "str ''9j qo^ F*.''" "str ''Man su''" "replicate 8 0"] unfolding l by (simp only: simp_thms)
qed

end
