(* ===== verification/Utf16.thy ===== *)
theory Utf16
  imports Go_Bytes
begin

text \<open>
  utf16/utf16.go: the UTF-16 encoding of sequences of code points. The slices that \<open>Encode\<close> and \<open>Decode\<close> fill are
  lists; a write outside them would be a panic, \<open>None\<close>.
\<close>

unbundle bit_operations_syntax

section \<open>The code\<close>

abbreviation unicode_MaxRune :: int where "unicode_MaxRune \<equiv> 0x10FFFF"

abbreviation ReplacementChar :: int where "ReplacementChar \<equiv> 0xFFFD"

abbreviation surr1 :: int where "surr1 \<equiv> 0xD800"

abbreviation surr2 :: int where "surr2 \<equiv> 0xDC00"

abbreviation surr3 :: int where "surr3 \<equiv> 0xE000"

abbreviation surrSelf :: int where "surrSelf \<equiv> 0x10000"

definition IsSurrogate :: "int \<Rightarrow> bool" where
  "IsSurrogate rune \<longleftrightarrow> surr1 \<le> rune \<and> rune < surr3"

definition utf16_DecodeRune :: "int \<Rightarrow> int \<Rightarrow> int" where
  "utf16_DecodeRune r1 r2 =
    (if surr1 \<le> r1 \<and> r1 < surr2 \<and> surr2 \<le> r2 \<and> r2 < surr3 then (push_bit 10 (r1 - surr1) OR (r2 - surr2)) + 0x10000
     else ReplacementChar)"

definition utf16_EncodeRune :: "int \<Rightarrow> int \<times> int" where
  "utf16_EncodeRune rune =
    (if rune < surrSelf \<or> rune > unicode_MaxRune \<or> IsSurrogate rune then (ReplacementChar, ReplacementChar)
     else let rune = rune - surrSelf in (surr1 + (drop_bit 10 rune AND 0x3FF), surr2 + (rune AND 0x3FF)))"

text \<open>The second loop of \<open>Encode\<close>; \<open>a\<close> is the slice and \<open>n\<close> the number of units written.\<close>

fun utf16_Encode_loop :: "uint16 list \<Rightarrow> nat \<Rightarrow> int list \<Rightarrow> (uint16 list \<times> nat) option" where
  "utf16_Encode_loop a n [] = Some (a, n)"
| "utf16_Encode_loop a n (v # s) =
    (if v < 0 \<or> surr1 \<le> v \<and> v < surr3 \<or> v > unicode_MaxRune then do {
       a \<leftarrow> slice_put a (int n) (of_int ReplacementChar);
       utf16_Encode_loop a (n + 1) s }
     else if v < surrSelf then do {
       a \<leftarrow> slice_put a (int n) (of_int v);
       utf16_Encode_loop a (n + 1) s }
     else case utf16_EncodeRune v of (r1, r2) \<Rightarrow> do {
       a \<leftarrow> slice_put a (int n) (of_int r1);
       a \<leftarrow> slice_put a (int n + 1) (of_int r2);
       utf16_Encode_loop a (n + 2) s })"

definition utf16_Encode :: "int list \<Rightarrow> uint16 list option" where
  "utf16_Encode s = do {
     let n = length s + length (filter (\<lambda>v. v \<ge> surrSelf) s);
     (a, n) \<leftarrow> utf16_Encode_loop (replicate n 0) 0 s;
     Some (take n a) }"

text \<open>The loop of \<open>Decode\<close>; the last argument is what is left of the units, from \<open>s[i]\<close> on.\<close>

fun utf16_Decode_loop :: "int list \<Rightarrow> nat \<Rightarrow> uint16 list \<Rightarrow> (int list \<times> nat) option" where
  "utf16_Decode_loop a n [] = Some (a, n)"
| "utf16_Decode_loop a n (r # s) =
    (if surr1 \<le> uint r \<and> uint r < surr2 \<and> s \<noteq> [] \<and> surr2 \<le> uint (hd s) \<and> uint (hd s) < surr3 then do {
       a \<leftarrow> slice_put a (int n) (utf16_DecodeRune (uint r) (uint (hd s)));
       utf16_Decode_loop a (n + 1) (tl s) }
     else if surr1 \<le> uint r \<and> uint r < surr3 then do {
       a \<leftarrow> slice_put a (int n) ReplacementChar;
       utf16_Decode_loop a (n + 1) s }
     else do {
       a \<leftarrow> slice_put a (int n) (uint r);
       utf16_Decode_loop a (n + 1) s })"

definition utf16_Decode :: "uint16 list \<Rightarrow> int list option" where
  "utf16_Decode s = do {
     (a, n) \<leftarrow> utf16_Decode_loop (replicate (length s) 0) 0 s;
     Some (take n a) }"

section \<open>The encoding\<close>

text \<open>
  A code point that is a Unicode scalar value stands for itself, any other number for the replacement character. A scalar value
  below \<open>0x10000\<close> is one unit; another one, less \<open>0x10000\<close>, is divided into its upper and lower ten bits.
\<close>

definition scalar :: "int \<Rightarrow> bool" where
  "scalar v \<longleftrightarrow> 0 \<le> v \<and> v < 0xD800 \<or> 0xE000 \<le> v \<and> v \<le> 0x10FFFF"

definition replaced :: "int \<Rightarrow> int" where
  "replaced v = (if scalar v then v else ReplacementChar)"

definition units :: "int \<Rightarrow> int list" where
  "units v = (if v < 0x10000 then [v] else [0xD800 + (v - 0x10000) div 1024, 0xDC00 + (v - 0x10000) mod 1024])"

lemma scalar_replaced: "scalar (replaced v)"
  by (simp add: replaced_def scalar_def)

lemma scalar_high:
  "scalar v \<Longrightarrow> \<not> v < 0x10000 \<Longrightarrow> 0 \<le> (v - 0x10000) div 1024 \<and> (v - 0x10000) div 1024 < 1024"
  by (auto simp: scalar_def)

lemma EncodeRune_units:
  "scalar v \<Longrightarrow> \<not> v < surrSelf \<Longrightarrow> utf16_EncodeRune v = (0xD800 + (v - 0x10000) div 1024, 0xDC00 + (v - 0x10000) mod 1024)"
proof -
  assume v: "scalar v" "\<not> v < surrSelf"
  have "(0x3FF :: int) = mask 10" by (simp add: mask_eq_exp_minus_1)
  then have m: "x AND 0x3FF = x mod 1024" for x :: int using take_bit_eq_mask [of 10 x] by (simp add: take_bit_eq_mod)
  have "(v - 0x10000) div 1024 mod 1024 = (v - 0x10000) div 1024" using scalar_high [OF v] by simp
  then show ?thesis using v by (simp add: utf16_EncodeRune_def IsSurrogate_def scalar_def m drop_bit_eq_div Let_def)
qed

lemma DecodeRune_units:
  assumes "scalar v" "\<not> v < 0x10000"
  shows "utf16_DecodeRune (0xD800 + (v - 0x10000) div 1024) (0xDC00 + (v - 0x10000) mod 1024) = v"
proof -
  let ?w = "v - 0x10000"
  have r: "0 \<le> ?w div 1024" "?w div 1024 < 1024" "0 \<le> ?w mod 1024" "?w mod 1024 < 1024"
    using scalar_high [OF assms] by simp_all
  have "push_bit 10 (?w div 1024) OR (?w mod 1024) = ?w div 1024 * 2 ^ 10 + ?w mod 1024" by (rule or_add) simp_all
  then show ?thesis using r by (simp add: utf16_DecodeRune_def)
qed

lemma units_range: "scalar v \<Longrightarrow> u \<in> set (units v) \<Longrightarrow> 0 \<le> u \<and> u < 2 ^ 16"
  by (auto simp: units_def scalar_def split: if_splits)

lemma slice_put_fill: "length w < length a \<Longrightarrow> slice_put (w @ drop (length w) a) (int (length w)) v = Some ((w @ [v]) @ drop (length w + 1) a)"
  by (simp add: slice_put_def list_update_append Cons_nth_drop_Suc [symmetric])

lemma Encode_loop_units:
  "length w + length s + length (filter (\<lambda>v. v \<ge> surrSelf) s) \<le> length a \<Longrightarrow>
   utf16_Encode_loop (w @ drop (length w) a) (length w) s =
     (let u = w @ map of_int (concat (map (units \<circ> replaced) s)) in Some (u @ drop (length u) a, length u))"
proof (induction s arbitrary: w)
  case (Cons v s)
  show ?case
  proof (cases "scalar v \<and> \<not> v < surrSelf")
    case True
    let ?x = "of_int (fst (utf16_EncodeRune v)) :: uint16" and ?y = "of_int (snd (utf16_EncodeRune v)) :: uint16"
    have "slice_put (w @ drop (length w) a) (int (length w)) ?x = Some ((w @ [?x]) @ drop (length (w @ [?x])) a)"
      "slice_put ((w @ [?x]) @ drop (length (w @ [?x])) a) (int (length w) + 1) ?y = Some ((w @ [?x, ?y]) @ drop (length (w @ [?x, ?y])) a)"
      using slice_put_fill [of w a ?x] slice_put_fill [of "w @ [?x]" a ?y] Cons.prems True by (auto simp: ac_simps)
    then show ?thesis using True Cons.IH [of "w @ [?x, ?y]"] Cons.prems
      by (auto simp: scalar_def replaced_def units_def EncodeRune_units Let_def)
  next
    case False
    let ?x = "of_int (replaced v) :: uint16"
    have "slice_put (w @ drop (length w) a) (int (length w)) ?x = Some ((w @ [?x]) @ drop (length (w @ [?x])) a)"
      using slice_put_fill [of w a ?x] Cons.prems by simp
    moreover have "units (replaced v) = [replaced v]" using False by (auto simp: replaced_def units_def)
    ultimately show ?thesis using False Cons.IH [of "w @ [?x]"] Cons.prems
      by (auto simp: scalar_def replaced_def Let_def split: if_splits)
  qed
qed simp

lemma Encode_units: "utf16_Encode s = Some (map of_int (concat (map (units \<circ> replaced) s)))"
  using Encode_loop_units [of "[]" s "replicate (length s + length (filter (\<lambda>v. v \<ge> surrSelf) s)) 0"]
  by (simp add: utf16_Encode_def Let_def)

section \<open>Decoding\<close>

lemma uint_unit: "scalar v \<Longrightarrow> u \<in> set (units v) \<Longrightarrow> uint (of_int u :: uint16) = u"
  using units_range [of v u] by (simp add: uint_word_of_int)

lemma Decode_loop_units:
  assumes "list_all scalar vs" "length w + length (concat (map units vs)) \<le> length a"
  shows "utf16_Decode_loop (w @ drop (length w) a) (length w) (map of_int (concat (map units vs))) =
    Some ((w @ vs) @ drop (length (w @ vs)) a, length (w @ vs))"
  using assms
proof (induction vs arbitrary: w)
  case (Cons v vs)
  have v: "scalar v" using Cons.prems by simp
  have "units v \<noteq> []" by (simp add: units_def)
  then have fill: "slice_put (w @ drop (length w) a) (int (length w)) v = Some ((w @ [v]) @ drop (length (w @ [v])) a)"
    using slice_put_fill [of w a v] Cons.prems by (cases "units v") simp_all
  have ih: "utf16_Decode_loop ((w @ [v]) @ drop (length (w @ [v])) a) (length (w @ [v])) (map of_int (concat (map units vs))) =
      Some ((w @ v # vs) @ drop (length (w @ v # vs)) a, length (w @ v # vs))"
    using Cons.IH [of "w @ [v]"] Cons.prems \<open>units v \<noteq> []\<close> by (cases "units v") simp_all
  show ?case
  proof (cases "v < 0x10000")
    case True
    then have "units v = [v]" "\<not> (surr1 \<le> v \<and> v < surr3)" "uint (of_int v :: uint16) = v"
      using v uint_unit [OF v, of v] by (auto simp: units_def scalar_def)
    then show ?thesis using fill ih by auto
  next
    case False
    let ?x = "0xD800 + (v - 0x10000) div 1024" and ?y = "0xDC00 + (v - 0x10000) mod 1024"
    have u: "units v = [?x, ?y]" using False by (simp add: units_def)
    then have "uint (of_int ?x :: uint16) = ?x" "uint (of_int ?y :: uint16) = ?y"
      using uint_unit [OF v, of ?x] uint_unit [OF v, of ?y] by (simp_all del: of_int_add)
    then show ?thesis
      using u fill ih DecodeRune_units [OF v False] scalar_high [OF v False] by (simp del: of_int_add)
  qed
qed simp

lemma Decode_units: "list_all scalar vs \<Longrightarrow> utf16_Decode (map of_int (concat (map units vs))) = Some vs"
  using Decode_loop_units [of vs "[]" "replicate (length (concat (map units vs))) 0"] by (simp add: utf16_Decode_def)

lemma DecodeRune_scalar: "scalar (utf16_DecodeRune r1 r2)"
proof (cases "surr1 \<le> r1 \<and> r1 < surr2 \<and> surr2 \<le> r2 \<and> r2 < surr3")
  case True
  then have "push_bit 10 (r1 - surr1) OR (r2 - surr2) = (r1 - surr1) * 2 ^ 10 + (r2 - surr2)" by (intro or_add) simp_all
  then show ?thesis using True by (simp add: utf16_DecodeRune_def scalar_def)
qed (auto simp: utf16_DecodeRune_def scalar_def)

lemma Decode_loop_total:
  assumes "list_all scalar w" "length w + length s \<le> length a"
  shows "\<exists>vs. list_all scalar (w @ vs) \<and> utf16_Decode_loop (w @ drop (length w) a) (length w) s =
    Some ((w @ vs) @ drop (length (w @ vs)) a, length (w @ vs))"
  using assms
proof (induction "length s" arbitrary: s w rule: less_induct)
  case less
  have step: "\<exists>vs. list_all scalar (w @ vs) \<and>
      do { b \<leftarrow> slice_put (w @ drop (length w) a) (int (length w)) x; utf16_Decode_loop b (length w + 1) s' } =
      Some ((w @ vs) @ drop (length (w @ vs)) a, length (w @ vs))"
    if x: "scalar x" "length s' < length s" for x s'
  proof -
    have "slice_put (w @ drop (length w) a) (int (length w)) x = Some ((w @ [x]) @ drop (length (w @ [x])) a)"
      using slice_put_fill [of w a x] less.prems x by simp
    moreover obtain vs where "list_all scalar ((w @ [x]) @ vs)" "utf16_Decode_loop ((w @ [x]) @ drop (length (w @ [x])) a) (length (w @ [x])) s' =
      Some (((w @ [x]) @ vs) @ drop (length ((w @ [x]) @ vs)) a, length ((w @ [x]) @ vs))"
      using less.hyps [OF x(2), of "w @ [x]"] less.prems x by auto
    ultimately show ?thesis by (intro exI [of _ "x # vs"]) simp
  qed
  show ?case
  proof (cases s)
    case Nil
    then show ?thesis using less.prems by (intro exI [of _ "[]"]) simp
  next
    case (Cons r s')
    have "0 \<le> uint r" "uint r < 2 ^ 16" using unsigned_less [of r] by simp_all
    then have "\<not> (surr1 \<le> uint r \<and> uint r < surr3) \<Longrightarrow> scalar (uint r)" by (auto simp: scalar_def)
    then show ?thesis using step [of _ s'] step [of _ "tl s'"] DecodeRune_scalar Cons by (auto simp: scalar_def)
  qed
qed


end
