(* ===== verification/Crypto_Rc4.thy ===== *)
theory Crypto_Rc4
  imports Cipher_Streams
begin

text \<open>
  crypto/rc4/rc4.go. The indices into the array of 256 bytes are bytes themselves, so that no index is out of range. The
  key stream cipher keeps the contract of \<open>cipher.Stream\<close> that the modes of crypto/cipher keep.
\<close>

unbundle bit_operations_syntax

section \<open>The code\<close>

record rc4_Cipher =
  rc4_s :: "byte list"
  rc4_i :: byte
  rc4_j :: byte

datatype rc4_KeySizeError = rc4_KeySizeError int

definition rc4_swap :: "byte list \<Rightarrow> byte \<Rightarrow> byte \<Rightarrow> byte list" where
  "rc4_swap s i j = s[unat i := s ! unat j, unat j := s ! unat i]"

text \<open>The loop over the key; \<open>of_nat i\<close> is the index \<open>i\<close>, which is below 256.\<close>

definition rc4_mix :: "byte list \<Rightarrow> nat \<Rightarrow> byte list \<times> byte \<Rightarrow> byte list \<times> byte" where
  "rc4_mix key i = (\<lambda>(s, j). let j = j + (s ! i + key ! (i mod length key)) in (rc4_swap s (of_nat i) j, j))"

definition rc4_NewCipher :: "byte list \<Rightarrow> rc4_KeySizeError + rc4_Cipher" where
  "rc4_NewCipher key =
    (let k = length key
     in if k < 1 \<or> k > 256 then Inl (rc4_KeySizeError (int k))
        else Inr \<lparr>rc4_s = fst (fold (rc4_mix key) [0..<256] (map of_nat [0..<256], 0)), rc4_i = 0, rc4_j = 0\<rparr>)"

text \<open>The body of the loop of \<open>XORKeyStream\<close> on a byte of \<open>src\<close>.\<close>

definition rc4_step :: "rc4_Cipher \<Rightarrow> byte \<Rightarrow> (rc4_Cipher \<times> byte) option" where
  "rc4_step c b =
    (let i = rc4_i c + 1;
         j = rc4_j c + rc4_s c ! unat i;
         s = rc4_swap (rc4_s c) i j
     in Some (\<lparr>rc4_s = s, rc4_i = i, rc4_j = j\<rparr>, b XOR s ! unat (s ! unat i + s ! unat j)))"

definition rc4_XORKeyStream :: "rc4_Cipher \<Rightarrow> mem \<Rightarrow> mslice \<Rightarrow> mslice \<Rightarrow> (rc4_Cipher \<times> mem) option" where
  "rc4_XORKeyStream = byteLoop rc4_step"

definition rc4_Reset :: "rc4_Cipher \<Rightarrow> rc4_Cipher" where
  "rc4_Reset c = c\<lparr>rc4_s := map (\<lambda>_. 0) (rc4_s c), rc4_i := 0, rc4_j := 0\<rparr>"

section \<open>Correctness\<close>

text \<open>The array is always a permutation of the 256 bytes.\<close>

definition rc4_perm :: "byte list \<Rightarrow> bool" where
  "rc4_perm s \<longleftrightarrow> length s = 256 \<and> distinct s"

lemma rc4_swap_perm [simp]: "rc4_perm s \<Longrightarrow> rc4_perm (rc4_swap s i j)"
  using byte_less [of i] byte_less [of j] by (simp add: rc4_perm_def rc4_swap_def distinct_swap)

lemma rc4_init_perm: "rc4_perm (map of_nat [0..<256])"
proof -
  have "inj_on (of_nat :: nat \<Rightarrow> byte) {0..<256}"
  proof (rule inj_onI)
    fix x y :: nat
    assume "x \<in> {0..<256}" "y \<in> {0..<256}" and "(of_nat x :: byte) = of_nat y"
    from this(3) have "unat (of_nat x :: byte) = unat (of_nat y :: byte)" by (rule arg_cong)
    then show "x = y" using \<open>x \<in> {0..<256}\<close> \<open>y \<in> {0..<256}\<close> unfolding unat_of_nat by simp
  qed
  then show ?thesis by (simp add: rc4_perm_def distinct_map)
qed

lemma rc4_mix_perm: "rc4_perm (fst (fold (rc4_mix key) is (s, j)))" if "rc4_perm s"
  using that by (induction "is" arbitrary: s j) (simp_all add: rc4_mix_def Let_def)

lemma rc4_step_perm: "rc4_perm (rc4_s c) \<Longrightarrow> rc4_step c b = Some (c', v) \<Longrightarrow> rc4_perm (rc4_s c')"
  by (auto simp: rc4_step_def Let_def)

interpretation rc4: stream_pair rc4_step rc4_step "\<lambda>x y. rc4_perm (rc4_s x) \<and> y = x"
  by unfold_locales (simp add: rc4_step_def Let_def xor.assoc)

lemma rc4_run_perm: "rc4_perm (rc4_s c) \<Longrightarrow> run rc4_step c bs = Some (c', vs) \<Longrightarrow> rc4_perm (rc4_s c')"
proof (induction bs arbitrary: c vs)
  case (Cons b bs)
  then show ?case by (auto split: Option.bind_splits prod.splits dest: rc4_step_perm)
qed simp

text \<open>The key stream does not depend on the data: it is what the cipher makes of zeros.\<close>

lemma rc4_run_zeros:
  "run rc4_step c bs = map_option (\<lambda>(c', ks). (c', map2 (XOR) bs ks)) (run rc4_step c (replicate (length bs) 0))"
proof (induction bs arbitrary: c)
  case (Cons b bs)
  then show ?case by (auto simp: rc4_step_def Let_def map_option_bind split: Option.bind_splits prod.splits option.splits)
qed simp

text \<open>
  C40. RC4: \<open>NewCipher\<close> accepts exactly keys of 1 to 256 bytes, and its array is a permutation of the 256 bytes, which it
  stays. \<open>XORKeyStream\<close> masks the source with the key stream, which does not depend on it, and a second cipher with the same key
  restores what a first one wrote, for slices that are disjoint, equal, or overlap with the destination below the source.
\<close>

theorem rc4_correct:
  assumes "len \<le> dn" "len \<le> en" "safe_overlap (d, dn) (s, len)" "safe_overlap (e, en) (d, len)"
  shows "if length key \<in> {1..256} then \<exists>c c' m' c'' m'' ks. rc4_NewCipher key = Inr c \<and> rc4_perm (rc4_s c) \<and> rc4_perm (rc4_s c') \<and>
      rc4_XORKeyStream c m (d, dn) (s, len) = Some (c', m') \<and> rc4_XORKeyStream c m' (e, en) (d, len) = Some (c'', m'') \<and>
      run rc4_step c (replicate len 0) = Some (c', ks) \<and> m' = mwrite m d (map2 (XOR) (mread m s len) ks) \<and>
      mread m'' e len = mread m s len
    else rc4_NewCipher key = Inl (rc4_KeySizeError (int (length key)))"
proof (cases "length key \<in> {1..256}")
  case True
  then obtain c where c: "rc4_NewCipher key = Inr c" "rc4_perm (rc4_s c)"
    using rc4_mix_perm [OF rc4_init_perm, of key "[0..<256]" 0] by (cases key) (simp_all add: rc4_NewCipher_def Let_def)
  obtain c' m' c'' m'' where p: "rc4_XORKeyStream c m (d, dn) (s, len) = Some (c', m')"
    "rc4_XORKeyStream c m' (e, en) (d, len) = Some (c'', m'')" "mread m'' e len = mread m s len" "rc4_perm (rc4_s c')"
    using rc4.loop_pair [of c c, OF _ assms, of m] c(2) by (auto simp: rc4_XORKeyStream_def)
  have "byteLoop rc4_step c m (d, dn) (s, len) = map_option (\<lambda>(x, vs). (x, mwrite m d vs)) (run rc4_step c (mread m s len))"
    using assms(1,3) by (subst byteLoop_run) simp_all
  then obtain ks where "run rc4_step c (replicate len 0) = Some (c', ks)" "m' = mwrite m d (map2 (XOR) (mread m s len) ks)"
    using p(1) rc4_run_zeros [of c "mread m s len"] by (auto simp: rc4_XORKeyStream_def)
  then show ?thesis using True c p by (simp only: if_True) blast
next
  case False
  then have "length key < 1 \<or> 256 < length key" by (metis atLeastAtMost_iff not_le)
  then show ?thesis using False by (simp only: rc4_NewCipher_def Let_def if_True if_False)
qed

theorem rc4_correct_witness:
  "\<exists>c c' m' c'' m''. rc4_NewCipher (str ''Key'') = Inr c \<and>
    rc4_XORKeyStream c (\<lambda>a. of_nat a) (0, 9) (0, 9) = Some (c', m') \<and> rc4_XORKeyStream c m' (20, 10) (0, 9) = Some (c'', m'') \<and>
    mread m'' 20 9 = [0, 1, 2, 3, 4, 5, 6, 7, 8]"
proof -
  have "length (str ''Key'') \<in> {1..256}" "mread (\<lambda>a. of_nat a) 0 9 = [0, 1, 2, 3, 4, 5, 6, 7, 8]"
    by (simp_all add: mread_def upt_rec)
  moreover have "safe_overlap (0, 9) (0, 9)" "safe_overlap (20, 10) (0, 9)" by (simp_all add: safe_overlap_def)
  ultimately show ?thesis using rc4_correct [of 9 9 10 0 0 20 "str ''Key''" "\<lambda>a. of_nat a"] by (simp only: if_True) fastforce
qed

end
