(* ===== verification/Spec2Isabelle.thy ===== *)
theory Spec2Isabelle
  imports Sort_Search Container_Heap Container_List Container_Ring Utf8_Correct Cipher_Modes Crypto_Hashes Sha2_Constants
    Crypto_Hmac Hash_Crc Hash_Adler32 Hash_Fnv Sync_Mutex Sync_RWMutex Sync_Once Sync_WaitGroup
    Encoding_Base64_Stream Encoding_Ascii85 Utf16 Crypto_Rc4
begin

text \<open>
  Verification of packages of the Go library in the uCore tree (src/go/src/pkg; all paths below are relative to it).
  The tree holds the uCore kernel in C and a port of Go, whose library is the part modelled here: the packages that
  compute on memory alone, without the operating system. They are independent of each other except through a few
  interfaces, and those are the locales of the development:

  \<^item> \<open>sort.Interface\<close> (\<open>weak_order\<close>, \<open>sort_contract\<close>) and \<open>heap.Interface\<close>, which extends it (\<open>heap_contract\<close>), provided by
    the slice types of sort and by container/vector, used by sort and container/heap;
  \<^item> \<open>cipher.Block\<close> (\<open>block_contract\<close>; \<open>word_cipher\<close> for ciphers on two words), provided by xtea, blowfish, cast5 and des,
    used by the modes of crypto/cipher; \<open>cipher.Stream\<close> (\<open>stream_pair\<close>), provided by the modes and by rc4;
  \<^item> \<open>hash.Hash\<close> (\<open>hash_laws\<close>), provided by the digests (\<open>hash_contract\<close>, \<open>sized_hash\<close>), the checksums and, again, by hmac, which
    uses it (\<open>hmac_hash\<close>);
  \<^item> \<open>binary.ByteOrder\<close> (\<open>fixed_width\<close>);
  \<^item> interleaved steps of goroutines (\<open>step_system\<close>, \<open>step_progress\<close>), the common part of the proofs on sync.

  Every locale is interpreted on the definitions that model the code, in the theory of the provider.

  \<^bold>\<open>How Go is represented.\<close> Go_Prelude, Go_Bytes, Go_Memory, Go_Store and Go_Steps hold what the components share. A
  panic is \<open>None\<close>; an error value is the left side of a sum. The compiler of this tree gives \<open>int\<close> 32 bits: an \<open>int\<close> is a HOL
  \<open>int\<close>, with \<open>int32\<close> where the source can overflow; \<open>uint8\<close>, \<open>uint32\<close> and \<open>uint64\<close> are words. A slice is a list; where the
  source lets two slices overlap (crypto/cipher, rc4) they are ranges of one memory, which the loops read and write in the
  order of the source; where it keeps a capacity (container/vector) the list of spare elements is part of the state;
  where it has pointers (container/list, container/ring) there is a store from addresses to records. Loops are recursive
  functions with a termination proof, or \<open>partial_function (option)\<close> where a panic or an endless loop is possible
  (\<open>down\<close> of heap, the loops of \<open>PushBackList\<close> and \<open>PushFrontList\<close>); no fuel is used. An interface value is a record of functions.

  \<^bold>\<open>sort\<close> (sort/sort.go, sort/search.go; Sort, Sort_Search). \<open>Interface\<close> is a record of \<open>Len\<close>, \<open>Less\<close>, \<open>Swap\<close> over a state; \<open>insertionSort\<close>,
  \<open>doPivot\<close>, \<open>quickSort\<close> and \<open>Sort\<close> are the functions of the source. C1: \<open>Sort\<close> permutes and orders every collection under the
  contract, without a panic. C2: \<open>Float64s\<close> on bit patterns, with NaNs. C3: \<open>Search\<close> finds the least index.

  \<^bold>\<open>container\<close> (container/vector, heap, list, ring; Container_Vector, Container_Heap, Container_List, Container_Ring). C4: the operations
  of \<open>Vector\<close> are those of lists, with their panics, while lengths stay below \<open>2^31\<close>. The argument of \<open>InsertVector\<close> is a value, so
  that a vector sharing its array with the receiver is outside the model. C5: heaps of at most \<open>2^30\<close> elements are priority
  queues; C6: beyond that \<open>Remove\<close> of a large index panics. C7: the pointers of \<open>List\<close> implement sequences, on a list that may be
  empty, leaving other lists alone; C8: \<open>Remove\<close> of an element of another list. C9: the operations on rings.

  \<^bold>\<open>utf8, utf16\<close> (utf8/utf8.go with runtime/rune.c, utf16/utf16.go; Utf8, Utf8_Runes, Utf8_Correct, Utf16). C10 to C13: encoding and
  decoding are inverse, exactly the shortest encodings are accepted, decoding backwards and counting agree with decoding
  forwards, and the decoder of the runtime behind \<open>for range\<close> agrees with the package up to \<open>MaxRune\<close>. C39: UTF-16.

  \<^bold>\<open>encoding\<close> (encoding/binary, base64, ascii85; Encoding_Binary, Encoding_Base64, Encoding_Base64_Stream, Encoding_Ascii85). C14: the byte
  orders. C34, C35: base64 against RFC 4648 over the bits of the input, at once and through the stream encoder over any division
  into writes. C37, C38: ascii85, and the panic of \<open>Encode\<close> on a block of zeros.

  \<^bold>\<open>Block ciphers\<close> (crypto/cipher, xtea, blowfish, cast5, des, rc4; Cipher, Cipher_Block, Cipher_Streams, Cipher_Words, Cipher_Modes,
  Crypto_Xtea, Crypto_Blowfish, Crypto_Cast5, Crypto_Des, Crypto_Rc4, and the tables in Blowfish_Const, Cast5_Const, Des_Const). C15, C16:
  \<open>Encrypt\<close> and \<open>Decrypt\<close> of every cipher that a constructor returns are inverse, and the constructors accept the documented
  lengths of keys only. C17 to C20: the modes CBC, CFB, OFB, CTR and OpenPGP's CFB over these ciphers, in place or between ranges
  of memory, the streams also cut into pieces (\<open>inPieces\<close> of Go_Memory), and the key stream of CTR. C21: \<open>StreamWriter\<close> loses its
  error. C40: rc4. That the ciphers are the published ones is not shown.

  \<^bold>\<open>Hashes\<close> (hash/hash.go, crypto/md4, md5, ripemd160, sha1, sha256, sha512, hmac, hash/crc32, crc64, adler32, fnv; Hash_Interface, Digest,
  Digest_Words, Crypto_Md4 to Crypto_Sha512, Crypto_Hashes, Sha2_Constants, Crypto_Hmac, Hash_Crc, Hash_Adler32, Hash_Fnv). \<open>hash_run\<close> makes any
  sequence of calls of \<open>Write\<close>, \<open>Sum\<close> and \<open>Reset\<close>, and \<open>hash_spec\<close> says what they return. C22, C23: the digests over the compression
  functions of the standards, written in Crypto_Hashes apart from the code. Initial values, the form of the padding and the
  constants of MD5 are shared with the code; the constants of SHA-2 and RIPEMD-160 are checked against the roots of primes
  that define them (Sha2_Constants, \<open>rmd_constants\<close>). C24: HMAC. C25, C26: the table driven CRCs against division bit by
  bit, and burst errors. C27: the delayed reductions of Adler-32. Of crc32 the portable \<open>updateCastagnoli\<close> is modelled, not the
  assembler of amd64.

  \<^bold>\<open>sync\<close> (sync/mutex.go, rwmutex.go, once.go, waitgroup.go; Go_Steps, Sync_Mutex, Sync_RWMutex, Sync_Once, Sync_WaitGroup). A goroutine is a program
  counter with its local variables; each atomic operation, load or operation on a semaphore is one step, in any
  interleaving, with the semaphores documented in runtime/extern.go. C28, C29: \<open>Mutex\<close> excludes and loses no wake-up, for fewer than
  \<open>2^29\<close> goroutines, the room of its waiter count. C30, C31, C32, C33, C36: \<open>RWMutex\<close> (fewer than \<open>2^30\<close> goroutines), \<open>Once\<close> and
  \<open>WaitGroup\<close> (fewer than \<open>2^31 - 1\<close>). In these three the \<open>Mutex\<close> inside is a bit that \<open>Lock\<close> takes in one step when it is free. C28
  and C29 justify that for fewer than \<open>2^29\<close> goroutines; the step relations are not composed.

  \<^bold>\<open>Not modelled.\<close> The uCore kernel, the compilers and the runtime, in C and assembler; the packages over the operating
  system (os, syscall, net, time) and over reflection (reflect, fmt, gob, json, \<open>binary.Read\<close> and \<open>binary.Write\<close>); io and bufio, of which
  the packages above use the interfaces as parameters; big and what is built on it; aes and twofish; tables generated from
  the Unicode database; text processing, compression and image formats; the stream decoders of base64 and ascii85; \<open>sync.Cond\<close>.
\<close>

end
